(* ===== verification/Prelude.thy ===== *)
theory Prelude
  imports Main "HOL-Library.List_Lexorder" "HOL-Library.Char_ord"
begin

text \<open>
  What every theory of the development shares: byte strings, Go errors as values,
  the error-or-value result type, the collections of facts the component proofs use, and
  a few generic lemmas on lists and maps that are kept as association lists.

  A Go \<open>string\<close> and a \<open>[]byte\<close> are both a list of bytes, here a HOL \<open>string\<close>
  (each \<open>char\<close> is one byte). Go compares strings bytewise, which is the
  lexicographic order of \<open>List_Lexorder\<close>.
\<close>

section \<open>Byte strings\<close>

type_synonym bytes = string

definition code :: "char \<Rightarrow> nat" where
  "code c = of_char c"

definition byte :: "nat \<Rightarrow> char" where
  "byte n = char_of n"

lemma code_byte [simp]: "n < 256 \<Longrightarrow> code (byte n) = n"
  by (simp add: code_def byte_def)

lemma byte_code [simp]: "byte (code c) = c"
  by (simp add: code_def byte_def)

lemma code_less [simp]: "code c < 256"
  by (simp add: code_def)

lemma code_inject [simp]: "code c = code d \<longleftrightarrow> c = d"
  by (simp add: code_def)

text \<open>A fact about every byte below a bound is checked on the numbers below it.\<close>

lemma char_cases_below:
  assumes "list_all (\<lambda>n. P (byte n)) [0..<k]" and "code c < k"
  shows "P c"
proof -
  from assms have "P (byte (code c))"
    by (simp add: list_all_iff del: byte_code)
  then show ?thesis by simp
qed

section \<open>Go errors\<close>

text \<open>
  The sentinel errors the code tests for with \<open>errors.Is\<close>, and the error values
  themselves: a sentinel, an error of the operating system or a library with its text
  (and the sentinel it matches, if any), or one built by \<open>fmt.Errorf\<close>, kept as its
  format string, its arguments and the error it wraps with \<open>%w\<close>.
\<close>

datatype sentinel = ErrTampered | ErrAlreadySealed | ErrNotExist | ErrClosed | ErrCanceled

datatype arg = Num int | Str string

datatype error =
    Sentinel sentinel
  | External string
  | Errorf string "arg list" "error option"

fun errors_is :: "error \<Rightarrow> sentinel \<Rightarrow> bool" where
  "errors_is (Sentinel s) t = (s = t)"
| "errors_is (External m) t = False"
| "errors_is (Errorf f as None) t = False"
| "errors_is (Errorf f as (Some e)) t = errors_is e t"

type_synonym 'a result = "error + 'a"

text \<open>Early return on an error: \<open>if err != nil { return ..., err }\<close>.\<close>

definition bindr :: "'a result \<Rightarrow> ('a \<Rightarrow> 'b result) \<Rightarrow> 'b result" where
  "bindr r f = (case r of Inl e \<Rightarrow> Inl e | Inr x \<Rightarrow> f x)"

lemma bindr_simps [simp]:
  "bindr (Inl e) f = Inl e"
  "bindr (Inr x) f = f x"
  by (simp_all add: bindr_def)

lemma bindr_eq_Inr: "bindr r f = Inr y \<longleftrightarrow> (\<exists>x. r = Inr x \<and> f x = Inr y)"
  by (cases r) auto

text \<open>\<open>if err != nil { return fmt.Errorf(format, args..., err) }\<close>.\<close>

definition wrap :: "string \<Rightarrow> arg list \<Rightarrow> 'a result \<Rightarrow> 'a result" where
  "wrap f as r = (case r of Inl e \<Rightarrow> Inl (Errorf f as (Some e)) | Inr x \<Rightarrow> Inr x)"

lemma wrap_simps [simp]:
  "wrap f as (Inl e) = Inl (Errorf f as (Some e))"
  "wrap f as (Inr x) = Inr x"
  "wrap f as r = Inr x \<longleftrightarrow> r = Inr x"
  by (cases r; simp add: wrap_def)+

section \<open>Facts the component proofs collect\<close>

named_theorems roundtrip \<open>decoding what was encoded gives the value back\<close>
named_theorems store_simps \<open>what the operations of the store do to its state\<close>
named_theorems os_simps \<open>what the operating system calls do to the world\<close>

section \<open>Lists\<close>

lemma takeWhile_append_stop:
  "\<forall>x\<in>set xs. P x \<Longrightarrow> (case ys of [] \<Rightarrow> True | y # _ \<Rightarrow> \<not> P y) \<Longrightarrow>
   takeWhile P (xs @ ys) = xs \<and> dropWhile P (xs @ ys) = ys"
  by (induction xs) (auto split: list.splits)

lemma last_map: "xs \<noteq> [] \<Longrightarrow> last (map f xs) = f (last xs)"
  by (induction xs) auto

text \<open>A Go map with string keys, kept as the list of its entries in key order.\<close>

fun put :: "'k::linorder \<Rightarrow> 'v \<Rightarrow> ('k \<times> 'v) list \<Rightarrow> ('k \<times> 'v) list" where
  "put k v [] = [(k, v)]"
| "put k v ((k', v') # m) =
     (if k < k' then (k, v) # (k', v') # m
      else if k = k' then (k, v) # m
      else (k', v') # put k v m)"

definition keys :: "('k \<times> 'v) list \<Rightarrow> 'k list" where
  "keys m = map fst m"

definition ordered :: "('k::linorder \<times> 'v) list \<Rightarrow> bool" where
  "ordered m \<longleftrightarrow> sorted_wrt (<) (keys m)"

lemma keys_simps [simp]: "keys [] = []" "keys (p # m) = fst p # keys m"
  by (simp_all add: keys_def)

lemma ordered_simps [simp]:
  "ordered []"
  "ordered (p # m) \<longleftrightarrow> (\<forall>k\<in>set (keys m). fst p < k) \<and> ordered m"
  by (simp_all add: ordered_def)

lemma map_of_put [simp]: "ordered m \<Longrightarrow> map_of (put k v m) = (map_of m)(k \<mapsto> v)"
  by (induction k v m rule: put.induct) (auto simp: fun_eq_iff)

lemma set_keys_put [simp]: "set (keys (put k v m)) = insert k (set (keys m))"
  by (induction k v m rule: put.induct) auto

lemma ordered_put [simp]: "ordered m \<Longrightarrow> ordered (put k v m)"
  by (induction k v m rule: put.induct) auto

lemma dom_map_of_keys: "dom (map_of m) = set (keys m)"
  by (simp add: dom_map_of_conv_image_fst keys_def)

lemma put_last: "\<forall>k'\<in>set (keys m). k' < k \<Longrightarrow> put k v m = m @ [(k, v)]"
  by (induction m) auto

lemma keys_append [simp]: "keys (xs @ ys) = keys xs @ keys ys"
  by (simp add: keys_def)

lemma ordered_append:
  "ordered (xs @ ys) \<longleftrightarrow> ordered xs \<and> ordered ys \<and> (\<forall>a\<in>set (keys xs). \<forall>b\<in>set (keys ys). a < b)"
  by (auto simp: ordered_def sorted_wrt_append)

text \<open>Entering the entries of an ordered map one by one rebuilds it.\<close>

lemma foldl_put:
  "ordered (acc @ m) \<Longrightarrow> foldl (\<lambda>a (k, v). put k v a) acc m = acc @ m"
proof (induction m arbitrary: acc)
  case (Cons p m)
  obtain k v where p: "p = (k, v)" by fastforce
  with Cons.prems have "\<forall>k'\<in>set (keys acc). k' < k"
    by (auto simp: ordered_append)
  with p Cons.IH [of "acc @ [(k, v)]"] Cons.prems show ?case
    by (simp add: put_last)
qed simp

end
