(* ===== verification/Go_Json_String.thy ===== *)
theory Go_Json_String
  imports Go_Text
begin

text \<open>
  How \<open>encoding/json\<close> writes a Go string between quotes (\<open>appendString\<close> with HTML
  escaping, as \<open>json.Marshal\<close> calls it), how it scans a quoted string, and how it reads
  one back (\<open>unquoteBytes\<close>).
\<close>

abbreviation bslash :: char where "bslash \<equiv> CHR 0x5C"
abbreviation dquote :: char where "dquote \<equiv> CHR 0x22"

section \<open>Writing\<close>

definition escape_ascii :: "char \<Rightarrow> bytes" where
  "escape_ascii c =
     (if c = dquote \<or> c = bslash then [bslash, c]
      else if c = CHR 0x08 then [bslash, CHR ''b'']
      else if c = CHR 0x0C then [bslash, CHR ''f'']
      else if c = CHR 0x0A then [bslash, CHR ''n'']
      else if c = CHR 0x0D then [bslash, CHR ''r'']
      else if c = CHR 0x09 then [bslash, CHR ''t'']
      else if code c < 0x20 \<or> c \<in> set ''<>&''
        then bslash # ''u00'' @ [hex_digit (code c div 16), hex_digit (code c mod 16)]
      else [c])"

text \<open>U+2028 and U+2029, the line separators that JavaScript does not allow in strings.\<close>

definition line_separator :: "bytes \<Rightarrow> bytes option" where
  "line_separator r =
     (if r = [byte 0xE2, byte 0x80, byte 0xA8] then Some (bslash # ''u2028'')
      else if r = [byte 0xE2, byte 0x80, byte 0xA9] then Some (bslash # ''u2029'')
      else None)"

fun json_escape :: "bytes \<Rightarrow> bytes" where
  "json_escape [] = []"
| "json_escape (c # s) =
     (if code c < 0x80 then escape_ascii c @ json_escape s
      else if rune_len (c # s) = 0 then (bslash # ''ufffd'') @ json_escape s
      else (case line_separator (take (rune_len (c # s)) (c # s)) of
              Some e \<Rightarrow> e
            | None \<Rightarrow> take (rune_len (c # s)) (c # s))
           @ json_escape (drop (rune_len (c # s) - 1) s))"

section \<open>Reading\<close>

definition hex4 :: "bytes \<Rightarrow> nat option" where
  "hex4 s = (case s of
     a # b # c # d # _ \<Rightarrow>
       (case (hex_val a, hex_val b, hex_val c, hex_val d) of
          (Some i, Some j, Some k, Some l) \<Rightarrow> Some (4096 * i + 256 * j + 16 * k + l)
        | _ \<Rightarrow> None)
   | _ \<Rightarrow> None)"

text \<open>The code point of a surrogate pair, when an escape for its second half follows.\<close>

definition low_surrogate :: "nat \<Rightarrow> bytes \<Rightarrow> nat option" where
  "low_surrogate r s = (case s of
     a # b # t \<Rightarrow>
       if a = bslash \<and> b = CHR ''u'' \<and> 0xD800 \<le> r \<and> r < 0xDC00 then
         (case hex4 t of
            None \<Rightarrow> None
          | Some q \<Rightarrow> if 0xDC00 \<le> q \<and> q < 0xE000
                      then Some (0x10000 + (r - 0xD800) * 1024 + (q - 0xDC00)) else None)
       else None
   | _ \<Rightarrow> None)"

definition simple_escape :: "char \<Rightarrow> char option" where
  "simple_escape e =
     (if e = dquote \<or> e = bslash \<or> e = CHR ''/'' \<or> e = CHR 0x27 then Some e
      else if e = CHR ''b'' then Some (CHR 0x08)
      else if e = CHR ''f'' then Some (CHR 0x0C)
      else if e = CHR ''n'' then Some (CHR 0x0A)
      else if e = CHR ''r'' then Some (CHR 0x0D)
      else if e = CHR ''t'' then Some (CHR 0x09)
      else None)"

function json_unquote :: "bytes \<Rightarrow> bytes option" where
  "json_unquote [] = Some []"
| "json_unquote (c # s) =
     (if c = bslash then
        (case s of
           [] \<Rightarrow> None
         | e # t \<Rightarrow>
             if e = CHR ''u'' then
               (case hex4 t of
                  None \<Rightarrow> None
                | Some r \<Rightarrow>
                    if 0xD800 \<le> r \<and> r < 0xE000 then
                      (case low_surrogate r (drop 4 t) of
                         Some p \<Rightarrow> map_option ((@) (utf8_encode p)) (json_unquote (drop 10 t))
                       | None \<Rightarrow> map_option ((@) replacement) (json_unquote (drop 4 t)))
                    else map_option ((@) (utf8_encode r)) (json_unquote (drop 4 t)))
             else (case simple_escape e of
                     None \<Rightarrow> None
                   | Some d \<Rightarrow> map_option ((#) d) (json_unquote t)))
      else if c = dquote \<or> code c < 0x20 then None
      else if code c < 0x80 then map_option ((#) c) (json_unquote s)
      else if rune_len (c # s) = 0 then map_option ((@) replacement) (json_unquote s)
      else map_option ((@) (take (rune_len (c # s)) (c # s)))
             (json_unquote (drop (rune_len (c # s) - 1) s)))"
  by pat_completeness auto
termination
  by (relation "measure length") (auto simp del: rune_len.simps)

text \<open>
  The body of a quoted string, up to the closing quote: an escape is one of those JSON
  knows, a control character is an error.
\<close>

fun scan_string :: "bytes \<Rightarrow> (bytes \<times> bytes) option" where
  "scan_string [] = None"
| "scan_string (c # s) =
     (if c = dquote then Some ([], s)
      else if code c < 0x20 then None
      else if c = bslash then
        (case s of
           [] \<Rightarrow> None
         | e # t \<Rightarrow>
             if e = CHR ''u'' then
               (case t of
                  h # i # j # k # u \<Rightarrow>
                    if hex4 [h, i, j, k] = None then None
                    else map_option (\<lambda>(a, b). (c # e # h # i # j # k # a, b)) (scan_string u)
                | _ \<Rightarrow> None)
             else if e \<in> set ''/bfnrt'' \<union> {dquote, bslash}
               then map_option (\<lambda>(a, b). (c # e # a, b)) (scan_string t)
             else None)
      else map_option (\<lambda>(a, b). (c # a, b)) (scan_string s))"

section \<open>Reading back what was written\<close>

declare rune_len.simps [simp del] json_unquote.simps(2) [simp del]

lemma json_unquote_Nil [simp]: "json_unquote [] = Some []"
  by simp

lemma hex4_byte:
  "n < 128 \<Longrightarrow> hex4 (CHR ''0'' # CHR ''0'' # hex_digit (n div 16) # hex_digit (n mod 16) # t) = Some n"
  by (simp add: hex4_def hex_val_def [of "CHR ''0''"] code_def)

lemma hex4_special [simp]:
  "hex4 (CHR ''f'' # CHR ''f'' # CHR ''f'' # CHR ''d'' # t) = Some 0xFFFD"
  "hex4 (CHR ''2'' # CHR ''0'' # CHR ''2'' # CHR ''8'' # t) = Some 0x2028"
  "hex4 (CHR ''2'' # CHR ''0'' # CHR ''2'' # CHR ''9'' # t) = Some 0x2029"
  by (simp_all add: hex4_def hex_val_def code_def)

lemma utf8_encode_special [simp]:
  "utf8_encode 0xFFFD = replacement"
  "utf8_encode 0x2028 = [byte 0xE2, byte 0x80, byte 0xA8]"
  "utf8_encode 0x2029 = [byte 0xE2, byte 0x80, byte 0xA9]"
  by (simp_all add: utf8_encode_def replacement_def)

lemma code_special [simp]:
  "code bslash = 92" "code dquote = 34"
  by (simp_all add: code_def)

lemma unquote_u:
  "hex4 t = Some r \<Longrightarrow> \<not> (0xD800 \<le> r \<and> r < 0xE000) \<Longrightarrow>
   json_unquote (bslash # CHR ''u'' # t) = map_option ((@) (utf8_encode r)) (json_unquote (drop 4 t))"
  by (auto simp: json_unquote.simps(2))

lemma unquote_simple:
  "e \<noteq> CHR ''u'' \<Longrightarrow> simple_escape e = Some d \<Longrightarrow>
   json_unquote (bslash # e # t) = map_option ((#) d) (json_unquote t)"
  by (simp add: json_unquote.simps(2))

lemma unquote_plain:
  "c \<noteq> bslash \<Longrightarrow> c \<noteq> dquote \<Longrightarrow> \<not> code c < 0x20 \<Longrightarrow> code c < 0x80 \<Longrightarrow>
   json_unquote (c # s) = map_option ((#) c) (json_unquote s)"
  by (simp add: json_unquote.simps(2))

lemma append_single [simp]: "(@) [c] = (#) c"
  by (simp add: fun_eq_iff)

lemma unquote_escape_ascii:
  assumes "code c < 0x80"
  shows "json_unquote (escape_ascii c @ t) = map_option ((#) c) (json_unquote t)"
proof (cases "code c < 0x20 \<or> c \<in> set ''<>&''")
  case True
  have "json_unquote ((bslash # ''u00'' @ [hex_digit (code c div 16), hex_digit (code c mod 16)]) @ t)
      = map_option ((#) c) (json_unquote t)"
    using assms hex4_byte [of "code c" t]
    by (simp add: unquote_u utf8_encode_def option.map_comp comp_def)
  moreover have "escape_ascii c = (if c = CHR 0x08 then [bslash, CHR ''b'']
      else if c = CHR 0x0C then [bslash, CHR ''f''] else if c = CHR 0x0A then [bslash, CHR ''n'']
      else if c = CHR 0x0D then [bslash, CHR ''r''] else if c = CHR 0x09 then [bslash, CHR ''t'']
      else bslash # ''u00'' @ [hex_digit (code c div 16), hex_digit (code c mod 16)])"
    using True by (auto simp: escape_ascii_def)
  ultimately show ?thesis
    by (simp add: unquote_simple simple_escape_def)
next
  case False
  then show ?thesis using assms
    by (auto simp: escape_ascii_def unquote_plain unquote_simple simple_escape_def code_def)
qed

lemma unquote_rune:
  assumes "\<not> code c < 0x80" and "rune_len (c # s) \<noteq> 0"
  shows "json_unquote (take (rune_len (c # s)) (c # s) @ t)
       = map_option ((@) (take (rune_len (c # s)) (c # s))) (json_unquote t)"
proof -
  obtain k where k: "rune_len (c # s) = Suc k" using assms(2) by (cases "rune_len (c # s)") auto
  have "rune_len (c # take k s @ t) = Suc k"
    using rune_len_take [OF assms(2), of t] k by simp
  moreover have "k \<le> length s" using rune_len_le [of "c # s"] k by simp
  moreover have "c \<noteq> bslash" "c \<noteq> dquote" "\<not> code c < 0x20"
    using assms(1) by auto
  ultimately show ?thesis using assms k
    by (simp add: json_unquote.simps(2))
qed

lemma line_separator_unquote:
  "line_separator r = Some e \<Longrightarrow> json_unquote (e @ t) = map_option ((@) r) (json_unquote t)"
  by (auto simp: line_separator_def unquote_u split: if_splits)

theorem unquote_escape [roundtrip]: "json_unquote (json_escape s) = Some (to_valid s)"
proof (induction s rule: json_escape.induct)
  case (2 c s)
  consider (ascii) "code c < 0x80" | (bad) "\<not> code c < 0x80" "rune_len (c # s) = 0"
    | (rune) "\<not> code c < 0x80" "rune_len (c # s) \<noteq> 0" by blast
  then show ?case
  proof cases
    case ascii
    with 2 show ?thesis by (simp add: unquote_escape_ascii)
  next
    case bad
    with 2 show ?thesis by (simp add: unquote_u)
  next
    case rune
    then have IH: "json_unquote (json_escape (drop (rune_len (c # s) - 1) s))
        = Some (to_valid (drop (rune_len (c # s) - 1) s))"
      by (rule "2.IH"(3))
    from rune IH show ?thesis
      by (simp add: line_separator_unquote unquote_rune split: option.split
            del: take_Cons drop_Cons)
  qed
qed simp

corollary unquote_escape_valid [roundtrip]: "valid_utf8 s \<Longrightarrow> json_unquote (json_escape s) = Some s"
  by (simp add: unquote_escape to_valid_id)

section \<open>Scanning what was written\<close>

text \<open>
  The body of a quoted string: scanned up to the quote whatever follows. A body is
  extended on the left by any byte that is neither special nor an escape.
\<close>

definition str_body :: "bytes \<Rightarrow> bool" where
  "str_body a \<longleftrightarrow> (\<forall>r. scan_string (a @ dquote # r) = Some (a, r))"

lemma str_body_scan: "str_body a \<Longrightarrow> scan_string (a @ dquote # r) = Some (a, r)"
  by (simp add: str_body_def)

lemma str_body_Nil [simp]: "str_body []"
  by (simp add: str_body_def)

lemma str_body_plain:
  "c \<noteq> bslash \<Longrightarrow> c \<noteq> dquote \<Longrightarrow> \<not> code c < 0x20 \<Longrightarrow> str_body a \<Longrightarrow> str_body (c # a)"
  by (simp add: str_body_def)

lemma str_body_plains:
  "\<forall>c\<in>set b. c \<noteq> bslash \<and> c \<noteq> dquote \<and> \<not> code c < 0x20 \<Longrightarrow> str_body a \<Longrightarrow> str_body (b @ a)"
  by (induction b) (auto intro: str_body_plain)

lemma str_body_simple:
  "e \<in> set ''/bfnrt'' \<union> {dquote, bslash} \<Longrightarrow> str_body a \<Longrightarrow> str_body (bslash # e # a)"
  by (auto simp: str_body_def)

lemma str_body_hex:
  "hex4 [h, i, j, k] \<noteq> None \<Longrightarrow> str_body a \<Longrightarrow> str_body (bslash # CHR ''u'' # h # i # j # k # a)"
  by (auto simp: str_body_def)

lemma scan_string_body:
  "scan_string s = Some (a, b) \<Longrightarrow> s = a @ dquote # b \<and> str_body a"
proof (induction s arbitrary: a b rule: length_induct)
  case (1 s)
  from "1.prems" obtain c s' where s: "s = c # s'" by (cases s) auto
  have IH: "t = a @ dquote # b \<and> str_body a"
    if "length t < length s" "scan_string t = Some (a, b)" for t a b
    using "1.IH" that by blast
  consider (quote) "c = dquote" | (esc) "c = bslash" | (plain) "c \<noteq> dquote" "c \<noteq> bslash" by blast
  then show ?case
  proof cases
    case quote
    with "1.prems" s show ?thesis by simp
  next
    case esc
    with "1.prems" s obtain e t where s': "s' = e # t" by (auto split: list.splits)
    show ?thesis
    proof (cases "e = CHR ''u''")
      case True
      with esc s s' "1.prems" obtain h i j k u x where t: "t = h # i # j # k # u"
        and h: "hex4 [h, i, j, k] \<noteq> None"
        and u: "scan_string u = Some (x, b)" and a: "a = bslash # e # h # i # j # k # x"
        by (auto split: list.splits if_splits)
      with IH [OF _ u] s s' have "u = x @ dquote # b \<and> str_body x" by simp
      then show ?thesis using a t s s' esc True h by (auto intro: str_body_hex)
    next
      case False
      with esc s s' "1.prems" obtain x where e: "e \<in> set ''/bfnrt'' \<union> {dquote, bslash}"
        and u: "scan_string t = Some (x, b)" and a: "a = bslash # e # x"
        by (auto split: if_splits)
      with IH [OF _ u] s s' have "t = x @ dquote # b \<and> str_body x" by simp
      then show ?thesis using a s s' esc str_body_simple [OF e] by simp
    qed
  next
    case plain
    with "1.prems" s obtain x where c: "\<not> code c < 0x20"
      and u: "scan_string s' = Some (x, b)" and a: "a = c # x"
      by (auto split: if_splits)
    with IH [OF _ u] s have "s' = x @ dquote # b \<and> str_body x" by simp
    then show ?thesis using a plain c s by (auto intro: str_body_plain)
  qed
qed

lemma escape_ascii_cases:
  obtains (plain) "escape_ascii c = [c]" "c \<noteq> bslash" "c \<noteq> dquote" "\<not> code c < 0x20"
  | (simple) e where "escape_ascii c = [bslash, e]" "e \<in> set ''/bfnrt'' \<union> {dquote, bslash}"
  | (hex) "escape_ascii c =
      bslash # ''u00'' @ [hex_digit (code c div 16), hex_digit (code c mod 16)]"
proof -
  let ?x = "escape_ascii c"
  have "(?x = [c] \<and> c \<noteq> bslash \<and> c \<noteq> dquote \<and> \<not> code c < 0x20)
      \<or> (\<exists>e\<in>set ''/bfnrt'' \<union> {dquote, bslash}. ?x = [bslash, e])
      \<or> ?x = bslash # ''u00'' @ [hex_digit (code c div 16), hex_digit (code c mod 16)]"
    by (simp add: escape_ascii_def split: if_split)
  then show thesis using that by blast
qed

lemma str_body_escape_ascii:
  assumes "code c < 0x80" "str_body a"
  shows "str_body (escape_ascii c @ a)"
proof (cases rule: escape_ascii_cases [of c])
  case plain
  with assms show ?thesis by (simp add: str_body_plain)
next
  case (simple e)
  with assms str_body_simple [of e a] show ?thesis by simp
next
  case hex
  have "hex4 [CHR ''0'', CHR ''0'', hex_digit (code c div 16), hex_digit (code c mod 16)] \<noteq> None"
    using hex4_byte [OF assms(1), of "[]"] by simp
  with hex assms show ?thesis by (simp add: str_body_hex)
qed

lemma str_body_line_separator:
  "line_separator r = Some e \<Longrightarrow> str_body a \<Longrightarrow> str_body (e @ a)"
  by (auto simp: line_separator_def str_body_hex split: if_splits)

lemma str_body_escape [simp]: "str_body (json_escape s)"
proof (induction s rule: json_escape.induct)
  case (2 c s)
  consider (ascii) "code c < 0x80" | (bad) "\<not> code c < 0x80" "rune_len (c # s) = 0"
    | (rune) "\<not> code c < 0x80" "rune_len (c # s) \<noteq> 0" by blast
  then show ?case
  proof cases
    case ascii
    with 2 show ?thesis by (simp add: str_body_escape_ascii)
  next
    case bad
    with 2 show ?thesis by (simp add: str_body_hex)
  next
    case rune
    then have IH: "str_body (json_escape (drop (rune_len (c # s) - 1) s))"
      by (rule "2.IH"(3))
    have "\<forall>x\<in>set (take (rune_len (c # s)) (c # s)). x \<noteq> bslash \<and> x \<noteq> dquote \<and> \<not> code x < 0x20"
      using rune_len_high [OF rune(1), of _ s] by fastforce
    note plain = str_body_plains [OF this IH]
    show ?thesis
    proof (cases "line_separator (take (rune_len (c # s)) (c # s))")
      case None
      with rune plain show ?thesis by (simp del: take_Cons)
    next
      case (Some e)
      with rune str_body_line_separator [OF Some IH] show ?thesis by (simp del: take_Cons)
    qed
  qed
qed simp

end
