(* ===== verification/Go_Json.thy ===== *)
theory Go_Json
  imports Go_Json_String
begin

text \<open>
  JSON texts as \<open>encoding/json\<close> reads and writes them. A syntax tree keeps the raw text
  of every literal (the number as written, the string between its quotes), so that
  writing a tree is what \<open>json.Compact\<close> makes of the text: the white space gone and
  nothing else changed. Parsing what was written gives the tree back
  (\<open>parse_render\<close>). What the parser returns is a \<open>spelled\<close> tree, which also keeps the text of
  each object and array as it stands, white space included: that is what a \<open>json.RawMessage\<close> holds.
\<close>

section \<open>Syntax trees and their text\<close>

datatype json =
    JLit bytes
  | JStr bytes
  | JArr "json list"
  | JObj "(bytes \<times> json) list"

fun commas :: "bytes list \<Rightarrow> bytes" where
  "commas [] = []"
| "commas [x] = x"
| "commas (x # y # xs) = x @ CHR '','' # commas (y # xs)"

definition quoted :: "bytes \<Rightarrow> bytes" where
  "quoted s = dquote # s @ [dquote]"

fun render :: "json \<Rightarrow> bytes" where
  "render (JLit s) = s"
| "render (JStr s) = quoted s"
| "render (JArr vs) = CHR ''['' # commas (map render vs) @ '']''"
| "render (JObj kvs) = CHR ''{'' # commas (map (\<lambda>(k, v). quoted k @ CHR '':'' # render v) kvs) @ ''}''"

text \<open>
  A tree that keeps beside each array and object the text it was read from, as a
  \<open>json.RawMessage\<close> field needs it; \<open>strip\<close> forgets the texts, \<open>spelled_by\<close> gives those of a writer
  that is told how deep it is.
\<close>

datatype spelled =
    SLit bytes
  | SStr bytes
  | SArr bytes "spelled list"
  | SObj bytes "(bytes \<times> spelled) list"

fun strip :: "spelled \<Rightarrow> json" where
  "strip (SLit s) = JLit s"
| "strip (SStr s) = JStr s"
| "strip (SArr b vs) = JArr (map strip vs)"
| "strip (SObj b kvs) = JObj (map (\<lambda>(k, v). (k, strip v)) kvs)"

fun spelling :: "spelled \<Rightarrow> bytes" where
  "spelling (SLit s) = s"
| "spelling (SStr s) = quoted s"
| "spelling (SArr b vs) = b"
| "spelling (SObj b kvs) = b"

fun spelled_by :: "(nat \<Rightarrow> json \<Rightarrow> bytes) \<Rightarrow> nat \<Rightarrow> json \<Rightarrow> spelled" where
  "spelled_by w d (JLit s) = SLit s"
| "spelled_by w d (JStr s) = SStr s"
| "spelled_by w d (JArr vs) = SArr (w d (JArr vs)) (map (spelled_by w (Suc d)) vs)"
| "spelled_by w d (JObj kvs) = SObj (w d (JObj kvs)) (map (\<lambda>(k, v). (k, spelled_by w (Suc d) v)) kvs)"

lemma strip_spelled_by [simp]: "strip (spelled_by w d v) = v"
proof (induction v arbitrary: d)
  case (JObj kvs)
  have "map (\<lambda>(k, v). (k, strip v)) (map (\<lambda>(k, v). (k, spelled_by w (Suc d) v)) kvs) = map (\<lambda>kv. kv) kvs"
    unfolding map_map using JObj by (intro map_cong) (auto simp: snds.simps)
  then show ?case by simp
qed (simp_all add: map_idI)

lemma strip_spelled_comp [simp]:
  "strip \<circ> (spelled_by w d \<circ> f) = f"
  "(\<lambda>(k, v). (k, strip v)) \<circ> ((\<lambda>(k, v). (k, spelled_by w d v)) \<circ> (\<lambda>(k, v). (g k v, h k v))) = (\<lambda>(k, v). (g k v, h k v))"
  by (simp_all add: fun_eq_iff)

abbreviation rendered :: "nat \<Rightarrow> json \<Rightarrow> spelled" where
  "rendered \<equiv> spelled_by (\<lambda>d. render)"

lemma spelling_rendered [simp]: "spelling (rendered d v) = render v"
  by (cases v) simp_all

section \<open>Scanning\<close>

definition is_ws :: "char \<Rightarrow> bool" where
  "is_ws c \<longleftrightarrow> c = CHR '' '' \<or> c = CHR 0x09 \<or> c = CHR 0x0A \<or> c = CHR 0x0D"

definition skip_ws :: "bytes \<Rightarrow> bytes" where
  "skip_ws s = dropWhile is_ws s"

definition is_digit :: "char \<Rightarrow> bool" where
  "is_digit c \<longleftrightarrow> 48 \<le> code c \<and> code c \<le> 57"

text \<open>One or more digits.\<close>

definition scan_digits :: "bytes \<Rightarrow> (bytes \<times> bytes) option" where
  "scan_digits s = (if takeWhile is_digit s = [] then None
     else Some (takeWhile is_digit s, dropWhile is_digit s))"

definition scan_int :: "bytes \<Rightarrow> (bytes \<times> bytes) option" where
  "scan_int s = (case s of
     [] \<Rightarrow> None
   | c # t \<Rightarrow> if c = CHR ''0'' then Some ([c], t) else scan_digits s)"

definition scan_frac :: "bytes \<Rightarrow> (bytes \<times> bytes) option" where
  "scan_frac s = (case s of
     [] \<Rightarrow> Some ([], [])
   | c # t \<Rightarrow> if c = CHR ''.'' then map_option (\<lambda>(a, b). (c # a, b)) (scan_digits t) else Some ([], s))"

definition scan_exp :: "bytes \<Rightarrow> (bytes \<times> bytes) option" where
  "scan_exp s = (case s of
     [] \<Rightarrow> Some ([], [])
   | c # t \<Rightarrow>
       if c = CHR ''e'' \<or> c = CHR ''E'' then
         (case t of
            [] \<Rightarrow> None
          | d # u \<Rightarrow>
              if d = CHR ''+'' \<or> d = CHR ''-''
              then map_option (\<lambda>(a, b). (c # d # a, b)) (scan_digits u)
              else map_option (\<lambda>(a, b). (c # a, b)) (scan_digits t))
       else Some ([], s))"

definition scan_number :: "bytes \<Rightarrow> (bytes \<times> bytes) option" where
  "scan_number s =
     (let sg = takeWhile (\<lambda>c. c = CHR ''-'') (take 1 s) in
      case scan_int (drop (length sg) s) of
        None \<Rightarrow> None
      | Some (i, r1) \<Rightarrow> (case scan_frac r1 of
          None \<Rightarrow> None
        | Some (f, r2) \<Rightarrow> (case scan_exp r2 of
            None \<Rightarrow> None
          | Some (e, r3) \<Rightarrow> Some (sg @ i @ f @ e, r3))))"

definition starts :: "bytes \<Rightarrow> bytes \<Rightarrow> bool" where
  "starts p s \<longleftrightarrow> take (length p) s = p"

definition scan_literal :: "bytes \<Rightarrow> (bytes \<times> bytes) option" where
  "scan_literal s =
     (if starts ''null'' s then Some (''null'', drop 4 s)
      else if starts ''true'' s then Some (''true'', drop 4 s)
      else if starts ''false'' s then Some (''false'', drop 5 s)
      else scan_number s)"

section \<open>Parsing\<close>

text \<open>
  The recursive descent over a text, with fuel: every call spends one unit, a call on a
  value of a text of length \<open>n\<close> needs at most \<open>2 * n + 1\<close>. What a value was read from is the
  text from its first byte up to what is left behind its last.
\<close>

definition consumed :: "bytes \<Rightarrow> bytes \<Rightarrow> bytes" where
  "consumed s r = take (length s - length r) s"

lemma consumed_append [simp]: "consumed (b @ r) r = b"
  by (simp add: consumed_def)

fun parse_value :: "nat \<Rightarrow> bytes \<Rightarrow> (spelled \<times> bytes) option"
and parse_elems :: "nat \<Rightarrow> bytes \<Rightarrow> (spelled list \<times> bytes) option"
and parse_members :: "nat \<Rightarrow> bytes \<Rightarrow> ((bytes \<times> spelled) list \<times> bytes) option" where
  "parse_value 0 s = None"
| "parse_value (Suc n) s = (case skip_ws s of
     [] \<Rightarrow> None
   | c # t \<Rightarrow>
       if c = dquote then map_option (\<lambda>(a, b). (SStr a, b)) (scan_string t)
       else if c = CHR ''['' then (case skip_ws t of
           [] \<Rightarrow> None
         | d # u \<Rightarrow> if d = CHR '']'' then Some (SArr (consumed (c # t) u) [], u)
                    else map_option (\<lambda>(a, b). (SArr (consumed (c # t) b) a, b)) (parse_elems n t))
       else if c = CHR ''{'' then (case skip_ws t of
           [] \<Rightarrow> None
         | d # u \<Rightarrow> if d = CHR ''}'' then Some (SObj (consumed (c # t) u) [], u)
                    else map_option (\<lambda>(a, b). (SObj (consumed (c # t) b) a, b)) (parse_members n t))
       else map_option (\<lambda>(a, b). (SLit a, b)) (scan_literal (c # t)))"
| "parse_elems 0 s = None"
| "parse_elems (Suc n) s = (case parse_value n s of
     None \<Rightarrow> None
   | Some (v, t) \<Rightarrow> (case skip_ws t of
       [] \<Rightarrow> None
     | c # u \<Rightarrow> if c = CHR '','' then map_option (\<lambda>(a, b). (v # a, b)) (parse_elems n u)
                else if c = CHR '']'' then Some ([v], u) else None))"
| "parse_members 0 s = None"
| "parse_members (Suc n) s = (case skip_ws s of
     [] \<Rightarrow> None
   | q # s1 \<Rightarrow> if q \<noteq> dquote then None else (case scan_string s1 of
       None \<Rightarrow> None
     | Some (k, s2) \<Rightarrow> (case skip_ws s2 of
         [] \<Rightarrow> None
       | d # s3 \<Rightarrow> if d \<noteq> CHR '':'' then None else (case parse_value n s3 of
           None \<Rightarrow> None
         | Some (v, t) \<Rightarrow> (case skip_ws t of
             [] \<Rightarrow> None
           | c # u \<Rightarrow> if c = CHR '','' then map_option (\<lambda>(a, b). ((k, v) # a, b)) (parse_members n u)
                      else if c = CHR ''}'' then Some ([(k, v)], u) else None)))))"

text \<open>\<open>json.Unmarshal\<close> nests at most 10000 deep.\<close>

fun depth :: "json \<Rightarrow> nat" where
  "depth (JLit s) = 0"
| "depth (JStr s) = 0"
| "depth (JArr vs) = Suc (fold max (map depth vs) 0)"
| "depth (JObj kvs) = Suc (fold max (map (\<lambda>(k, v). depth v) kvs) 0)"

definition json_spelled :: "bytes \<Rightarrow> spelled option" where
  "json_spelled s = (case parse_value (2 * length s + 1) s of
     None \<Rightarrow> None
   | Some (v, r) \<Rightarrow> if skip_ws r = [] \<and> depth (strip v) \<le> 10000 then Some v else None)"

definition json_parse :: "bytes \<Rightarrow> json option" where
  "json_parse s = map_option strip (json_spelled s)"

section \<open>Parsing what was written\<close>

text \<open>
  A well-formed tree: every raw string is the body of a quoted string, every literal is
  scanned whole before whatever can follow a value.
\<close>

definition delim :: "bytes \<Rightarrow> bool" where
  "delim r \<longleftrightarrow> (case r of [] \<Rightarrow> True | c # _ \<Rightarrow> c \<in> set '',]}'' \<or> is_ws c)"

definition lit_ok :: "bytes \<Rightarrow> bool" where
  "lit_ok s \<longleftrightarrow> (case s of [] \<Rightarrow> False | c # _ \<Rightarrow> \<not> is_ws c \<and> c \<notin> {dquote, CHR ''['', CHR ''{'', CHR '']''})
     \<and> (\<forall>r. delim r \<longrightarrow> scan_literal (s @ r) = Some (s, r))"

fun wf_json :: "json \<Rightarrow> bool" where
  "wf_json (JLit s) = lit_ok s"
| "wf_json (JStr s) = str_body s"
| "wf_json (JArr vs) = (\<forall>v\<in>set vs. wf_json v)"
| "wf_json (JObj kvs) = (\<forall>kv\<in>set kvs. str_body (fst kv) \<and> wf_json (snd kv))"

lemma skip_ws_stop [simp]: "\<not> is_ws c \<Longrightarrow> skip_ws (c # s) = c # s"
  by (simp add: skip_ws_def)

lemma not_ws [simp]:
  "\<not> is_ws dquote" "\<not> is_ws (CHR ''['')" "\<not> is_ws (CHR ''{'')" "\<not> is_ws (CHR '']'')"
  "\<not> is_ws (CHR ''}'')" "\<not> is_ws (CHR '','')" "\<not> is_ws (CHR '':'')"
  by (simp_all add: is_ws_def)

text \<open>The text of a tree starts with a byte that is no white space and no bracket's end.\<close>

lemma render_head:
  assumes "wf_json v"
  obtains c s where "render v = c # s" "\<not> is_ws c" "c \<noteq> CHR '']''"
proof (cases v)
  case (JLit l)
  with assms that show thesis by (auto simp: lit_ok_def split: list.splits)
qed (use that in \<open>auto simp: quoted_def\<close>)

lemma commas_Cons: "commas (x # xs) = x @ (if xs = [] then [] else CHR '','' # commas xs)"
  by (cases xs) auto

definition parses :: "json \<Rightarrow> bool" where
  "parses v \<longleftrightarrow> (\<forall>n r d. delim r \<longrightarrow> 2 * length (render v @ r) < n \<longrightarrow>
     parse_value n (render v @ r) = Some (rendered d v, r))"

lemma parses_value:
  "parses v \<Longrightarrow> delim r \<Longrightarrow> 2 * length (render v @ r) < n \<Longrightarrow> parse_value n (render v @ r) = Some (rendered d v, r)"
  by (simp add: parses_def)

lemma delim_simps [simp]: "delim []" "delim (c # s) \<longleftrightarrow> c \<in> set '',]}'' \<or> is_ws c"
  by (simp_all add: delim_def)

lemma parse_elems_render:
  "\<forall>v\<in>set vs. parses v \<Longrightarrow> vs \<noteq> [] \<Longrightarrow>
   2 * length (commas (map render vs) @ CHR '']'' # r) + 1 < n \<Longrightarrow>
   parse_elems n (commas (map render vs) @ CHR '']'' # r) = Some (map (rendered d) vs, r)"
proof (induction vs arbitrary: n)
  case (Cons v vs)
  from Cons.prems(3) obtain m where m: "n = Suc m" by (cases n) auto
  show ?case
  proof (cases "vs = []")
    case True
    have "parse_value m (render v @ CHR '']'' # r) = Some (rendered d v, CHR '']'' # r)"
      using Cons.prems m True by (intro parses_value) auto
    with True m show ?thesis by simp
  next
    case False
    let ?t = "commas (map render vs) @ CHR '']'' # r"
    have "parse_value m (render v @ CHR '','' # ?t) = Some (rendered d v, CHR '','' # ?t)"
      using Cons.prems m False by (intro parses_value) (auto simp: commas_Cons)
    moreover have "parse_elems m ?t = Some (map (rendered d) vs, r)"
      using Cons.prems m False by (intro Cons.IH) (auto simp: commas_Cons)
    ultimately show ?thesis using m False by (simp add: commas_Cons)
  qed
qed simp

definition member_text :: "bytes \<times> json \<Rightarrow> bytes" where
  "member_text kv = quoted (fst kv) @ CHR '':'' # render (snd kv)"

lemma member_text_pair:
  "member_text (k, v) = dquote # k @ dquote # CHR '':'' # render v"
  by (simp add: member_text_def quoted_def)

lemma render_JObj: "render (JObj kvs) = CHR ''{'' # commas (map member_text kvs) @ ''}''"
proof -
  have "(\<lambda>(k, v). quoted k @ CHR '':'' # render v) = member_text"
    by (simp add: fun_eq_iff member_text_def)
  then show ?thesis by simp
qed

lemma parse_members_render:
  "\<forall>kv\<in>set kvs. str_body (fst kv) \<and> parses (snd kv) \<Longrightarrow> kvs \<noteq> [] \<Longrightarrow>
   2 * length (commas (map member_text kvs) @ CHR ''}'' # r) + 1 < n \<Longrightarrow>
   parse_members n (commas (map member_text kvs) @ CHR ''}'' # r) = Some (map (\<lambda>(k, v). (k, rendered d v)) kvs, r)"
proof (induction kvs arbitrary: n)
  case (Cons kv kvs)
  obtain k v where kv: "kv = (k, v)" by fastforce
  from Cons.prems(3) obtain m where m: "n = Suc m" by (cases n) auto
  have k: "scan_string (k @ dquote # t) = Some (k, t)" for t
    using Cons.prems(1) kv by (simp add: str_body_scan)
  show ?case
  proof (cases "kvs = []")
    case True
    have "parse_value m (render v @ CHR ''}'' # r) = Some (rendered d v, CHR ''}'' # r)"
      using Cons.prems m True kv by (intro parses_value) (auto simp: member_text_pair)
    with True m kv k show ?thesis by (simp add: member_text_pair)
  next
    case False
    let ?t = "commas (map member_text kvs) @ CHR ''}'' # r"
    have "parse_value m (render v @ CHR '','' # ?t) = Some (rendered d v, CHR '','' # ?t)"
      using Cons.prems m False kv
      by (intro parses_value) (auto simp: commas_Cons member_text_pair)
    moreover have "parse_members m ?t = Some (map (\<lambda>(k, v). (k, rendered d v)) kvs, r)"
      using Cons.prems m False kv
      by (intro Cons.IH) (auto simp: commas_Cons member_text_pair)
    ultimately show ?thesis using m False kv k
      by (simp add: commas_Cons member_text_pair)
  qed
qed simp

lemma elems_head:
  "vs \<noteq> [] \<Longrightarrow> \<forall>v\<in>set vs. wf_json v \<Longrightarrow>
   \<exists>c t. commas (map render vs) @ r = c # t \<and> \<not> is_ws c \<and> c \<noteq> CHR '']''"
proof (cases vs)
  case (Cons v vs')
  moreover assume "\<forall>v\<in>set vs. wf_json v"
  ultimately obtain c s where "render v = c # s" "\<not> is_ws c" "c \<noteq> CHR '']''"
    using render_head [of v] by auto
  with Cons show ?thesis by (simp add: commas_Cons)
qed simp

lemma members_head:
  "kvs \<noteq> [] \<Longrightarrow> \<exists>t. commas (map member_text kvs) @ r = dquote # t"
  by (cases kvs) (auto simp: commas_Cons member_text_def quoted_def)

text \<open>An object ends at its brace, whatever follows.\<close>

lemma parse_object_render:
  assumes kvs: "\<forall>kv\<in>set kvs. str_body (fst kv) \<and> parses (snd kv)"
    and n: "2 * length (render (JObj kvs) @ r) < n"
  shows "parse_value n (render (JObj kvs) @ r) = Some (rendered e (JObj kvs), r)"
proof -
  obtain m where m: "n = Suc m" using n by (cases n) auto
  have raw: "consumed (CHR ''{'' # commas (map member_text kvs) @ CHR ''}'' # r) r = render (JObj kvs)"
    using consumed_append [of "render (JObj kvs)" r] by (simp add: render_JObj del: render.simps(4))
  show ?thesis
  proof (cases "kvs = []")
    case False
    then obtain t where ct: "commas (map member_text kvs) @ CHR ''}'' # r = dquote # t"
      using members_head by blast
    have "parse_members m (commas (map member_text kvs) @ CHR ''}'' # r) = Some (map (\<lambda>(k, v). (k, rendered (Suc e) v)) kvs, r)"
      using kvs n m False
      by (intro parse_members_render) (auto simp: render_JObj simp del: render.simps(4))
    with m ct raw show ?thesis by (simp add: render_JObj del: render.simps(4))
  qed (use m raw in simp)
qed

lemma parses_render: "wf_json v \<Longrightarrow> parses v"
proof (induction v)
  case (JLit s)
  show ?case unfolding parses_def
  proof (intro allI impI)
    fix n r d assume r: "delim r" and n: "2 * length (render (JLit s) @ r) < n"
    then obtain m where "n = Suc m" by (cases n) auto
    with JLit r show "parse_value n (render (JLit s) @ r) = Some (rendered d (JLit s), r)"
      by (auto simp: lit_ok_def split: list.splits)
  qed
next
  case (JStr s)
  show ?case unfolding parses_def
  proof (intro allI impI)
    fix n r d assume "2 * length (render (JStr s) @ r) < n"
    then obtain m where "n = Suc m" by (cases n) auto
    with JStr show "parse_value n (render (JStr s) @ r) = Some (rendered d (JStr s), r)"
      by (simp add: quoted_def str_body_scan)
  qed
next
  case (JArr vs)
  show ?case unfolding parses_def
  proof (intro allI impI)
    fix n r d assume n: "2 * length (render (JArr vs) @ r) < n"
    then obtain m where m: "n = Suc m" by (cases n) auto
    have raw: "consumed (CHR ''['' # commas (map render vs) @ CHR '']'' # r) r = render (JArr vs)"
      using consumed_append [of "render (JArr vs)" r] by simp
    show "parse_value n (render (JArr vs) @ r) = Some (rendered d (JArr vs), r)"
    proof (cases "vs = []")
      case False
      then obtain c t where ct: "commas (map render vs) @ CHR '']'' # r = c # t"
        "\<not> is_ws c" "c \<noteq> CHR '']''"
        using elems_head [of vs "CHR '']'' # r"] JArr by auto
      have "parse_elems m (commas (map render vs) @ CHR '']'' # r) = Some (map (rendered (Suc d)) vs, r)"
        using JArr n m False by (intro parse_elems_render) auto
      with m ct raw show ?thesis by simp
    qed (use m raw in simp)
  qed
next
  case (JObj kvs)
  then have "\<forall>kv\<in>set kvs. str_body (fst kv) \<and> parses (snd kv)"
    by (fastforce simp: snds.simps)
  then have "parse_value n (render (JObj kvs) @ r) = Some (rendered d (JObj kvs), r)"
    if "2 * length (render (JObj kvs) @ r) < n" for n r d
    using that by (rule parse_object_render)
  then show ?case unfolding parses_def by blast
qed

theorem spelled_render:
  "wf_json v \<Longrightarrow> depth v \<le> 10000 \<Longrightarrow> json_spelled (render v) = Some (rendered d v)"
  using parses_value [OF parses_render, of v "[]" "2 * length (render v) + 1" d]
  by (simp add: json_spelled_def skip_ws_def)

lemma parse_render [roundtrip]:
  "wf_json v \<Longrightarrow> depth v \<le> 10000 \<Longrightarrow> json_parse (render v) = Some v"
  by (simp add: json_parse_def spelled_render [of v 0])

text \<open>Two objects in a row are no JSON text.\<close>

lemma parse_two_objects:
  assumes "wf_json (JObj kvs)" "\<not> is_ws c"
  shows "json_spelled (render (JObj kvs) @ c # s) = None"
proof -
  have "\<forall>kv\<in>set kvs. str_body (fst kv) \<and> parses (snd kv)"
    using assms(1) parses_render by simp
  then have "parse_value (2 * length (render (JObj kvs) @ c # s) + 1) (render (JObj kvs) @ c # s)
      = Some (rendered 0 (JObj kvs), c # s)"
    by (rule parse_object_render) simp
  with assms(2) show ?thesis
    by (simp add: json_spelled_def del: render.simps parse_value.simps)
qed

section \<open>Raw messages\<close>

text \<open>
  \<open>json.Marshal\<close> writes a \<open>json.RawMessage\<close> through \<open>compact\<close> with HTML
  escaping: the text must be valid JSON, its white space goes, and the bytes of its strings
  that HTML or JavaScript would read are escaped.
\<close>

fun escape_raw :: "bytes \<Rightarrow> bytes" where
  "escape_raw [] = []"
| "escape_raw (c # s) =
     (if c \<in> set ''<>&''
        then bslash # ''u00'' @ [hex_digit (code c div 16), hex_digit (code c mod 16)] @ escape_raw s
      else (case line_separator (take 3 (c # s)) of
              Some e \<Rightarrow> e @ escape_raw (drop 2 s)
            | None \<Rightarrow> c # escape_raw s))"

fun escape_tree :: "json \<Rightarrow> json" where
  "escape_tree (JLit s) = JLit s"
| "escape_tree (JStr s) = JStr (escape_raw s)"
| "escape_tree (JArr vs) = JArr (map escape_tree vs)"
| "escape_tree (JObj kvs) = JObj (map (\<lambda>(k, v). (escape_raw k, escape_tree v)) kvs)"

definition compact :: "bytes \<Rightarrow> json option" where
  "compact s = map_option escape_tree (json_parse s)"

text \<open>A tree whose strings need no more escaping: \<open>compact\<close> reads it back as it is.\<close>

fun html_safe :: "json \<Rightarrow> bool" where
  "html_safe (JLit s) = True"
| "html_safe (JStr s) = (escape_raw s = s)"
| "html_safe (JArr vs) = (\<forall>v\<in>set vs. html_safe v)"
| "html_safe (JObj kvs) = (\<forall>kv\<in>set kvs. escape_raw (fst kv) = fst kv \<and> html_safe (snd kv))"

lemma escape_tree_safe: "html_safe v \<Longrightarrow> escape_tree v = v"
proof (induction v)
  case (JObj kvs)
  then have "\<forall>kv\<in>set kvs. (case kv of (k, v) \<Rightarrow> (escape_raw k, escape_tree v)) = kv"
    by (fastforce simp: snds.simps)
  then have "map (\<lambda>(k, v). (escape_raw k, escape_tree v)) kvs = kvs"
    by (simp add: map_idI)
  then show ?case by simp
qed (simp_all add: map_idI)

lemma compact_render [roundtrip]:
  "wf_json v \<Longrightarrow> depth v \<le> 10000 \<Longrightarrow> html_safe v \<Longrightarrow> compact (render v) = Some v"
  by (simp add: compact_def parse_render escape_tree_safe)

text \<open>A string that was escaped when written needs no more escaping as raw text.\<close>

lemma hex_digit_plain: "n < 16 \<Longrightarrow> hex_digit n \<in> set ''0123456789abcdef''"
  by (simp add: hex_digit_def nth_mem del: list.set)

lemma line_separator_head [simp]: "c \<noteq> byte 0xE2 \<Longrightarrow> line_separator (c # s) = None"
  by (simp add: line_separator_def)

definition raw_plain :: "char \<Rightarrow> bool" where
  "raw_plain x \<longleftrightarrow> code x \<noteq> 0xE2 \<and> x \<notin> set ''<>&''"

lemma escape_raw_plains:
  "\<forall>x\<in>set b. raw_plain x \<Longrightarrow> escape_raw (b @ t) = b @ escape_raw t"
proof (induction b)
  case (Cons x b)
  then have "code x \<noteq> 0xE2" and "x \<notin> set ''<>&''" unfolding raw_plain_def by simp_all
  moreover have "code (byte 0xE2) = 0xE2" by simp
  ultimately have "x \<noteq> byte 0xE2" "x \<notin> set ''<>&''" by metis+
  with Cons show ?case by simp
qed simp

lemma raw_plain_ascii: "code x < 0x80 \<Longrightarrow> x \<notin> set ''<>&'' \<Longrightarrow> raw_plain x"
  by (auto simp: raw_plain_def)

lemma raw_plain_high: "0x80 \<le> code x \<Longrightarrow> code x \<noteq> 0xE2 \<Longrightarrow> raw_plain x"
  by (auto simp: raw_plain_def code_def)

lemma raw_plain_hex: "n < 16 \<Longrightarrow> raw_plain (hex_digit n)"
  by (drule hex_digit_plain) (auto simp: raw_plain_def code_def)

lemma raw_plain_escape_ascii:
  assumes "code c < 0x80"
  shows "\<forall>x\<in>set (escape_ascii c). raw_plain x"
proof (cases rule: escape_ascii_cases [of c])
  case plain
  then have "c \<notin> set ''<>&''" by (auto simp: escape_ascii_def)
  with plain assms show ?thesis by (simp add: raw_plain_ascii)
next
  case (simple e)
  then show ?thesis by (auto simp: raw_plain_def code_def)
next
  case hex
  have "raw_plain (hex_digit (code c div 16))" "raw_plain (hex_digit (code c mod 16))"
    using raw_plain_hex assms by auto
  with hex show ?thesis by (auto simp: raw_plain_def code_def)
qed

lemma rune_conts:
  "rune2 a b \<Longrightarrow> cont b"
  "rune3 a b c \<Longrightarrow> cont b \<and> cont c"
  "rune4 a b c d \<Longrightarrow> cont b \<and> cont c \<and> cont d"
  by (simp_all add: rune2_def rune3_def rune4_def)

lemma rune_len_tail:
  "x \<in> set (take (rune_len (a # s) - 1) s) \<Longrightarrow> cont x"
  by (cases "a # s" rule: rune_len.cases)
    (auto simp: rune_len.simps numeral_nat dest: rune_conts split: if_split_asm)

lemma rune_len_E2: "rune_len (byte 0xE2 # s) \<noteq> 0 \<Longrightarrow> rune_len (byte 0xE2 # s) = 3"
  by (cases "byte 0xE2 # s" rule: rune_len.cases)
    (auto simp: rune_len.simps rune2_def rune4_def split: if_split_asm)

lemma escape_raw_rune:
  assumes "\<not> code c < 0x80" "rune_len (c # s) \<noteq> 0"
    "line_separator (take (rune_len (c # s)) (c # s)) = None"
  shows "escape_raw (take (rune_len (c # s)) (c # s) @ t) = take (rune_len (c # s)) (c # s) @ escape_raw t"
proof -
  obtain k where k: "rune_len (c # s) = Suc k" using assms(2) by (cases "rune_len (c # s)") auto
  have "raw_plain x" if "x \<in> set (take k s)" for x
    using rune_len_tail [of x c s] that k by (simp add: cont_def raw_plain_high)
  then have tail: "escape_raw (take k s @ t) = take k s @ escape_raw t"
    by (intro escape_raw_plains) auto
  have "line_separator (take 3 (c # take k s @ t)) = None"
  proof (cases "c = byte 0xE2")
    case True
    then have "k = 2" using rune_len_E2 [of s] assms(2) k by simp
    moreover have "length (take k s) = k" using rune_len_le [of "c # s"] k by simp
    ultimately have "take 3 (c # take k s @ t) = take (rune_len (c # s)) (c # s)" using k by simp
    with assms(3) show ?thesis by simp
  qed simp
  moreover have "c \<notin> set ''<>&''" using assms(1) by (auto simp: code_def)
  ultimately show ?thesis using k tail by simp
qed

lemma escape_raw_line_separator: "line_separator r = Some e \<Longrightarrow> escape_raw (e @ t) = e @ escape_raw t"
  by (rule escape_raw_plains) (auto simp: line_separator_def raw_plain_def code_def split: if_splits)

lemma escape_raw_escape [simp]: "escape_raw (json_escape s) = json_escape s"
proof (induction s rule: json_escape.induct)
  case (2 c s)
  consider (ascii) "code c < 0x80" | (bad) "\<not> code c < 0x80" "rune_len (c # s) = 0"
    | (rune) "\<not> code c < 0x80" "rune_len (c # s) \<noteq> 0" by blast
  then show ?case
  proof cases
    case ascii
    then have "escape_raw (escape_ascii c @ json_escape s) = escape_ascii c @ escape_raw (json_escape s)"
      by (intro escape_raw_plains raw_plain_escape_ascii)
    with 2 ascii show ?thesis by simp
  next
    case bad
    have "escape_raw ((bslash # ''ufffd'') @ json_escape s) = (bslash # ''ufffd'') @ escape_raw (json_escape s)"
      by (rule escape_raw_plains) (auto simp: raw_plain_def code_def)
    with 2 bad show ?thesis by simp
  next
    case rune
    then have IH: "escape_raw (json_escape (drop (rune_len (c # s) - 1) s))
        = json_escape (drop (rune_len (c # s) - 1) s)"
      by (rule "2.IH"(3))
    show ?thesis
    proof (cases "line_separator (take (rune_len (c # s)) (c # s))")
      case None
      with rune IH escape_raw_rune [OF rune None] show ?thesis
        by (simp del: take_Cons escape_raw.simps)
    next
      case (Some e)
      with rune IH escape_raw_line_separator [OF Some] show ?thesis
        by (simp del: take_Cons escape_raw.simps)
    qed
  qed
qed simp

text \<open>Integers as \<open>json.Marshal\<close> writes them.\<close>

lemma dec_digits_are_digits: "c \<in> set (dec_digits n) \<Longrightarrow> is_digit c"
proof (induction n rule: dec_digits.induct)
  case (1 n)
  have "is_digit (hex_digit d)" if "d < 10" for d
    using hex_val_digit [of d] that by (auto simp: is_digit_def hex_val_def split: if_splits)
  with 1 show ?case by (subst (asm) (2) dec_digits.simps) (auto split: if_splits)
qed

lemma dec_digits_Cons: "\<exists>c s. dec_digits n = c # s \<and> (c = CHR ''0'' \<longrightarrow> n = 0 \<and> s = [])"
proof (induction n rule: dec_digits.induct)
  case (1 n)
  show ?case
  proof (cases "n < 10")
    case True
    then have "hex_digit n = CHR ''0'' \<longrightarrow> n = 0"
      using hex_digit_inject [of n 0] by (simp add: hex_digit_def)
    with True show ?thesis by (simp add: dec_digits.simps [of n])
  next
    case False
    with 1 obtain c s where "dec_digits (n div 10) = c # s" "c = CHR ''0'' \<longrightarrow> n div 10 = 0" by blast
    moreover have "n div 10 \<noteq> 0" using False by auto
    ultimately show ?thesis using False by (auto simp: dec_digits.simps [of n])
  qed
qed

lemma delim_stops:
  assumes "delim r"
  shows "takeWhile is_digit r = []" "dropWhile is_digit r = r" "scan_frac r = Some ([], r)"
    "scan_exp r = Some ([], r)"
proof -
  have "r = [] \<or> (\<exists>c t. r = c # t \<and> (c \<in> set '',]}'' \<or> is_ws c))"
    using assms by (cases r) auto
  then show "takeWhile is_digit r = []" "dropWhile is_digit r = r" "scan_frac r = Some ([], r)"
    "scan_exp r = Some ([], r)"
    by (auto simp: is_digit_def is_ws_def code_def scan_frac_def scan_exp_def)
qed

lemma lit_ok_dec [simp]: "lit_ok (dec_digits n)"
proof -
  obtain c s where cs: "dec_digits n = c # s" and z: "c = CHR ''0'' \<longrightarrow> s = []"
    using dec_digits_Cons by blast
  have dig: "\<forall>x\<in>set (c # s). is_digit x" using dec_digits_are_digits [of _ n] cs by auto
  then have c: "is_digit c" by simp
  then have head: "\<not> is_ws c" "c \<notin> {dquote, CHR ''['', CHR ''{'', CHR '']''}"
    "c \<noteq> CHR ''-''" "c \<noteq> CHR ''n''" "c \<noteq> CHR ''t''" "c \<noteq> CHR ''f''"
    by (auto simp: is_digit_def is_ws_def code_def)
  have "scan_literal ((c # s) @ r) = Some (c # s, r)" if "delim r" for r
  proof -
    note stop = delim_stops [OF that]
    have tw: "takeWhile is_digit ((c # s) @ r) = c # s" "dropWhile is_digit ((c # s) @ r) = r"
      using dig stop by (auto simp: takeWhile_append2 dropWhile_append2)
    have "scan_int ((c # s) @ r) = Some (c # s, r)"
      using z tw by (auto simp: scan_int_def scan_digits_def)
    with stop head show ?thesis
      by (simp add: scan_literal_def starts_def scan_number_def Let_def)
  qed
  with cs head show ?thesis by (simp add: lit_ok_def)
qed

end
