(* ===== verification/Go_Time.thy ===== *)
theory Go_Time
  imports Go_Text "HOL-Library.Monad_Syntax"
begin

text \<open>
  What the code uses of Go's \<open>time\<close> package: instants with the offset of their zone,
  the saturating difference of two instants, the calendar, the RFC 3339 text that JSON
  carries and the compact stamps that name archives and bundles. A time whose offset is a
  whole number of minutes is read back from its RFC 3339 text as it was
  (\<open>parse_format_time\<close>).
\<close>

section \<open>Instants and durations\<close>

text \<open>
  An instant counts nanoseconds from the zero time, 1 January of year 1, UTC; the offset
  counts seconds east of UTC. A duration is a count of nanoseconds in an \<open>int64\<close>.
\<close>

datatype gotime = Time (inst: int) (offset: int)

definition zero_time :: gotime where
  "zero_time = Time 0 0"

definition is_zero :: "gotime \<Rightarrow> bool" where
  "is_zero t \<longleftrightarrow> inst t = 0"

definition utc :: "gotime \<Rightarrow> gotime" where
  "utc t = Time (inst t) 0"

definition after :: "gotime \<Rightarrow> gotime \<Rightarrow> bool" where
  "after t u \<longleftrightarrow> inst u < inst t"

definition max_duration :: int where "max_duration = 2 ^ 63 - 1"
definition min_duration :: int where "min_duration = - (2 ^ 63)"

text \<open>\<open>Time.Sub\<close> saturates at the bounds of a duration.\<close>

definition time_sub :: "gotime \<Rightarrow> gotime \<Rightarrow> int" where
  "time_sub t u = max min_duration (min max_duration (inst t - inst u))"

abbreviation nanosecond :: int where "nanosecond \<equiv> 1"
abbreviation second :: int where "second \<equiv> 1000000000"
abbreviation minute :: int where "minute \<equiv> 60 * second"
abbreviation hour :: int where "hour \<equiv> 3600 * second"

section \<open>The calendar\<close>

definition leap :: "int \<Rightarrow> bool" where
  "leap y \<longleftrightarrow> y mod 4 = 0 \<and> (y mod 100 \<noteq> 0 \<or> y mod 400 = 0)"

text \<open>Year and day of the year (from 0) of a day counted from 1 January of year 1.\<close>

definition year_day :: "int \<Rightarrow> int \<times> int" where
  "year_day n =
     (let r = n mod 146097; c = min (r div 36524) 3; r1 = r - 36524 * c;
          q = r1 div 1461; r2 = r1 mod 1461; k = min (r2 div 365) 3
      in (400 * (n div 146097) + 100 * c + 4 * q + k + 1, r2 - 365 * k))"

definition days_before_year :: "int \<Rightarrow> int" where
  "days_before_year y = 365 * (y - 1) + (y - 1) div 4 - (y - 1) div 100 + (y - 1) div 400"

definition month_lengths :: "int \<Rightarrow> int list" where
  "month_lengths y = [31, if leap y then 29 else 28, 31, 30, 31, 30, 31, 31, 30, 31, 30, 31]"

text \<open>Index of the month (from 0) and day of the month (from 0) of a day of the year.\<close>

fun month_day :: "int list \<Rightarrow> int \<Rightarrow> nat \<times> int" where
  "month_day [] d = (0, d)"
| "month_day (l # ls) d =
     (if d < l then (0, d) else (let (m, e) = month_day ls (d - l) in (Suc m, e)))"

definition days_of :: "int \<Rightarrow> int \<Rightarrow> int \<Rightarrow> int" where
  "days_of y m d = days_before_year y + sum_list (take (nat (m - 1)) (month_lengths y)) + (d - 1)"

lemma div_eq: "n = b * q + r \<Longrightarrow> 0 \<le> r \<Longrightarrow> r < b \<Longrightarrow> n div b = q" for n :: int
  by simp

lemma mod_eq: "n = b * q + r \<Longrightarrow> 0 \<le> r \<Longrightarrow> r < b \<Longrightarrow> n mod b = r" for n :: int
  by simp

lemma sixty_split: "x div 3600 * 3600 + x div 60 mod 60 * 60 + x mod 60 = x" for x :: int
proof -
  have "x div 3600 = x div 60 div 60" using zdiv_zmult2_eq [of 60 x 60] by simp
  moreover have "x div 60 = x div 60 div 60 * 60 + x div 60 mod 60" by simp
  moreover have "x = x div 60 * 60 + x mod 60" by simp
  ultimately show ?thesis by linarith
qed

lemma year_day_bounds:
  assumes "year_day n = (y, d)"
  shows "0 \<le> d \<and> d \<le> (if leap y then 365 else 364) \<and> days_before_year y + d = n"
proof -
  define a r c where "a = n div 146097" and "r = n mod 146097" and "c = min (r div 36524) 3"
  define r1 where "r1 = r - 36524 * c"
  define q r2 where "q = r1 div 1461" and "r2 = r1 mod 1461"
  define k where "k = min (r2 div 365) 3"
  have eq: "year_day n = (400 * a + 100 * c + 4 * q + k + 1, r2 - 365 * k)"
    unfolding year_day_def Let_def a_def r_def c_def r1_def q_def r2_def k_def by (rule refl)
  have n: "n = 146097 * a + r" "0 \<le> r" "r < 146097" by (simp_all add: a_def r_def)
  have c: "0 \<le> c" "c \<le> 3" "0 \<le> r1" "c < 3 \<longrightarrow> r1 < 36524" "r1 \<le> 36524"
    using n unfolding r1_def c_def by auto
  have q: "r1 = 1461 * q + r2" "0 \<le> r2" "r2 < 1461" by (simp_all add: q_def r2_def)
  then have q24: "0 \<le> q" "q \<le> 24" "q = 24 \<longrightarrow> r2 \<le> 1460" "c < 3 \<longrightarrow> q = 24 \<longrightarrow> r2 < 1460"
    using c by auto
  have k: "0 \<le> k" "k \<le> 3" "0 \<le> r2 - 365 * k" "k < 3 \<longrightarrow> r2 - 365 * k < 365" "r2 - 365 * k \<le> 365"
    using q unfolding k_def by auto
  have y: "y = 400 * a + 100 * c + 4 * q + k + 1" and d: "d = r2 - 365 * k"
    using assms eq by simp_all
  have "(y - 1) div 4 = 100 * a + 25 * c + q"
    by (rule div_eq [of _ _ _ k]) (use y k in auto)
  moreover have "(y - 1) div 100 = 4 * a + c"
    by (rule div_eq [of _ _ _ "4 * q + k"]) (use y k q24 in auto)
  moreover have "(y - 1) div 400 = a"
    by (rule div_eq [of _ _ _ "100 * c + 4 * q + k"]) (use y k q24 c in auto)
  ultimately have "days_before_year y + d = n"
    using n q k by (simp add: days_before_year_def y d r1_def)
  moreover have "d \<le> (if leap y then 365 else 364)"
  proof (cases "d = 365")
    case True
    with k d have "k = 3" by auto
    moreover have "q \<noteq> 24 \<or> c = 3"
    proof (rule ccontr)
      assume "\<not> (q \<noteq> 24 \<or> c = 3)"
      then have "r2 < 1460" using q24 c by auto
      with True d \<open>k = 3\<close> show False by auto
    qed
    ultimately have q_last: "y = 4 * (100 * a + 25 * c + q + 1)" "q \<noteq> 24 \<or> c = 3"
      using y by auto
    have "y mod 100 = 4 * q + 4 \<or> q = 24"
      using mod_eq [of y 100 "4 * a + c" "4 * q + 4"] q_last(1) q24 by auto
    moreover have "q = 24 \<longrightarrow> y = 400 * (a + 1)" using q_last by auto
    ultimately have "leap y" using q_last(1) q24 by (auto simp: leap_def)
    with True show ?thesis by simp
  next
    case False
    with k d show ?thesis by auto
  qed
  ultimately show ?thesis using k d by simp
qed

lemma month_day_bounds:
  "0 \<le> d \<Longrightarrow> d < sum_list ls \<Longrightarrow> month_day ls d = (m, e) \<Longrightarrow>
   m < length ls \<and> 0 \<le> e \<and> e < ls ! m \<and> sum_list (take m ls) + e = d"
proof (induction ls arbitrary: d m)
  case (Cons l ls)
  show ?case
  proof (cases "d < l")
    case False
    obtain m' where m': "month_day ls (d - l) = (m', e)" and m: "m = Suc m'"
      using Cons.prems(3) False by (auto simp: Let_def split: prod.splits)
    with Cons.IH [OF _ _ m'] Cons.prems False show ?thesis by auto
  qed (use Cons.prems in auto)
qed simp

section \<open>Text\<close>

text \<open>The date and time of day that a clock at the time's offset shows.\<close>

record civil =
  cyear :: int
  cmonth :: int
  cday :: int
  chour :: int
  cmin :: int
  csec :: int
  cnano :: int

definition civil_of :: "gotime \<Rightarrow> civil" where
  "civil_of t =
     (let ls = inst t div second + offset t; n = ls div 86400; s = ls mod 86400;
          (y, yd) = year_day n; (m, d) = month_day (month_lengths y) yd
      in \<lparr>cyear = y, cmonth = int m + 1, cday = d + 1, chour = s div 3600,
          cmin = s div 60 mod 60, csec = s mod 60, cnano = inst t mod second\<rparr>)"

text \<open>The last \<open>w\<close> decimal digits.\<close>

fun pad :: "nat \<Rightarrow> nat \<Rightarrow> string" where
  "pad 0 n = []"
| "pad (Suc w) n = pad w (n div 10) @ [hex_digit (n mod 10)]"

abbreviation padi :: "nat \<Rightarrow> int \<Rightarrow> string" where
  "padi w i \<equiv> pad w (nat i)"

text \<open>The fraction of a second without its trailing zeros, nothing at all when it is zero.\<close>

definition format_nanos :: "int \<Rightarrow> string" where
  "format_nanos ns = (if ns = 0 then [] else
     CHR ''.'' # rev (dropWhile (\<lambda>c. c = CHR ''0'') (rev (padi 9 ns))))"

definition format_zone :: "int \<Rightarrow> string" where
  "format_zone off =
     (if off = 0 then ''Z''
      else (if off \<le> - 60 then CHR ''-'' else CHR ''+'') # padi 2 (\<bar>off\<bar> div 3600)
             @ CHR '':'' # padi 2 (\<bar>off\<bar> div 60 mod 60))"

text \<open>
  \<open>Time.MarshalJSON\<close>: RFC 3339 with nanoseconds, an error for a year that does not
  have four digits or a zone of 24 hours or more.
\<close>

definition format_time :: "gotime \<Rightarrow> string option" where
  "format_time t =
     (let c = civil_of t in
      if 0 \<le> cyear c \<and> cyear c \<le> 9999 \<and> \<bar>offset t\<bar> < 86400
      then Some (padi 4 (cyear c) @ CHR ''-'' # padi 2 (cmonth c) @ CHR ''-'' # padi 2 (cday c)
             @ CHR ''T'' # padi 2 (chour c) @ CHR '':'' # padi 2 (cmin c) @ CHR '':'' # padi 2 (csec c)
             @ format_nanos (cnano c) @ format_zone (offset t))
      else None)"

text \<open>
  The stamps of file names, \<open>now.UTC().Format("20060102-150405Z")\<close> and the like (for the
  years of four digits).
\<close>

definition stamp :: "gotime \<Rightarrow> string" where
  "stamp t =
     (let c = civil_of t in
      padi 4 (cyear c) @ padi 2 (cmonth c) @ padi 2 (cday c) @ CHR ''-''
        # padi 2 (chour c) @ padi 2 (cmin c) @ padi 2 (csec c))"

section \<open>Reading RFC 3339\<close>

definition digit_val :: "char \<Rightarrow> nat option" where
  "digit_val c = (if 48 \<le> code c \<and> code c \<le> 57 then Some (code c - 48) else None)"

fun num_val :: "nat \<Rightarrow> string \<Rightarrow> nat option" where
  "num_val acc [] = Some acc"
| "num_val acc (c # s) = (case digit_val c of None \<Rightarrow> None | Some d \<Rightarrow> num_val (10 * acc + d) s)"

text \<open>A number of exactly \<open>w\<close> digits, a given byte, the hour of one or two digits.\<close>

definition get_num :: "nat \<Rightarrow> string \<Rightarrow> (int \<times> string) option" where
  "get_num w s = (if length s < w then None
     else map_option (\<lambda>n. (int n, drop w s)) (num_val 0 (take w s)))"

definition get_lit :: "char \<Rightarrow> string \<Rightarrow> string option" where
  "get_lit c s = (case s of [] \<Rightarrow> None | d # t \<Rightarrow> if d = c then Some t else None)"

definition get_hour :: "string \<Rightarrow> (int \<times> string) option" where
  "get_hour s = (case get_num 2 s of Some r \<Rightarrow> Some r | None \<Rightarrow> get_num 1 s)"

definition is_num :: "char \<Rightarrow> bool" where
  "is_num c \<longleftrightarrow> digit_val c \<noteq> None"

text \<open>Nanoseconds of a fraction: its first nine digits, filled up with zeros.\<close>

definition frac_val :: "string \<Rightarrow> nat option" where
  "frac_val ds = num_val 0 (take 9 (ds @ replicate 9 (CHR ''0'')))"

definition get_nanos :: "string \<Rightarrow> (int \<times> string)" where
  "get_nanos s = (case s of
     [] \<Rightarrow> (0, s)
   | c # t \<Rightarrow>
       if (c = CHR ''.'' \<or> c = CHR '','') \<and> takeWhile is_num t \<noteq> [] then
         (case frac_val (takeWhile is_num t) of
            Some n \<Rightarrow> (int n, dropWhile is_num t)
          | None \<Rightarrow> (0, s))
       else (0, s))"

definition get_zone :: "string \<Rightarrow> int option" where
  "get_zone s =
     (if s = ''Z'' then Some 0
      else (case s of
        [] \<Rightarrow> None
      | sg # r \<Rightarrow>
          if sg = CHR ''+'' \<or> sg = CHR ''-'' then
            do { (h, r1) \<leftarrow> get_num 2 r; r2 \<leftarrow> get_lit (CHR '':'') r1; (m, r3) \<leftarrow> get_num 2 r2;
                 if r3 = [] \<and> h \<le> 24 \<and> m \<le> 60
                 then Some ((if sg = CHR ''-'' then - 1 else 1) * (h * 3600 + m * 60))
                 else None }
          else None))"

text \<open>\<open>time.Parse(time.RFC3339, s)\<close>, to which \<open>Time.UnmarshalJSON\<close> comes down.\<close>

definition parse_time :: "string \<Rightarrow> gotime option" where
  "parse_time s =
     do { (y, s1) \<leftarrow> get_num 4 s; s2 \<leftarrow> get_lit (CHR ''-'') s1;
          (mo, s3) \<leftarrow> get_num 2 s2; s4 \<leftarrow> get_lit (CHR ''-'') s3;
          (d, s5) \<leftarrow> get_num 2 s4; s6 \<leftarrow> get_lit (CHR ''T'') s5;
          (h, s7) \<leftarrow> get_hour s6; s8 \<leftarrow> get_lit (CHR '':'') s7;
          (mi, s9) \<leftarrow> get_num 2 s8; s10 \<leftarrow> get_lit (CHR '':'') s9;
          (se, s11) \<leftarrow> get_num 2 s10;
          let (ns, s12) = get_nanos s11;
          off \<leftarrow> get_zone s12;
          if 1 \<le> mo \<and> mo \<le> 12 \<and> 1 \<le> d \<and> d \<le> month_lengths y ! nat (mo - 1)
             \<and> h < 24 \<and> mi < 60 \<and> se < 60
          then Some (Time ((days_of y mo d * 86400 + h * 3600 + mi * 60 + se - off) * second + ns) off)
          else None }"

section \<open>Reading back what was written\<close>

lemma digit_val_digit [simp]:
  assumes "n < 10"
  shows "digit_val (hex_digit n) = Some n"
proof -
  have "n < 10 \<longrightarrow> digit_val (hex_digit n) = Some n"
    by (rule less_16_cases [of n]) (use assms in \<open>simp_all add: digit_val_def hex_digit_def code_def\<close>)
  with assms show ?thesis by simp
qed

lemma length_pad [simp]: "length (pad w n) = w"
  by (induction w arbitrary: n) auto

lemma num_val_append: "num_val acc (s @ t) = (case num_val acc s of None \<Rightarrow> None | Some a \<Rightarrow> num_val a t)"
  by (induction s arbitrary: acc) (auto split: option.splits)

lemma num_val_pad [simp]: "num_val acc (pad w n) = Some (acc * 10 ^ w + n mod 10 ^ w)"
proof (induction w arbitrary: n)
  case (Suc w)
  have "n mod (10 * 10 ^ w) = 10 * (n div 10 mod 10 ^ w) + n mod 10"
    by (metis mod_mult2_eq add.commute)
  with Suc show ?case by (simp add: num_val_append)
qed simp

lemma get_num_pad [simp]: "get_num w (pad w n @ s) = Some (int (n mod 10 ^ w), s)"
  by (simp add: get_num_def)

lemma get_hour_pad [simp]: "get_hour (pad 2 n @ s) = Some (int (n mod 100), s)"
  by (simp add: get_hour_def)

lemma get_lit_hit [simp]: "get_lit c (c # s) = Some s"
  by (simp add: get_lit_def)

lemma pad_digits: "c \<in> set (pad w n) \<Longrightarrow> \<exists>d<10. c = hex_digit d"
  by (induction w arbitrary: n) (auto intro: exI [of _ "n mod 10" for n])

lemma pad_is_num: "c \<in> set (pad w n) \<Longrightarrow> is_num c"
  using pad_digits by (fastforce simp: is_num_def)

lemma format_zone_head: "\<exists>c s. format_zone off = c # s \<and> c \<in> set ''Z+-''"
  by (simp add: format_zone_def)

lemma trim_zeros:
  "\<exists>k. xs = rev (dropWhile (\<lambda>c. c = z) (rev xs)) @ replicate k z"
proof -
  have "rev xs = takeWhile (\<lambda>c. c = z) (rev xs) @ dropWhile (\<lambda>c. c = z) (rev xs)" by simp
  then have "xs = rev (dropWhile (\<lambda>c. c = z) (rev xs)) @ rev (takeWhile (\<lambda>c. c = z) (rev xs))"
    by (metis rev_append rev_rev_ident)
  moreover have "takeWhile (\<lambda>c. c = z) ys = replicate (length (takeWhile (\<lambda>c. c = z) ys)) z" for ys
    by (induction ys) auto
  ultimately show ?thesis by (metis rev_replicate)
qed

lemma get_nanos_format:
  assumes "0 \<le> ns" "ns < second"
  shows "get_nanos (format_nanos ns @ format_zone off) = (ns, format_zone off)"
proof (cases "ns = 0")
  case True
  obtain c s where "format_zone off = c # s" "c \<in> set ''Z+-''" using format_zone_head by blast
  with True show ?thesis by (auto simp: get_nanos_def format_nanos_def split: list.split)
next
  case False
  let ?ds = "padi 9 ns"
  define t where "t = rev (dropWhile (\<lambda>c. c = CHR ''0'') (rev ?ds))"
  obtain k where k: "?ds = t @ replicate k (CHR ''0'')"
    using trim_zeros [of ?ds "CHR ''0''"] unfolding t_def by blast
  have "length t + k = 9" using arg_cong [OF k, of length] by simp
  then have len: "length t \<le> 9" "k = 9 - length t" by simp_all
  obtain z r where z: "format_zone off = z # r" "z \<in> set ''Z+-''" using format_zone_head by blast
  then have stop: "\<not> is_num z" by (auto simp: is_num_def digit_val_def code_def)
  have digs: "\<forall>c\<in>set t. is_num c"
  proof
    fix c assume "c \<in> set t"
    then have "c \<in> set ?ds" by (subst k) simp
    then show "is_num c" by (rule pad_is_num)
  qed
  have val: "num_val 0 ?ds = Some (nat ns)" using assms by (simp add: nat_less_iff)
  moreover have "num_val 0 (replicate 9 (CHR ''0'')) = Some 0"
    by (simp add: numeral_nat digit_val_def code_def)
  ultimately have "?ds \<noteq> replicate 9 (CHR ''0'')" using False assms by force
  with k len have "t \<noteq> []" by auto
  moreover have "frac_val t = Some (nat ns)"
    using k len val by (simp add: frac_val_def min_def)
  moreover have "takeWhile is_num (t @ format_zone off) = t"
    "dropWhile is_num (t @ format_zone off) = format_zone off"
    using takeWhile_append_stop [OF digs, of "format_zone off"] z stop by auto
  ultimately show ?thesis using assms False
    by (simp add: get_nanos_def format_nanos_def flip: t_def)
qed

lemma get_zone_parts:
  assumes "h < 24" "m < 60" "sg = CHR ''+'' \<or> sg = CHR ''-''"
  shows "get_zone (sg # pad 2 h @ CHR '':'' # pad 2 m) =
    Some ((if sg = CHR ''-'' then - 1 else 1) * (int h * 3600 + int m * 60))"
proof -
  have "get_num 2 (pad 2 m) = Some (int m, [])"
    using get_num_pad [of 2 m "[]"] assms by simp
  with assms show ?thesis by (auto simp: get_zone_def)
qed

lemma get_zone_format:
  assumes "\<bar>off\<bar> < 86400" "60 dvd off"
  shows "get_zone (format_zone off) = Some off"
proof (cases "off = 0")
  case False
  define h m where "h = nat (\<bar>off\<bar> div 3600)" and "m = nat (\<bar>off\<bar> div 60 mod 60)"
  have b: "h < 24" "m < 60" using assms(1) by (auto simp: h_def m_def)
  have "\<bar>off\<bar> mod 60 = 0" using assms(2) by auto
  then have "\<bar>off\<bar> = int h * 3600 + int m * 60"
    using sixty_split [of "\<bar>off\<bar>"] by (simp add: h_def m_def pos_imp_zdiv_nonneg_iff)
  then have sum: "(if off < 0 then - 1 else 1) * (int h * 3600 + int m * 60) = off"
    by (cases "off < 0") auto
  have sg: "off \<le> - 60 \<longleftrightarrow> off < 0" using False assms(2) by presburger
  have fmt: "format_zone off =
      (if off < 0 then CHR ''-'' else CHR ''+'') # pad 2 h @ CHR '':'' # pad 2 m"
    using False by (simp add: format_zone_def sg h_def m_def)
  have "get_zone (format_zone off) = Some ((if off < 0 then - 1 else 1) * (int h * 3600 + int m * 60))"
    unfolding fmt by (subst get_zone_parts [OF b]) auto
  then show ?thesis by (simp only: sum)
qed (simp add: get_zone_def format_zone_def)

text \<open>The clock's digits name the day and the second they were taken from.\<close>

lemma civil_of_facts:
  assumes c: "c = civil_of t"
  shows "1 \<le> cmonth c" "cmonth c \<le> 12" "1 \<le> cday c"
    "cday c \<le> month_lengths (cyear c) ! nat (cmonth c - 1)"
    "0 \<le> chour c" "chour c < 24" "0 \<le> cmin c" "cmin c < 60" "0 \<le> csec c" "csec c < 60"
    "0 \<le> cnano c" "cnano c < second" "cday c \<le> 31"
    "(days_of (cyear c) (cmonth c) (cday c) * 86400 + chour c * 3600 + cmin c * 60 + csec c
        - offset t) * second + cnano c = inst t"
proof -
  define ls where "ls = inst t div second + offset t"
  define n s where "n = ls div 86400" and "s = ls mod 86400"
  obtain y yd where yd: "year_day n = (y, yd)" by fastforce
  obtain m d where md: "month_day (month_lengths y) yd = (m, d)" by fastforce
  have ceq: "c = \<lparr>cyear = y, cmonth = int m + 1, cday = d + 1, chour = s div 3600,
      cmin = s div 60 mod 60, csec = s mod 60, cnano = inst t mod second\<rparr>"
    using yd md unfolding c civil_of_def Let_def ls_def n_def s_def by simp
  note yb = year_day_bounds [OF yd]
  have "yd < sum_list (month_lengths y)" using yb by (auto simp: month_lengths_def)
  then have mb: "m < 12" "0 \<le> d" "d < month_lengths y ! m"
    "sum_list (take m (month_lengths y)) + d = yd"
    using month_day_bounds [of yd "month_lengths y" m d] yb md by (auto simp: month_lengths_def)
  have len31: "l \<in> set (month_lengths y) \<Longrightarrow> l \<le> 31" for l
    by (auto simp: month_lengths_def split: if_splits)
  have s: "0 \<le> s" "s < 86400" unfolding s_def by auto
  have day: "days_of y (int m + 1) (d + 1) = n" using yb mb by (simp add: days_of_def)
  show "1 \<le> cmonth c" "cmonth c \<le> 12" "1 \<le> cday c"
    "cday c \<le> month_lengths (cyear c) ! nat (cmonth c - 1)"
    "0 \<le> chour c" "chour c < 24" "0 \<le> cmin c" "cmin c < 60" "0 \<le> csec c" "csec c < 60"
    "0 \<le> cnano c" "cnano c < second"
    using mb s by (simp_all add: ceq)
  have "length (month_lengths y) = 12" by (simp add: month_lengths_def)
  then have "month_lengths y ! m \<le> 31" using mb by (simp add: len31)
  then show "cday c \<le> 31" using mb by (simp add: ceq)
  have "n * 86400 + s - offset t = inst t div second" by (simp add: n_def s_def ls_def)
  moreover have "days_of (cyear c) (cmonth c) (cday c) * 86400 + chour c * 3600 + cmin c * 60 + csec c
      = n * 86400 + s"
    using day sixty_split [of s] by (simp add: ceq)
  moreover have "inst t div second * second + cnano c = inst t" by (simp add: ceq)
  ultimately show "(days_of (cyear c) (cmonth c) (cday c) * 86400 + chour c * 3600 + cmin c * 60
      + csec c - offset t) * second + cnano c = inst t" by simp
qed

theorem parse_format_time [roundtrip]:
  assumes "format_time t = Some s" and "60 dvd offset t"
  shows "parse_time s = Some t"
proof -
  define c where "c = civil_of t"
  note f = civil_of_facts [OF c_def]
  have y: "0 \<le> cyear c" "cyear c \<le> 9999" "\<bar>offset t\<bar> < 86400"
    and s: "s = padi 4 (cyear c) @ CHR ''-'' # padi 2 (cmonth c) @ CHR ''-'' # padi 2 (cday c)
       @ CHR ''T'' # padi 2 (chour c) @ CHR '':'' # padi 2 (cmin c) @ CHR '':'' # padi 2 (csec c)
       @ format_nanos (cnano c) @ format_zone (offset t)"
    using assms(1) by (auto simp: format_time_def c_def Let_def split: if_splits)
  have num: "int (nat i mod k) = i" if "0 \<le> i" "i < int k" for i k
    using that by (simp add: nat_less_iff)
  show ?thesis
    using y f get_nanos_format [OF f(11,12)] get_zone_format [OF y(3) assms(2)]
    by (simp add: parse_time_def s num)
qed

end
