(* ===== verification/Evidence.thy ===== *)
theory Evidence
  imports Go_Json Go_Time
begin

text \<open>
  Package \<open>evidence\<close> (\<open>evidence/record.go\<close>, \<open>evidence/chain.go\<close>): the evidence
  record, its JSON encoding as \<open>json.Marshal\<close> makes it from the struct's tags, its hash,
  and the hash chain. The digest function is a parameter: \<open>sha256.Sum256\<close> in the code,
  any function from bytes to bytes here.
\<close>

section \<open>Records\<close>

type_synonym outcome = string

definition OutcomeObserved :: outcome where "OutcomeObserved = ''observed''"
definition OutcomeFailed :: outcome where "OutcomeFailed = ''collection-failed''"

text \<open>A Go map is kept as the list of its entries in key order; a nil map is the empty one.\<close>

record target =
  TType :: string
  TName :: string
  TAttributes :: "(string \<times> string) list"

record evidence_record =
  ID :: string
  CollectorID :: string
  CollectorVersion :: string
  Target :: target
  CollectedAt :: gotime
  Outcome :: outcome
  Error :: string
  Observation :: bytes
  ControlIDs :: "string list"
  PrevHash :: string
  Hash :: string

section \<open>Encoding\<close>

definition jstr :: "string \<Rightarrow> json" where
  "jstr s = JStr (json_escape s)"

definition field :: "string \<Rightarrow> json \<Rightarrow> (bytes \<times> json) list" where
  "field k v = [(k, v)]"

text \<open>A field whose tag says \<open>omitempty\<close>.\<close>

definition field_unless :: "bool \<Rightarrow> string \<Rightarrow> json \<Rightarrow> (bytes \<times> json) list" where
  "field_unless omit k v = (if omit then [] else [(k, v)])"

definition target_json :: "target \<Rightarrow> json" where
  "target_json t = JObj
     (field ''type'' (jstr (TType t)) @ field ''name'' (jstr (TName t)) @
      field_unless (TAttributes t = []) ''attributes''
        (JObj (map (\<lambda>(k, v). (json_escape k, jstr v)) (TAttributes t))))"

text \<open>
  The fields in the order of the struct; the two values that can fail to encode are given:
  the text of the time and the compacted observation.
\<close>

definition record_fields :: "evidence_record \<Rightarrow> string \<Rightarrow> json \<Rightarrow> (bytes \<times> json) list" where
  "record_fields r at obs =
     field ''id'' (jstr (ID r)) @ field ''collectorId'' (jstr (CollectorID r)) @
     field ''collectorVersion'' (jstr (CollectorVersion r)) @
     field ''target'' (target_json (Target r)) @ field ''collectedAt'' (JStr at) @
     field ''outcome'' (jstr (Outcome r)) @
     field_unless (Error r = []) ''error'' (jstr (Error r)) @
     field_unless (Observation r = []) ''observation'' obs @
     field_unless (ControlIDs r = []) ''controlIds'' (JArr (map jstr (ControlIDs r))) @
     field ''prevHash'' (jstr (PrevHash r)) @ field ''hash'' (jstr (Hash r))"

text \<open>
  \<open>json.Marshal(r)\<close>: fails when the time has no RFC 3339 text or the observation is no
  valid JSON.
\<close>

definition record_tree :: "evidence_record \<Rightarrow> json result" where
  "record_tree r = (case format_time (CollectedAt r) of
     None \<Rightarrow> Inl (External ''json: error calling MarshalJSON for type time.Time'')
   | Some at \<Rightarrow>
       if Observation r = [] then Inr (JObj (record_fields r at (JLit ''null'')))
       else (case compact (Observation r) of
         None \<Rightarrow> Inl (External ''json: error calling MarshalJSON for type json.RawMessage'')
       | Some obs \<Rightarrow> Inr (JObj (record_fields r at obs))))"

definition marshal_record :: "evidence_record \<Rightarrow> bytes result" where
  "marshal_record r = map_sum id render (record_tree r)"

section \<open>Hashing\<close>

type_synonym digest = "bytes \<Rightarrow> bytes"

text \<open>The hash of the encoding with the \<open>Hash\<close> field cleared.\<close>

definition computeHash :: "digest \<Rightarrow> evidence_record \<Rightarrow> string result" where
  "computeHash H r =
     bindr (marshal_record (r\<lparr>Hash := []\<rparr>)) (\<lambda>b. Inr (hex_encode (H b)))"

text \<open>A random identifier: the hexadecimal text of the 16 bytes drawn.\<close>

definition NewID :: "bytes \<Rightarrow> string" where
  "NewID drawn = hex_encode drawn"

section \<open>The chain\<close>

record chain =
  lastHash :: string

definition NewChain :: chain where
  "NewChain = \<lparr>lastHash = []\<rparr>"

definition Resume :: "string \<Rightarrow> chain" where
  "Resume h = \<lparr>lastHash = h\<rparr>"

definition LastHash :: "chain \<Rightarrow> string" where
  "LastHash c = lastHash c"

text \<open>
  \<open>Seal\<close> changes the chain and the record it is given; on an error they keep what was
  assigned before it. \<open>drawn\<close> are the random bytes of a new identifier.
\<close>

definition Seal ::
  "digest \<Rightarrow> bytes \<Rightarrow> chain \<Rightarrow> evidence_record \<Rightarrow> error option \<times> chain \<times> evidence_record" where
  "Seal H drawn c r =
     (if Hash r \<noteq> [] then
        (Some (Errorf ''seal record %s: %w'' [Str (ID r)] (Some (Sentinel ErrAlreadySealed))), c, r)
      else
        let r1 = (if ID r = [] then r\<lparr>ID := NewID drawn\<rparr> else r);
            r2 = r1\<lparr>PrevHash := lastHash c\<rparr>
        in case computeHash H r2 of
             Inl e \<Rightarrow> (Some (Errorf ''seal record %s: %w'' [Str (ID r2)] (Some e)), c, r2)
           | Inr h \<Rightarrow> (None, c\<lparr>lastHash := h\<rparr>, r2\<lparr>Hash := h\<rparr>))"

text \<open>The loop of \<open>Verify\<close>, at record \<open>i\<close> with the hash of the record before.\<close>

fun verify_from :: "digest \<Rightarrow> nat \<Rightarrow> string \<Rightarrow> evidence_record list \<Rightarrow> error option" where
  "verify_from H i prev [] = None"
| "verify_from H i prev (r # rs) =
     (if PrevHash r \<noteq> prev then
        Some (Errorf ''record %d (%s): prevHash %q does not match previous record hash %q: %w''
               [Num (int i), Str (ID r), Str (PrevHash r), Str prev] (Some (Sentinel ErrTampered)))
      else (case computeHash H r of
        Inl e \<Rightarrow> Some (Errorf ''record %d (%s): rehash: %w'' [Num (int i), Str (ID r)] (Some e))
      | Inr h \<Rightarrow>
          if h \<noteq> Hash r then
            Some (Errorf ''record %d (%s): stored hash %q does not match recomputed hash %q: %w''
               [Num (int i), Str (ID r), Str (Hash r), Str h] (Some (Sentinel ErrTampered)))
          else verify_from H (Suc i) (Hash r) rs))"

definition Verify :: "digest \<Rightarrow> evidence_record list \<Rightarrow> error option" where
  "Verify H rs = verify_from H 0 [] rs"

section \<open>What \<open>Seal\<close> and \<open>Verify\<close> promise\<close>

text \<open>
  The specification of an intact chain, index by index: every record names the hash of the
  one before it (the first names none) and stores the hash of its own encoding.
\<close>

definition prev_of :: "evidence_record list \<Rightarrow> nat \<Rightarrow> string" where
  "prev_of rs i = (if i = 0 then [] else Hash (rs ! (i - 1)))"

definition intact :: "digest \<Rightarrow> evidence_record list \<Rightarrow> bool" where
  "intact H rs \<longleftrightarrow> (\<forall>i < length rs. PrevHash (rs ! i) = prev_of rs i
      \<and> computeHash H (rs ! i) = Inr (Hash (rs ! i)))"

definition head_hash :: "evidence_record list \<Rightarrow> string" where
  "head_hash rs = (if rs = [] then [] else Hash (last rs))"

lemma head_hash_simps [simp]: "head_hash [] = []" "head_hash (rs @ [r]) = Hash r"
  by (simp_all add: head_hash_def)

lemma head_hash_Cons: "head_hash (r # rs) = (if rs = [] then Hash r else head_hash rs)"
  by (simp add: head_hash_def)

lemma verify_from_append:
  "verify_from H i prev (rs @ ys) = (case verify_from H i prev rs of
      Some e \<Rightarrow> Some e
    | None \<Rightarrow> verify_from H (i + length rs) (if rs = [] then prev else Hash (last rs)) ys)"
  by (induction rs arbitrary: i prev) (auto split: sum.split option.split)

lemma Verify_append:
  "Verify H (rs @ ys) = (case Verify H rs of
      Some e \<Rightarrow> Some e | None \<Rightarrow> verify_from H (length rs) (head_hash rs) ys)"
  by (cases "rs = []") (simp_all add: Verify_def verify_from_append head_hash_def split: option.split)

lemma verify_from_ok:
  "verify_from H i prev rs = None \<longleftrightarrow>
   (\<forall>k < length rs. PrevHash (rs ! k) = (if k = 0 then prev else Hash (rs ! (k - 1)))
      \<and> computeHash H (rs ! k) = Inr (Hash (rs ! k)))"
proof (induction rs arbitrary: i prev)
  case (Cons r rs)
  have split: "(\<forall>k < length (r # rs). P k) \<longleftrightarrow> P 0 \<and> (\<forall>k < length rs. P (Suc k))" for P
    by (auto simp: less_Suc_eq_0_disj)
  have "(\<forall>k < length rs. PrevHash (rs ! k) = (if k = 0 then Hash r else Hash (rs ! (k - 1)))
      \<and> computeHash H (rs ! k) = Inr (Hash (rs ! k))) \<longleftrightarrow>
    (\<forall>k < length rs. PrevHash ((r # rs) ! Suc k) = Hash ((r # rs) ! k)
      \<and> computeHash H ((r # rs) ! Suc k) = Inr (Hash ((r # rs) ! Suc k)))"
    by (intro all_cong1) (auto simp: nth_Cons')
  with Cons.IH [of "Suc i" "Hash r"] show ?case
    unfolding split by (auto split: sum.split)
qed simp

lemma Verify_None_iff: "Verify H rs = None \<longleftrightarrow> intact H rs"
  by (simp add: Verify_def verify_from_ok intact_def prev_of_def)

lemma intact_append:
  "intact H (rs @ [r]) \<longleftrightarrow> intact H rs \<and> PrevHash r = head_hash rs \<and> computeHash H r = Inr (Hash r)"
  by (auto simp: Verify_append simp flip: Verify_None_iff split: option.splits sum.splits)

lemma intact_take: "intact H (rs @ ys) \<Longrightarrow> intact H rs"
  by (auto simp: Verify_append simp flip: Verify_None_iff split: option.splits)

lemma intact_Nil [simp]: "intact H []"
  by (simp add: intact_def)

lemma computeHash_Hash [simp]: "computeHash H (r\<lparr>Hash := h\<rparr>) = computeHash H r"
  by (simp add: computeHash_def)

lemma Seal_cases:
  obtains (sealed) "Hash r \<noteq> []" "Seal H d c r =
      (Some (Errorf ''seal record %s: %w'' [Str (ID r)] (Some (Sentinel ErrAlreadySealed))), c, r)"
  | (failed) e r2 where "Hash r = []" "r2 = r\<lparr>ID := (if ID r = [] then NewID d else ID r), PrevHash := lastHash c\<rparr>"
      "computeHash H r2 = Inl e" "Seal H d c r = (Some (Errorf ''seal record %s: %w'' [Str (ID r2)] (Some e)), c, r2)"
  | (ok) h r2 where "Hash r = []" "r2 = r\<lparr>ID := (if ID r = [] then NewID d else ID r), PrevHash := lastHash c\<rparr>"
      "computeHash H r2 = Inr h" "Seal H d c r = (None, c\<lparr>lastHash := h\<rparr>, r2\<lparr>Hash := h\<rparr>)"
proof (cases "Hash r = []")
  case True
  define r2 where "r2 = r\<lparr>ID := (if ID r = [] then NewID d else ID r), PrevHash := lastHash c\<rparr>"
  have "Seal H d c r = (case computeHash H r2 of
       Inl e \<Rightarrow> (Some (Errorf ''seal record %s: %w'' [Str (ID r2)] (Some e)), c, r2)
     | Inr h \<Rightarrow> (None, c\<lparr>lastHash := h\<rparr>, r2\<lparr>Hash := h\<rparr>))"
    using True by (auto simp: Seal_def r2_def Let_def split: sum.split)
  with True that(2,3) r2_def show thesis by (cases "computeHash H r2") auto
qed (use that(1) in \<open>simp add: Seal_def\<close>)

lemma Seal_extends:
  assumes "intact H rs" "lastHash c = head_hash rs" "Seal H d c r = (None, c', r')"
  shows "intact H (rs @ [r']) \<and> lastHash c' = head_hash (rs @ [r'])"
  using assms by (cases rule: Seal_cases [of r H d c]) (auto simp: intact_append)

text \<open>What sealing changes of a record: its identifier if it had none, the two hashes.\<close>

lemma Seal_content:
  assumes "Seal H d c r = (None, c', r')"
  shows "r' = r\<lparr>ID := (if ID r = [] then NewID d else ID r), PrevHash := lastHash c, Hash := lastHash c'\<rparr>"
  using assms by (cases rule: Seal_cases [of r H d c]) auto

lemma Seal_error_keeps_chain: "Seal H d c r = (Some e, c', r') \<Longrightarrow> c' = c"
  by (cases rule: Seal_cases [of r H d c]) auto

lemma verify_from_error:
  "verify_from H i prev rs = Some e \<Longrightarrow>
   errors_is e ErrTampered \<or> (\<exists>r\<in>set rs. \<exists>e'. computeHash H r = Inl e')"
  by (induction rs arbitrary: i prev) (auto split: if_splits sum.splits)

end
