(* ===== verification/Evidence_Codec.thy ===== *)
theory Evidence_Codec
  imports Evidence
begin

text \<open>
  Reading a record back with \<open>json.Unmarshal\<close>, as the store does with each line of its
  file (\<open>readRecords\<close> in \<open>internal/core/store.go\<close>) and the bundle with
  \<open>evidence.json\<close>. The observation, a \<open>json.RawMessage\<close>, is kept as it is spelled. The main fact is \<open>unmarshal_marshal\<close>: a well-formed record is read
  back as it was written.
\<close>

section \<open>Decoding\<close>

text \<open>The text a field name is compared by when no field has exactly the key's name.\<close>

fun fold_name :: "bytes \<Rightarrow> bytes" where
  "fold_name [] = []"
| "fold_name (c # s) =
     (if 97 \<le> code c \<and> code c \<le> 122 then byte (code c - 32) # fold_name s
      else if take 2 (c # s) = [byte 0xC5, byte 0xBF] then CHR ''S'' # fold_name (drop 1 s)
      else if take 3 (c # s) = [byte 0xE2, byte 0x84, byte 0xAA] then CHR ''K'' # fold_name (drop 2 s)
      else c # fold_name s)"

definition resolve :: "string list \<Rightarrow> bytes \<Rightarrow> string option" where
  "resolve names k =
     (if k \<in> set names then Some k else find (\<lambda>n. fold_name n = fold_name k) names)"

definition type_error :: error where
  "type_error = External ''json: cannot unmarshal value into Go value''"

text \<open>A string: \<open>null\<close> leaves the old value.\<close>

fun string_value :: "string \<Rightarrow> json \<Rightarrow> string result" where
  "string_value old (JStr raw) = (case json_unquote raw of Some s \<Rightarrow> Inr s | None \<Rightarrow> Inl type_error)"
| "string_value old (JLit l) = (if l = ''null'' then Inr old else Inl type_error)"
| "string_value old v = Inl type_error"

text \<open>A slice of strings, element by element over what it held.\<close>

fun string_elems :: "string list \<Rightarrow> json list \<Rightarrow> string list result" where
  "string_elems old [] = Inr []"
| "string_elems old (v # vs) =
     bindr (string_value (case old of [] \<Rightarrow> [] | s # _ \<Rightarrow> s) v) (\<lambda>s.
     bindr (string_elems (tl old) vs) (\<lambda>ss. Inr (s # ss)))"

fun strings_value :: "string list \<Rightarrow> json \<Rightarrow> string list result" where
  "strings_value old (JArr vs) = string_elems old vs"
| "strings_value old (JLit l) = (if l = ''null'' then Inr [] else Inl type_error)"
| "strings_value old v = Inl type_error"

text \<open>A map of strings, entry by entry into the one it held.\<close>

fun map_entries :: "(string \<times> string) list \<Rightarrow> (bytes \<times> json) list \<Rightarrow> (string \<times> string) list result" where
  "map_entries m [] = Inr m"
| "map_entries m ((k, v) # kvs) = (case json_unquote k of
     None \<Rightarrow> Inl type_error
   | Some k' \<Rightarrow> bindr (string_value [] v) (\<lambda>s. map_entries (put k' s m) kvs))"

fun map_value :: "(string \<times> string) list \<Rightarrow> json \<Rightarrow> (string \<times> string) list result" where
  "map_value old (JObj kvs) = map_entries old kvs"
| "map_value old (JLit l) = (if l = ''null'' then Inr [] else Inl type_error)"
| "map_value old v = Inl type_error"

text \<open>\<open>Time.UnmarshalJSON\<close> reads the raw text between the quotes.\<close>

fun time_value :: "gotime \<Rightarrow> json \<Rightarrow> gotime result" where
  "time_value old (JStr raw) = (case parse_time raw of
     Some t \<Rightarrow> Inr t | None \<Rightarrow> Inl (External ''parsing time''))"
| "time_value old (JLit l) =
     (if l = ''null'' then Inr old else Inl (External ''Time.UnmarshalJSON: input is not a JSON string''))"
| "time_value old v = Inl (External ''Time.UnmarshalJSON: input is not a JSON string'')"

definition target_field :: "string \<Rightarrow> spelled \<Rightarrow> target \<Rightarrow> target result" where
  "target_field n v t =
     (if n = ''type'' then bindr (string_value (TType t) (strip v)) (\<lambda>s. Inr (t\<lparr>TType := s\<rparr>))
      else if n = ''name'' then bindr (string_value (TName t) (strip v)) (\<lambda>s. Inr (t\<lparr>TName := s\<rparr>))
      else bindr (map_value (TAttributes t) (strip v)) (\<lambda>m. Inr (t\<lparr>TAttributes := m\<rparr>)))"

text \<open>The fields of an object in turn; a key of no field is skipped.\<close>

fun decode_fields ::
  "string list \<Rightarrow> (string \<Rightarrow> spelled \<Rightarrow> 'a \<Rightarrow> 'a result) \<Rightarrow> (bytes \<times> spelled) list \<Rightarrow> 'a \<Rightarrow> 'a result" where
  "decode_fields names f [] x = Inr x"
| "decode_fields names f ((k, v) # kvs) x = (case json_unquote k of
     None \<Rightarrow> Inl type_error
   | Some k' \<Rightarrow> (case resolve names k' of
       None \<Rightarrow> decode_fields names f kvs x
     | Some n \<Rightarrow> bindr (f n v x) (decode_fields names f kvs)))"

fun struct_value ::
  "string list \<Rightarrow> (string \<Rightarrow> spelled \<Rightarrow> 'a \<Rightarrow> 'a result) \<Rightarrow> 'a \<Rightarrow> spelled \<Rightarrow> 'a result" where
  "struct_value names f old (SObj b kvs) = decode_fields names f kvs old"
| "struct_value names f old (SLit l) = (if l = ''null'' then Inr old else Inl type_error)"
| "struct_value names f old v = Inl type_error"

definition target_names :: "string list" where
  "target_names = [''type'', ''name'', ''attributes'']"

definition record_names :: "string list" where
  "record_names = [''id'', ''collectorId'', ''collectorVersion'', ''target'', ''collectedAt'',
     ''outcome'', ''error'', ''observation'', ''controlIds'', ''prevHash'', ''hash'']"

text \<open>The observation is a \<open>json.RawMessage\<close>: the bytes of the value as they stand in the text.\<close>

definition record_field :: "string \<Rightarrow> spelled \<Rightarrow> evidence_record \<Rightarrow> evidence_record result" where
  "record_field n v r =
     (if n = ''id'' then bindr (string_value (ID r) (strip v)) (\<lambda>s. Inr (r\<lparr>ID := s\<rparr>))
      else if n = ''collectorId'' then bindr (string_value (CollectorID r) (strip v)) (\<lambda>s. Inr (r\<lparr>CollectorID := s\<rparr>))
      else if n = ''collectorVersion''
        then bindr (string_value (CollectorVersion r) (strip v)) (\<lambda>s. Inr (r\<lparr>CollectorVersion := s\<rparr>))
      else if n = ''target''
        then bindr (struct_value target_names target_field (Target r) v) (\<lambda>t. Inr (r\<lparr>Target := t\<rparr>))
      else if n = ''collectedAt'' then bindr (time_value (CollectedAt r) (strip v)) (\<lambda>t. Inr (r\<lparr>CollectedAt := t\<rparr>))
      else if n = ''outcome'' then bindr (string_value (Outcome r) (strip v)) (\<lambda>s. Inr (r\<lparr>Outcome := s\<rparr>))
      else if n = ''error'' then bindr (string_value (Error r) (strip v)) (\<lambda>s. Inr (r\<lparr>Error := s\<rparr>))
      else if n = ''observation'' then Inr (r\<lparr>Observation := spelling v\<rparr>)
      else if n = ''controlIds'' then bindr (strings_value (ControlIDs r) (strip v)) (\<lambda>ss. Inr (r\<lparr>ControlIDs := ss\<rparr>))
      else if n = ''prevHash'' then bindr (string_value (PrevHash r) (strip v)) (\<lambda>s. Inr (r\<lparr>PrevHash := s\<rparr>))
      else bindr (string_value (Hash r) (strip v)) (\<lambda>s. Inr (r\<lparr>Hash := s\<rparr>)))"

definition zero_record :: evidence_record where
  "zero_record = \<lparr>ID = [], CollectorID = [], CollectorVersion = [],
     Target = \<lparr>TType = [], TName = [], TAttributes = []\<rparr>, CollectedAt = zero_time,
     Outcome = [], Error = [], Observation = [], ControlIDs = [], PrevHash = [], Hash = []\<rparr>"

definition record_value :: "evidence_record \<Rightarrow> spelled \<Rightarrow> evidence_record result" where
  "record_value = struct_value record_names record_field"

text \<open>\<open>var r evidence.Record; json.Unmarshal(b, &r)\<close>.\<close>

definition unmarshal_record :: "bytes \<Rightarrow> evidence_record result" where
  "unmarshal_record b = (case json_spelled b of
     None \<Rightarrow> Inl (External ''invalid character or unexpected end of JSON input'')
   | Some v \<Rightarrow> record_value zero_record v)"

section \<open>What is written can be read\<close>

text \<open>The text of a key or of a time: ASCII, with nothing to escape.\<close>

definition plain_char :: "char \<Rightarrow> bool" where
  "plain_char c \<longleftrightarrow> c \<noteq> bslash \<and> c \<noteq> dquote \<and> c \<notin> set ''<>&'' \<and> 32 \<le> code c \<and> code c < 128"

lemma plain_str_body: "\<forall>c\<in>set s. plain_char c \<Longrightarrow> str_body s"
  using str_body_plains [of s "[]"] by (simp add: plain_char_def not_less)

lemma plain_unquote: "\<forall>c\<in>set s. plain_char c \<Longrightarrow> json_unquote s = Some s"
  by (induction s) (auto simp: plain_char_def unquote_plain)

lemma record_names_plain: "\<forall>n\<in>set record_names. \<forall>c\<in>set n. plain_char c"
  by (simp add: record_names_def plain_char_def code_def)

lemma target_names_plain: "\<forall>n\<in>set target_names. \<forall>c\<in>set n. plain_char c"
  by (simp add: target_names_def plain_char_def code_def)

lemma format_time_plain:
  assumes "format_time t = Some s"
  shows "\<forall>c\<in>set s. plain_char c"
proof -
  have dig: "plain_char (hex_digit d)" if "d < 10" for d
    using hex_digit_plain [of d] that by (auto simp: plain_char_def code_def)
  have pads: "plain_char c" if "c \<in> set (pad w n)" for c w n
    using pad_digits [OF that] dig by auto
  have nanos: "plain_char c" if "c \<in> set (format_nanos n)" for c n
  proof (cases "c = CHR ''.''")
    case False
    with that have "c \<in> set (padi 9 n)"
      by (auto simp: format_nanos_def split: if_splits dest: set_dropWhileD)
    then show ?thesis by (rule pads)
  qed (simp add: plain_char_def code_def)
  have zone: "plain_char c" if "c \<in> set (format_zone n)" for c n
    using that by (auto simp: format_zone_def plain_char_def code_def
      split: if_splits dest!: pads)
  have punct: "plain_char (CHR ''-'')" "plain_char (CHR '':'')" "plain_char (CHR ''T'')"
    by (simp_all add: plain_char_def code_def)
  show ?thesis
    using assms punct by (auto simp: format_time_def Let_def split: if_splits dest: pads nanos zone)
qed

lemma plain_valid: "list_all (\<lambda>c. code c < 0x80) s \<Longrightarrow> valid_utf8 s"
  by (rule valid_utf8_ascii) (simp add: list_all_iff)

lemma fold_max_le: "fold max xs (a::nat) \<le> n \<longleftrightarrow> a \<le> n \<and> (\<forall>x\<in>set xs. x \<le> n)"
  by (induction xs arbitrary: a) auto

lemma depth_le [simp]:
  "depth (JArr vs) \<le> Suc n \<longleftrightarrow> (\<forall>v\<in>set vs. depth v \<le> n)"
  "depth (JObj kvs) \<le> Suc n \<longleftrightarrow> (\<forall>kv\<in>set kvs. depth (snd kv) \<le> n)"
  by (auto simp: fold_max_le split_beta)

lemma jstr_simps [simp]:
  "wf_json (jstr s)" "depth (jstr s) = 0" "html_safe (jstr s)"
  "valid_utf8 s \<Longrightarrow> string_value old (jstr s) = Inr s"
  by (simp_all add: jstr_def unquote_escape to_valid_id)

section \<open>Well-formed records\<close>

text \<open>
  A record whose strings are valid UTF-8, whose attributes are a map, whose time is in a
  zone of whole minutes and whose observation is JSON as \<open>json.Marshal\<close> writes it. An
  encoder replaces other bytes and drops the seconds of a zone.
\<close>

definition obs_ok :: "bytes \<Rightarrow> bool" where
  "obs_ok b \<longleftrightarrow> b = [] \<or> (\<exists>v. b = render v \<and> wf_json v \<and> html_safe v \<and> depth v < 10000)"

lemma obs_ok_render [intro]: "wf_json v \<Longrightarrow> html_safe v \<Longrightarrow> depth v < 10000 \<Longrightarrow> obs_ok (render v)"
  by (auto simp: obs_ok_def simp del: render.simps)

definition wf_target :: "target \<Rightarrow> bool" where
  "wf_target t \<longleftrightarrow> valid_utf8 (TType t) \<and> valid_utf8 (TName t) \<and> ordered (TAttributes t)
     \<and> (\<forall>(k, v)\<in>set (TAttributes t). valid_utf8 k \<and> valid_utf8 v)"

definition wf_record :: "evidence_record \<Rightarrow> bool" where
  "wf_record r \<longleftrightarrow> valid_utf8 (ID r) \<and> valid_utf8 (CollectorID r) \<and> valid_utf8 (CollectorVersion r)
     \<and> wf_target (Target r) \<and> 60 dvd offset (CollectedAt r) \<and> valid_utf8 (Outcome r)
     \<and> valid_utf8 (Error r) \<and> obs_ok (Observation r) \<and> (\<forall>c\<in>set (ControlIDs r). valid_utf8 c)
     \<and> valid_utf8 (PrevHash r) \<and> valid_utf8 (Hash r)"

lemma render_not_Nil: "wf_json v \<Longrightarrow> render v \<noteq> []"
  by (rule render_head [of v]) auto

lemma marshal_record_tree:
  assumes "marshal_record r = Inr b" "obs_ok (Observation r)"
  obtains at v where "format_time (CollectedAt r) = Some at" "b = render (JObj (record_fields r at v))"
    "wf_json v" "html_safe v" "depth v < 10000" "Observation r \<noteq> [] \<Longrightarrow> Observation r = render v"
proof -
  from assms(1) obtain at where at: "format_time (CollectedAt r) = Some at"
    by (auto simp: marshal_record_def record_tree_def split: option.splits)
  show thesis
  proof (cases "Observation r = []")
    case True
    have "lit_ok ''null''"
      by (auto simp: lit_ok_def is_ws_def scan_literal_def starts_def)
    with True at assms(1) that [of at "JLit ''null''"] show thesis
      by (simp add: marshal_record_def record_tree_def)
  next
    case False
    then obtain v where v: "Observation r = render v" "wf_json v" "html_safe v" "depth v < 10000"
      using assms(2) by (auto simp: obs_ok_def)
    with False at assms(1) that [of at v] show thesis
      by (simp add: marshal_record_def record_tree_def compact_render)
  qed
qed

lemma target_json_facts [simp]: "wf_json (target_json t)" "depth (target_json t) \<le> Suc (Suc n)"
proof -
  have "str_body ''type''" "str_body ''name''" "str_body ''attributes''"
    using target_names_plain plain_str_body by (simp_all add: target_names_def)
  then show "wf_json (target_json t)"
    by (auto simp: target_json_def field_def field_unless_def)
  show "depth (target_json t) \<le> Suc (Suc n)"
    by (auto simp: target_json_def field_def field_unless_def simp del: depth.simps(4))
qed

lemma record_fields_wf:
  assumes "format_time (CollectedAt r) = Some at" "wf_json v" "depth v < 10000"
  shows "wf_json (JObj (record_fields r at v))" "depth (JObj (record_fields r at v)) \<le> 10000"
proof -
  have "str_body at" using format_time_plain [OF assms(1)] by (rule plain_str_body)
  moreover have "\<forall>n\<in>set record_names. str_body n"
    using record_names_plain plain_str_body by blast
  ultimately show "wf_json (JObj (record_fields r at v))"
    using assms(2) by (simp add: record_fields_def field_def field_unless_def record_names_def ball_Un)
  have "depth (snd kv) \<le> 9999" if "kv \<in> set (record_fields r at v)" for kv
    using assms(3) target_json_facts(2) [of "Target r" 9997] that
    by (auto simp: record_fields_def field_def field_unless_def fold_max_le split: if_splits)
  then show "depth (JObj (record_fields r at v)) \<le> 10000"
    using depth_le(2) [of _ 9999] by (simp del: depth.simps depth_le)
qed

section \<open>Field by field\<close>

text \<open>\<open>g\<close> is any spelling of the values.\<close>

lemma decode_field [simp]:
  assumes "json_unquote k = Some k" "k \<in> set names"
  shows "decode_fields names f (map (\<lambda>(k, v). (k, g v)) (field k v) @ kvs) x = bindr (f k (g v) x) (decode_fields names f kvs)"
    "decode_fields names f (map (\<lambda>(k, v). (k, g v)) (field_unless omit k v) @ kvs) x =
       (if omit then decode_fields names f kvs x else bindr (f k (g v) x) (decode_fields names f kvs))"
  using assms by (simp_all add: field_def field_unless_def resolve_def)

lemma string_elems_jstr:
  "\<forall>s\<in>set ss. valid_utf8 s \<Longrightarrow> string_elems old (map jstr ss) = Inr ss"
  by (induction ss arbitrary: old) auto

lemma map_entries_put:
  "\<forall>(k, v)\<in>set m. valid_utf8 k \<and> valid_utf8 v \<Longrightarrow>
   map_entries acc (map (\<lambda>(k, v). (json_escape k, jstr v)) m) = Inr (foldl (\<lambda>a (k, v). put k v a) acc m)"
  by (induction m arbitrary: acc) (auto simp: unquote_escape to_valid_id)

lemma decode_end [simp]:
  assumes "json_unquote k = Some k" "k \<in> set names"
  shows "decode_fields names f (map (\<lambda>(k, v). (k, g v)) (field k v)) x = bindr (f k (g v) x) Inr"
    "decode_fields names f (map (\<lambda>(k, v). (k, g v)) (field_unless omit k v)) x = (if omit then Inr x else bindr (f k (g v) x) Inr)"
  using assms by (simp_all add: field_def field_unless_def resolve_def bindr_def split: sum.split)

lemma decode_target:
  assumes "wf_target t"
  shows "struct_value target_names target_field \<lparr>TType = [], TName = [], TAttributes = []\<rparr> (spelled_by w d (target_json t)) = Inr t"
proof -
  have u: "json_unquote n = Some n" if "n \<in> set target_names" for n
    using target_names_plain that by (intro plain_unquote) auto
  have m: "map_entries [] (map (\<lambda>(k, v). (json_escape k, jstr v)) (TAttributes t)) = Inr (TAttributes t)"
    using assms foldl_put [of "[]" "TAttributes t"]
    by (subst map_entries_put) (auto simp: wf_target_def)
  show ?thesis
    using assms m u by (simp add: target_json_def target_names_def target_field_def wf_target_def)
qed

text \<open>
  A record is read back from whatever writer's text; its observation is then that text's. An error
  text that is not valid UTF-8, the one string of a record that comes from outside, is repaired on the way.
\<close>

lemma record_value_spelled:
  assumes "wf_record (r\<lparr>Error := []\<rparr>)" "format_time (CollectedAt r) = Some at"
  shows "record_value zero_record (spelled_by w d (JObj (record_fields r at v)))
    = Inr (r\<lparr>Error := to_valid (Error r),
        Observation := (if Observation r = [] then [] else spelling (spelled_by w (Suc d) v))\<rparr>)"
proof -
  have u: "json_unquote n = Some n" if "n \<in> set record_names" for n
    using record_names_plain that by (intro plain_unquote) auto
  have any: "string_value old (jstr s) = Inr (to_valid s)" for old s
    by (simp add: jstr_def unquote_escape)
  have "parse_time at = Some (CollectedAt r)"
    using assms(1) by (intro parse_format_time [OF assms(2)]) (simp add: wf_record_def)
  then show ?thesis
    using assms(1) u
    by (simp add: record_value_def record_fields_def record_names_def record_field_def zero_record_def
        wf_record_def decode_target string_elems_jstr any to_valid_id)
qed

lemma unmarshal_marshal_repaired:
  assumes "wf_record (r\<lparr>Error := []\<rparr>)" "marshal_record r = Inr b"
  shows "unmarshal_record b = Inr (r\<lparr>Error := to_valid (Error r)\<rparr>)"
proof -
  from assms obtain at v where at: "format_time (CollectedAt r) = Some at"
    and b: "b = render (JObj (record_fields r at v))" and v: "wf_json v" "depth v < 10000"
    and obs: "Observation r \<noteq> [] \<Longrightarrow> Observation r = render v"
    using marshal_record_tree [of r b thesis] by (simp add: wf_record_def del: render.simps)
  have "json_spelled b = Some (rendered 0 (JObj (record_fields r at v)))"
    unfolding b using record_fields_wf [OF at v] by (rule spelled_render)
  then show ?thesis
    using record_value_spelled [OF assms(1) at, of "\<lambda>d. render" 0 v] obs
    by (cases "Observation r = []") (simp_all add: unmarshal_record_def del: spelled_by.simps)
qed

lemma unmarshal_marshal [roundtrip]:
  assumes "wf_record r" "marshal_record r = Inr b"
  shows "unmarshal_record b = Inr r"
proof -
  have "wf_record (r\<lparr>Error := []\<rparr>)" "to_valid (Error r) = Error r"
    using assms(1) by (simp_all add: wf_record_def to_valid_id)
  with unmarshal_marshal_repaired [OF _ assms(2)] show ?thesis by simp
qed

end
