(* ===== verification/Evidence_Tamper.thy ===== *)
theory Evidence_Tamper
  imports Evidence_Codec
begin

text \<open>
  What the hash chain of \<open>evidence/chain.go\<close> protects: the head hash determines the whole
  chain up to an explicit collision of the digest, so that a change anywhere before the last
  record is found; and what it does not: the end of a chain can be cut off, and a record with
  invalid UTF-8 does not survive being written.
\<close>

section \<open>Invalid UTF-8\<close>

lemma hex_digit_less: "n < 16 \<Longrightarrow> code (hex_digit n) < 0x80"
  by (drule hex_digit_plain) (auto simp: code_def)

lemma hex_encode_ascii: "c \<in> set (hex_encode s) \<Longrightarrow> code c < 0x80"
proof (induction s)
  case (Cons d s)
  have "code d div 16 < 16" "code d mod 16 < 16" using code_less [of d] by (auto simp del: code_less)
  with Cons show ?case by (auto simp: hex_digit_less)
qed simp

lemma hex_encode_valid [simp]: "valid_utf8 (hex_encode s)"
  by (rule valid_utf8_ascii) (auto dest: hex_encode_ascii)

lemma json_escape_bad:
  "\<not> code c < 0x80 \<Longrightarrow> rune_len (c # s) = 0 \<Longrightarrow>
   json_escape (c # s) = bslash # ''ufffd'' @ json_escape s"
  by simp

lemma rune_len_replacement:
  "rune_len (byte 0xEF # byte 0xBF # byte 0xBD # t) = 3"
  by (intro rune_len_3) (simp_all add: rune2_def rune3_def cont_def)

lemma escape_replacement:
  "json_escape (replacement @ t) = byte 0xEF # byte 0xBF # byte 0xBD # json_escape t"
proof -
  have "code (byte 0xEF) \<noteq> code (byte 0xE2)" by simp
  then have "byte 0xEF \<noteq> byte 0xE2" by metis
  then have l: "line_separator (byte 0xEF # u) = None" for u by (rule line_separator_head)
  have take3: "take 3 (a # b # d # t) = [a, b, d]" and drop2: "drop (3 - 1) (b # d # t) = t"
    for a b d :: char by (simp_all add: numeral_nat)
  have "\<not> code (byte 0xEF) < 0x80" by simp
  then show ?thesis
    by (simp only: replacement_def append.simps json_escape.simps rune_len_replacement take3 drop2 l
        if_False option.case zero_neq_numeral [symmetric])
qed

lemma rune_len_0: "rune_len (c # s) = 0 \<Longrightarrow> \<not> code c < 0x80"
  by (metis rune_len_ascii zero_neq_one)

lemma rune_len_prefix:
  assumes "rune_len (c # s) \<noteq> 0"
  shows "rune_len (take (rune_len (c # s)) (c # s) @ t) = rune_len (c # s)"
  using rune_len_take assms by blast

lemma escape_to_valid:
  "json_escape (to_valid s) = json_escape s \<Longrightarrow> valid_utf8 s"
proof (induction s rule: to_valid.induct)
  case (2 c s)
  show ?case
  proof (cases "rune_len (c # s) = 0")
    case True
    have "json_escape (to_valid (c # s)) = byte 0xEF # tl (json_escape (to_valid (c # s)))"
      using True by (simp add: escape_replacement)
    moreover have "json_escape (c # s) = bslash # ''ufffd'' @ json_escape s"
      using rune_len_0 [OF True] True by (rule json_escape_bad)
    ultimately have "byte 0xEF = bslash" using "2.prems" by (metis list.sel(1))
    then have "code (byte 0xEF) = code bslash" by (rule arg_cong)
    then show ?thesis by simp
  next
    case False
    obtain k where k: "rune_len (c # s) = Suc k" using False by (cases "rune_len (c # s)") auto
    have kl: "length (take k s) = k" using rune_len_le [of "c # s"] k by simp
    have "json_escape (c # take k s @ t) = (if code c < 0x80 then escape_ascii c
       else case line_separator (c # take k s) of Some e \<Rightarrow> e | None \<Rightarrow> c # take k s) @ json_escape t" for t
      using rune_len_prefix [OF False, of t] k kl by (auto split: option.split)
    from this [of "to_valid (drop k s)"] this [of "drop k s"] 2 False k show ?thesis
      by auto
  qed
qed simp

section \<open>The head hash determines the chain\<close>

text \<open>The bytes that are hashed.\<close>

definition preimage :: "evidence_record \<Rightarrow> bytes result" where
  "preimage r = marshal_record (r\<lparr>Hash := []\<rparr>)"

text \<open>Two of the records show two texts with the same digest.\<close>

definition collision :: "digest \<Rightarrow> evidence_record list \<Rightarrow> bool" where
  "collision H rs \<longleftrightarrow> (\<exists>r\<in>set rs. \<exists>s\<in>set rs. \<exists>b b'.
     preimage r = Inr b \<and> preimage s = Inr b' \<and> b \<noteq> b' \<and> H b = H b')"

lemma collision_mono: "collision H rs \<Longrightarrow> set rs \<subseteq> set ss \<Longrightarrow> collision H ss"
  by (auto simp: collision_def; blast)

lemma computeHash_preimage:
  "computeHash H r = Inr h \<longleftrightarrow> (\<exists>b. preimage r = Inr b \<and> h = hex_encode (H b))"
  by (auto simp: computeHash_def preimage_def bindr_eq_Inr)

lemma wf_record_Hash [simp]: "wf_record r \<Longrightarrow> valid_utf8 h \<Longrightarrow> wf_record (r\<lparr>Hash := h\<rparr>)"
  by (simp add: wf_record_def)

text \<open>Well-formed records with the same preimage and the same hash are the same record.\<close>

lemma preimage_inject:
  assumes "wf_record r" "wf_record s" "preimage r = Inr b" "preimage s = Inr b" "Hash r = Hash s"
  shows "r = s"
proof -
  have "unmarshal_record b = Inr (r\<lparr>Hash := []\<rparr>)" "unmarshal_record b = Inr (s\<lparr>Hash := []\<rparr>)"
    using assms by (auto intro!: unmarshal_marshal simp: preimage_def)
  then have "r\<lparr>Hash := []\<rparr> = s\<lparr>Hash := []\<rparr>" by simp
  then have "r\<lparr>Hash := []\<rparr>\<lparr>Hash := Hash s\<rparr> = s\<lparr>Hash := []\<rparr>\<lparr>Hash := Hash s\<rparr>" by (rule arg_cong)
  then show ?thesis by (simp flip: assms(5)) (simp add: assms(5))
qed

lemma same_head_same_record:
  assumes "computeHash H r = Inr (Hash r)" "computeHash H s = Inr (Hash s)" "Hash r = Hash s"
    "wf_record r" "wf_record s"
  shows "r = s \<or> collision H [r, s]"
proof -
  obtain b b' where b: "preimage r = Inr b" "preimage s = Inr b'" "H b = H b'"
    using assms(1-3) by (auto simp: computeHash_preimage)
  show ?thesis
  proof (cases "b = b'")
    case True
    with b assms preimage_inject show ?thesis by blast
  next
    case False
    with b show ?thesis by (auto simp: collision_def)
  qed
qed

lemma intact_head_not_Nil:
  assumes "intact H (rs @ [r])" "\<forall>b. H b \<noteq> []"
  shows "Hash r \<noteq> []"
proof -
  obtain b where b: "Hash r = hex_encode (H b)"
    using assms(1) by (auto simp: intact_append computeHash_preimage)
  have "length (H b) \<noteq> 0" using assms(2) by simp
  then have "length (Hash r) \<noteq> 0" unfolding b by simp
  then show ?thesis by simp
qed

lemma head_determines:
  assumes H: "\<forall>b. H b \<noteq> []"
  shows "intact H rs \<Longrightarrow> intact H ss \<Longrightarrow> \<forall>r\<in>set (rs @ ss). wf_record r \<Longrightarrow>
    head_hash rs = head_hash ss \<Longrightarrow> rs = ss \<or> collision H (rs @ ss)"
proof (induction rs arbitrary: ss rule: rev_induct)
  case Nil
  then show ?case
    using intact_head_not_Nil [OF _ H] by (cases ss rule: rev_cases) force+
next
  case (snoc r rs)
  from snoc.prems intact_head_not_Nil [OF snoc.prems(1) H] obtain ss' s where ss: "ss = ss' @ [s]"
    by (cases ss rule: rev_cases) auto
  have r: "intact H rs" "PrevHash r = head_hash rs" "computeHash H r = Inr (Hash r)"
    and s: "intact H ss'" "PrevHash s = head_hash ss'" "computeHash H s = Inr (Hash s)"
    using snoc.prems ss by (auto simp: intact_append)
  have "r = s \<or> collision H [r, s]"
    using r s snoc.prems ss by (intro same_head_same_record) auto
  then show ?case
  proof
    assume "collision H [r, s]"
    then show ?thesis using ss by (auto intro: collision_mono)
  next
    assume "r = s"
    with r s have "rs = ss' \<or> collision H (rs @ ss')"
      using snoc.prems ss by (intro snoc.IH) auto
    then show ?thesis
    proof
      assume "collision H (rs @ ss')"
      then have "collision H ((rs @ [r]) @ ss)" using ss by (auto elim!: collision_mono)
      then show ?thesis ..
    qed (use \<open>r = s\<close> ss in simp)
  qed
qed

section \<open>What invalid UTF-8 does\<close>

lemma wf_NewID: "valid_utf8 (NewID d)"
  by (simp add: NewID_def)

text \<open>
  A record whose error text is not valid UTF-8: the hash is taken over the escaped text, the
  record read back has the repaired text, and that one is written differently.
\<close>

lemma record_fields_Error:
  assumes "Error r \<noteq> []" "e \<noteq> []" "record_fields r at v = record_fields (r\<lparr>Error := e\<rparr>) at v"
  shows "json_escape e = json_escape (Error r)"
  using assms by (simp add: record_fields_def field_def field_unless_def jstr_def)

lemma invalid_error_changes_preimage:
  assumes "wf_record (r\<lparr>Error := []\<rparr>)" "\<not> valid_utf8 (Error r)" "preimage r = Inr b"
    "preimage (r\<lparr>Error := to_valid (Error r)\<rparr>) = Inr b'"
  shows "b \<noteq> b'"
proof
  assume "b = b'"
  let ?r = "r\<lparr>Hash := []\<rparr>" and ?s = "r\<lparr>Error := to_valid (Error r), Hash := []\<rparr>"
  have obs: "obs_ok (Observation r)" using assms(1) by (simp add: wf_record_def)
  obtain at v where r: "format_time (CollectedAt r) = Some at" "b = render (JObj (record_fields ?r at v))"
    "wf_json v" "depth v < 10000" "Observation r \<noteq> [] \<Longrightarrow> Observation r = render v"
    using marshal_record_tree [of ?r b thesis] assms(3) obs by (simp add: preimage_def del: render.simps)
  obtain at' v' where s: "format_time (CollectedAt r) = Some at'" "b' = render (JObj (record_fields ?s at' v'))"
    "wf_json v'" "depth v' < 10000" "Observation r \<noteq> [] \<Longrightarrow> Observation r = render v'"
    using marshal_record_tree [of ?s b' thesis] assms(4) obs by (simp add: preimage_def del: render.simps)
  have "json_parse b = Some (JObj (record_fields ?r at v))" "json_parse b' = Some (JObj (record_fields ?s at' v'))"
    using r s record_fields_wf [of ?r at v] record_fields_wf [of ?s at' v']
    by (auto intro: parse_render simp del: render.simps)
  with \<open>b = b'\<close> have eq: "record_fields ?r at v = record_fields ?s at' v'" by simp
  have ne: "Error r \<noteq> []" using assms(2) by auto
  have "to_valid (Error r) \<noteq> []"
    using ne by (cases "Error r") (auto simp: replacement_def)
  moreover have "at = at'" using r s by simp
  ultimately have "json_escape (to_valid (Error r)) = json_escape (Error r)"
    using eq ne by (simp add: record_fields_def field_def field_unless_def jstr_def split: if_splits)
  with assms(2) escape_to_valid show False by blast
qed

lemma encodes_repaired: "marshal_record r = Inr b \<Longrightarrow> \<exists>y. marshal_record (r\<lparr>Error := e, Hash := h\<rparr>) = Inr y"
  by (auto simp: marshal_record_def record_tree_def split: option.splits if_splits)

text \<open>
  The two encodings, the one that was hashed and the one that a check hashes, differ; the check passes
  exactly if they collide.
\<close>

lemma invalid_utf8_not_verifiable:
  assumes r: "wf_record (r\<lparr>Error := []\<rparr>)" "\<not> valid_utf8 (Error r)" and c: "valid_utf8 (lastHash c)"
    and seal: "Seal H d c r = (None, c', r1)" and b: "marshal_record r1 = Inr b"
  obtains r2 x y where "unmarshal_record b = Inr r2" "marshal_record (r1\<lparr>Hash := []\<rparr>) = Inr x"
    "marshal_record (r2\<lparr>Hash := []\<rparr>) = Inr y" "x \<noteq> y" "computeHash H r2 = Inr (Hash r2) \<longleftrightarrow> H x = H y"
proof -
  let ?r2 = "r1\<lparr>Error := to_valid (Error r1)\<rparr>"
  from seal obtain h r' where h: "r' = r\<lparr>ID := (if ID r = [] then NewID d else ID r), PrevHash := lastHash c\<rparr>"
    "computeHash H r' = Inr h" "r1 = r'\<lparr>Hash := h\<rparr>"
    by (cases rule: Seal_cases [of r H d c]) auto
  then obtain x where x: "preimage r1 = Inr x" "h = hex_encode (H x)"
    using computeHash_preimage [of H r1 h] by auto
  have wf: "wf_record (r1\<lparr>Error := []\<rparr>)" "\<not> valid_utf8 (Error r1)"
    using r c h(1,3) x(2) by (simp_all add: wf_record_def wf_NewID)
  obtain y where y: "preimage ?r2 = Inr y"
    using encodes_repaired [OF b, where e = "to_valid (Error r1)" and h = "[]"] by (auto simp: preimage_def)
  have "computeHash H ?r2 = Inr (Hash ?r2) \<longleftrightarrow> H x = H y"
    using computeHash_preimage [of H ?r2 "Hash ?r2"] x y h(3) by (auto simp: hex_encode_inject)
  moreover have "x \<noteq> y" using invalid_error_changes_preimage [OF wf x(1) y] .
  moreover have "unmarshal_record b = Inr ?r2" using wf(1) b by (rule unmarshal_marshal_repaired)
  ultimately show thesis using that x(1) y by (simp add: preimage_def)
qed

end
