(* ===== verification/Go_Os.thy ===== *)
theory Go_Os
  imports Go_Json Go_Time
begin

text \<open>
  What the program uses of the operating system: files reached by path, each an inode with
  its contents, a random source and a clock. Every call first looks at the next entry of a
  schedule of faults, so a theorem about all schedules covers every failure, a write that
  stops half way included. A schedule that is used up means no more faults. Directories are
  not kept: \<open>os.MkdirAll\<close> can fail, and what it makes is there.
\<close>

section \<open>Paths\<close>

type_synonym path = string

text \<open>\<open>filepath.Ext\<close>: from the last dot of the last element.\<close>

definition filepath_Ext :: "path \<Rightarrow> string" where
  "filepath_Ext p =
     (let r = takeWhile (\<lambda>c. c \<noteq> CHR ''/'') (rev p) in
      if CHR ''.'' \<in> set r then CHR ''.'' # rev (takeWhile (\<lambda>c. c \<noteq> CHR ''.'') r) else [])"

text \<open>\<open>filepath.Base\<close>: the last element, without the slashes behind it.\<close>

definition filepath_Base :: "path \<Rightarrow> string" where
  "filepath_Base p =
     (if p = [] then ''.''
      else let r = dropWhile (\<lambda>c. c = CHR ''/'') (rev p) in
        if r = [] then ''/'' else rev (takeWhile (\<lambda>c. c \<noteq> CHR ''/'') r))"

definition TrimSuffix :: "string \<Rightarrow> string \<Rightarrow> string" where
  "TrimSuffix s suf =
     (if length suf \<le> length s \<and> drop (length s - length suf) s = suf
      then take (length s - length suf) s else s)"

lemma rev_split: "rev p = a @ b \<Longrightarrow> p = rev b @ rev a"
  by (metis rev_append rev_rev_ident)

lemma filepath_Ext_suffix: "\<exists>s. p = s @ filepath_Ext p"
proof (cases "CHR ''.'' \<in> set (takeWhile (\<lambda>c. c \<noteq> CHR ''/'') (rev p))")
  case True
  let ?r = "takeWhile (\<lambda>c. c \<noteq> CHR ''/'') (rev p)"
  obtain c t where t: "dropWhile (\<lambda>c. c \<noteq> CHR ''.'') ?r = c # t" and c: "c = CHR ''.''"
    using True hd_dropWhile [of "\<lambda>c. c \<noteq> CHR ''.''" ?r]
    by (cases "dropWhile (\<lambda>c. c \<noteq> CHR ''.'') ?r") (auto simp: dropWhile_eq_Nil_conv)
  have "?r = takeWhile (\<lambda>c. c \<noteq> CHR ''.'') ?r @ CHR ''.'' # t"
    using t c by (metis takeWhile_dropWhile_id)
  moreover have "rev p = ?r @ dropWhile (\<lambda>c. c \<noteq> CHR ''/'') (rev p)" by simp
  ultimately have "rev p = (takeWhile (\<lambda>c. c \<noteq> CHR ''.'') ?r @ [CHR ''.'']) @ t
      @ dropWhile (\<lambda>c. c \<noteq> CHR ''/'') (rev p)" by (metis append_Cons append_Nil append_assoc)
  then have "p = rev (t @ dropWhile (\<lambda>c. c \<noteq> CHR ''/'') (rev p)) @
      rev (takeWhile (\<lambda>c. c \<noteq> CHR ''.'') ?r @ [CHR ''.''])"
    by (rule rev_split)
  moreover have "filepath_Ext p = rev (takeWhile (\<lambda>c. c \<noteq> CHR ''.'') ?r @ [CHR ''.''])"
    using True by (simp add: filepath_Ext_def Let_def)
  ultimately show ?thesis by metis
qed (simp add: filepath_Ext_def Let_def)

lemma TrimSuffix_append [simp]: "TrimSuffix (s @ suf) suf = s"
  by (simp add: TrimSuffix_def)

section \<open>The world\<close>

text \<open>
  A fault gives the error of the call and, for a read or a write, how many bytes went
  through before it.
\<close>

datatype fault = Fine | Fault nat error

record os =
  names :: "path \<Rightarrow> nat option"
  inodes :: "nat \<Rightarrow> bytes"
  unused :: nat
  faults :: "fault list"
  entropy :: "nat \<Rightarrow> bytes"
  drawn :: nat

text \<open>No name leads to an inode that is still to be made.\<close>

definition os_ok :: "os \<Rightarrow> bool" where
  "os_ok w \<longleftrightarrow> (\<forall>p i. names w p = Some i \<longrightarrow> i < unused w)"

definition next_fault :: "os \<Rightarrow> fault" where
  "next_fault w = (case faults w of [] \<Rightarrow> Fine | f # _ \<Rightarrow> f)"

definition spend :: "os \<Rightarrow> os" where
  "spend w = w\<lparr>faults := tl (faults w)\<rparr>"

definition calm :: "os \<Rightarrow> bool" where
  "calm w \<longleftrightarrow> faults w = []"

text \<open>\<open>rand.Read\<close>, which never fails.\<close>

definition rand_Read :: "os \<Rightarrow> bytes \<times> os" where
  "rand_Read w = (entropy w (drawn w), w\<lparr>drawn := Suc (drawn w)\<rparr>)"

section \<open>Files\<close>

definition not_exist :: error where
  "not_exist = Sentinel ErrNotExist"

definition os_MkdirAll :: "path \<Rightarrow> os \<Rightarrow> error option \<times> os" where
  "os_MkdirAll p w = (case next_fault w of
     Fine \<Rightarrow> (None, spend w) | Fault _ e \<Rightarrow> (Some e, spend w))"

text \<open>\<open>os.Open\<close> for reading, then all that is read and the error that stopped it.\<close>

definition os_Open :: "path \<Rightarrow> os \<Rightarrow> nat result \<times> os" where
  "os_Open p w = (case next_fault w of
     Fault _ e \<Rightarrow> (Inl e, spend w)
   | Fine \<Rightarrow> (case names w p of None \<Rightarrow> (Inl not_exist, spend w) | Some i \<Rightarrow> (Inr i, spend w)))"

definition os_read :: "nat \<Rightarrow> os \<Rightarrow> bytes \<times> error option \<times> os" where
  "os_read i w = (case next_fault w of
     Fine \<Rightarrow> (inodes w i, None, spend w)
   | Fault n e \<Rightarrow> (take n (inodes w i), Some e, spend w))"

text \<open>\<open>os.OpenFile\<close> with \<open>O_CREATE | O_WRONLY | O_APPEND\<close>.\<close>

definition os_OpenAppend :: "path \<Rightarrow> os \<Rightarrow> nat result \<times> os" where
  "os_OpenAppend p w = (case next_fault w of
     Fault _ e \<Rightarrow> (Inl e, spend w)
   | Fine \<Rightarrow> (case names w p of
       Some i \<Rightarrow> (Inr i, spend w)
     | None \<Rightarrow> (Inr (unused w), (spend w)\<lparr>names := (names w)(p \<mapsto> unused w),
                   inodes := (inodes w)(unused w := []), unused := Suc (unused w)\<rparr>)))"

definition os_Write :: "nat \<Rightarrow> bytes \<Rightarrow> os \<Rightarrow> error option \<times> os" where
  "os_Write i b w = (case next_fault w of
     Fine \<Rightarrow> (None, (spend w)\<lparr>inodes := (inodes w)(i := inodes w i @ b)\<rparr>)
   | Fault n e \<Rightarrow> (Some e, (spend w)\<lparr>inodes := (inodes w)(i := inodes w i @ take n b)\<rparr>))"

definition os_Sync :: "nat \<Rightarrow> os \<Rightarrow> error option \<times> os" where
  "os_Sync i w = (case next_fault w of
     Fine \<Rightarrow> (None, spend w) | Fault _ e \<Rightarrow> (Some e, spend w))"

definition os_Close :: "nat \<Rightarrow> os \<Rightarrow> error option \<times> os" where
  "os_Close i w = (case next_fault w of
     Fine \<Rightarrow> (None, spend w) | Fault _ e \<Rightarrow> (Some e, spend w))"

text \<open>\<open>os.Rename\<close>: the new name now leads to the old file.\<close>

definition os_Rename :: "path \<Rightarrow> path \<Rightarrow> os \<Rightarrow> error option \<times> os" where
  "os_Rename p q w = (case next_fault w of
     Fault _ e \<Rightarrow> (Some e, spend w)
   | Fine \<Rightarrow> (case names w p of
       None \<Rightarrow> (Some not_exist, spend w)
     | Some i \<Rightarrow> (None, (spend w)\<lparr>names := (names w)(p := None, q := Some i)\<rparr>)))"

definition os_ReadFile :: "path \<Rightarrow> os \<Rightarrow> bytes result \<times> os" where
  "os_ReadFile p w = (case os_Open p w of
     (Inl e, w1) \<Rightarrow> (Inl e, w1)
   | (Inr i, w1) \<Rightarrow> (case os_read i w1 of
       (b, None, w2) \<Rightarrow> (Inr b, w2) | (b, Some e, w2) \<Rightarrow> (Inl e, w2)))"

text \<open>\<open>os.WriteFile\<close>: create or truncate, then write.\<close>

definition os_WriteFile :: "path \<Rightarrow> bytes \<Rightarrow> os \<Rightarrow> error option \<times> os" where
  "os_WriteFile p b w = (case os_OpenAppend p w of
     (Inl e, w1) \<Rightarrow> (Some e, w1)
   | (Inr i, w1) \<Rightarrow> os_Write i b (w1\<lparr>inodes := (inodes w1)(i := [])\<rparr>))"

definition os_Stat :: "path \<Rightarrow> os \<Rightarrow> error option \<times> os" where
  "os_Stat p w = (case next_fault w of
     Fault _ e \<Rightarrow> (Some e, spend w)
   | Fine \<Rightarrow> ((if names w p = None then Some not_exist else None), spend w))"

definition file_at :: "os \<Rightarrow> path \<Rightarrow> bytes option" where
  "file_at w p = map_option (inodes w) (names w p)"

section \<open>The calls when nothing fails\<close>

lemma calm_simps [os_simps]:
  assumes "calm w"
  shows "next_fault w = Fine" "spend w = w"
  using assms by (simp_all add: calm_def next_fault_def spend_def)

lemma calm_updates [simp]:
  "calm (w\<lparr>names := n\<rparr>) = calm w" "calm (w\<lparr>inodes := i\<rparr>) = calm w"
  "calm (w\<lparr>unused := u\<rparr>) = calm w" "calm (w\<lparr>drawn := d\<rparr>) = calm w"
  by (simp_all add: calm_def)

lemma calm_calls [os_simps]:
  assumes "calm w"
  shows "os_MkdirAll p w = (None, w)"
    "os_Open p w = (case names w p of None \<Rightarrow> (Inl not_exist, w) | Some i \<Rightarrow> (Inr i, w))"
    "os_read i w = (inodes w i, None, w)"
    "os_Write i b w = (None, w\<lparr>inodes := (inodes w)(i := inodes w i @ b)\<rparr>)"
    "os_Sync i w = (None, w)" "os_Close i w = (None, w)"
    "os_Stat p w = ((if names w p = None then Some not_exist else None), w)"
    "os_Rename p q w = (case names w p of None \<Rightarrow> (Some not_exist, w)
       | Some j \<Rightarrow> (None, w\<lparr>names := (names w)(p := None, q := Some j)\<rparr>))"
    "os_OpenAppend p w = (case names w p of Some j \<Rightarrow> (Inr j, w)
       | None \<Rightarrow> (Inr (unused w), w\<lparr>names := (names w)(p \<mapsto> unused w),
                   inodes := (inodes w)(unused w := []), unused := Suc (unused w)\<rparr>))"
  using assms
  by (simp_all add: os_MkdirAll_def os_Open_def os_read_def os_Write_def os_Sync_def os_Close_def
      os_Stat_def os_Rename_def os_OpenAppend_def calm_simps cong: option.case_cong)

lemma calm_ReadFile [os_simps]:
  "calm w \<Longrightarrow> os_ReadFile p w =
     (case file_at w p of None \<Rightarrow> (Inl not_exist, w) | Some b \<Rightarrow> (Inr b, w))"
  by (simp add: os_ReadFile_def file_at_def calm_calls split: option.split)

lemma rand_Read_calm [simp]: "calm (snd (rand_Read w)) = calm w"
  by (simp add: rand_Read_def)

section \<open>Reading\<close>

text \<open>Reading leaves every file as it is; what it returns is there, whatever the schedule of faults.\<close>

definition same_files :: "os \<Rightarrow> os \<Rightarrow> bool" where
  "same_files w w' \<longleftrightarrow> names w' = names w \<and> inodes w' = inodes w"

lemma same_files_at: "same_files w w' \<Longrightarrow> file_at w' = file_at w"
  unfolding same_files_def file_at_def by metis

lemma same_files_refl [simp]: "same_files w w"
  by (simp add: same_files_def)

lemma same_files_trans: "same_files a b \<Longrightarrow> same_files b c \<Longrightarrow> same_files a c"
  by (simp add: same_files_def)

lemma ReadFile_reads:
  assumes "os_ReadFile p w = (x, w')"
  shows "same_files w w'" "x = Inr b \<Longrightarrow> file_at w p = Some b"
  using assms
  by (auto simp: os_ReadFile_def os_Open_def os_read_def spend_def same_files_def file_at_def
      split: fault.splits option.splits prod.splits)

end
