(* ===== verification/Store_Text.thy ===== *)
theory Store_Text
  imports Evidence_Tamper Go_Os
begin

text \<open>
  The text of a store's file (\<open>readRecords\<close> in \<open>internal/core/store.go\<close>): how it is split
  into lines and decoded, the text a list of records is written as, and that this text is
  read back as the list (\<open>read_text_of\<close>).
\<close>

section \<open>Reading\<close>

definition newline :: char where "newline = CHR 0x0A"
definition carriage_return :: char where "carriage_return = CHR 0x0D"

text \<open>The lines as \<open>bufio.Scanner\<close> splits them: the last one need not be terminated.\<close>

fun lines_from :: "bytes \<Rightarrow> bytes \<Rightarrow> bytes list" where
  "lines_from acc [] = (if acc = [] then [] else [rev acc])"
| "lines_from acc (c # s) =
     (if c = newline then rev acc # lines_from [] s else lines_from (c # acc) s)"

definition lines :: "bytes \<Rightarrow> bytes list" where
  "lines s = lines_from [] s"

definition drop_cr :: "bytes \<Rightarrow> bytes" where
  "drop_cr l = (if l \<noteq> [] \<and> last l = carriage_return then butlast l else l)"

text \<open>The scanner's buffer: a line of this many bytes is too long.\<close>

definition max_line :: nat where
  "max_line = 16 * 1024 * 1024"

fun read_from :: "path \<Rightarrow> nat \<Rightarrow> bytes list \<Rightarrow> evidence_record list result" where
  "read_from p n [] = Inr []"
| "read_from p n (l # ls) =
     (if max_line \<le> length l
        then Inl (Errorf ''read store %s: %w'' [Str p] (Some (External ''bufio.Scanner: token too long'')))
      else if drop_cr l = [] then read_from p (Suc n) ls
      else bindr (wrap ''store %s line %d: decode record: %w'' [Str p, Num (int (Suc n))]
             (unmarshal_record (drop_cr l))) (\<lambda>r.
           bindr (read_from p (Suc n) ls) (\<lambda>rs. Inr (r # rs))))"


section \<open>Lines\<close>

text \<open>A rendered tree is one line: no raw string and no literal holds a control character.\<close>

lemma scan_digits_visible:
  assumes "scan_digits s = Some (a, b)" "x \<in> set a"
  shows "32 \<le> code x"
proof -
  have "a = takeWhile is_digit s" using assms(1) by (simp add: scan_digits_def split: if_splits)
  with assms(2) have "is_digit x" by (metis set_takeWhileD)
  then show ?thesis by (simp add: is_digit_def)
qed

lemma scan_number_visible:
  assumes "scan_number s = Some (a, b)"
  shows "\<forall>x\<in>set a. 32 \<le> code x"
proof -
  define sg where "sg = takeWhile (\<lambda>c. c = CHR ''-'') (take 1 s)"
  from assms obtain i r1 f r2 e r3 where s: "scan_int (drop (length sg) s) = Some (i, r1)"
    "scan_frac r1 = Some (f, r2)" "scan_exp r2 = Some (e, r3)" "a = sg @ i @ f @ e"
    by (auto simp: scan_number_def sg_def Let_def split: option.splits)
  have "\<forall>x\<in>set sg. 32 \<le> code x"
    by (auto simp: sg_def code_def dest!: set_takeWhileD)
  moreover have "\<forall>x\<in>set i. 32 \<le> code x"
    using s(1) by (auto simp: scan_int_def code_def [of "CHR ''0''"] dest: scan_digits_visible split: list.splits if_splits)
  moreover have "\<forall>x\<in>set f. 32 \<le> code x"
    using s(2) by (auto simp: scan_frac_def code_def [of "CHR ''.''"] dest: scan_digits_visible split: list.splits if_splits)
  moreover have "\<forall>x\<in>set e. 32 \<le> code x"
    using s(3) by (auto simp: scan_exp_def code_def [of "CHR ''e''"] code_def [of "CHR ''E''"]
      code_def [of "CHR ''+''"] code_def [of "CHR ''-''"] dest: scan_digits_visible split: list.splits if_splits)
  ultimately show ?thesis using s(4) by auto
qed

lemma lit_ok_visible: "lit_ok s \<Longrightarrow> x \<in> set s \<Longrightarrow> 32 \<le> code x"
proof -
  assume "lit_ok s" and x: "x \<in> set s"
  then have "scan_literal s = Some (s, [])"
    using delim_simps(1) by (metis append_Nil2 lit_ok_def)
  then have "s \<in> {''null'', ''true'', ''false''} \<or> scan_number s = Some (s, [])"
    by (auto simp: scan_literal_def split: if_splits)
  with x show ?thesis using scan_number_visible [of s s "[]"] by (auto simp: code_def)
qed

lemma hex4_visible: "hex4 [h, i, j, k] \<noteq> None \<Longrightarrow> x \<in> {h, i, j, k} \<Longrightarrow> 32 \<le> code x"
proof -
  have v: "hex_val c \<noteq> None \<Longrightarrow> 32 \<le> code c" for c by (auto simp: hex_val_def split: if_splits)
  assume "hex4 [h, i, j, k] \<noteq> None"
  then have "hex_val h \<noteq> None" "hex_val i \<noteq> None" "hex_val j \<noteq> None" "hex_val k \<noteq> None"
    by (auto simp: hex4_def split: option.splits)
  then show "x \<in> {h, i, j, k} \<Longrightarrow> 32 \<le> code x" using v by auto
qed

lemma scan_string_visible: "scan_string s = Some (a, b) \<Longrightarrow> \<forall>x\<in>set a. 32 \<le> code x"
proof (induction s arbitrary: a b rule: length_induct)
  case (1 s)
  from "1.prems" obtain c s' where s: "s = c # s'" by (cases s) auto
  have IH: "\<forall>x\<in>set a. 32 \<le> code x" if "length t < length s" "scan_string t = Some (a, b)" for t a b
    using "1.IH" that by blast
  consider (quote) "c = dquote" | (esc) "c = bslash" | (plain) "c \<noteq> dquote" "c \<noteq> bslash" by blast
  then show ?case
  proof cases
    case quote
    with "1.prems" s show ?thesis by simp
  next
    case esc
    with "1.prems" s obtain e t where t: "s' = e # t" by (cases s') auto
    show ?thesis
    proof (cases "e = CHR ''u''")
      case True
      with esc s t "1.prems" obtain h i j k u y where u: "t = h # i # j # k # u"
        and h: "hex4 [h, i, j, k] \<noteq> None"
        and y: "scan_string u = Some (y, b)" and a: "a = c # e # h # i # j # k # y"
        by (auto split: list.splits if_splits)
      have "\<forall>x\<in>set [h, i, j, k]. 32 \<le> code x"
        using hex4_visible [OF h] by simp
      moreover have "\<forall>x\<in>set y. 32 \<le> code x" using IH [OF _ y] s t u by simp
      ultimately show ?thesis using a esc True by (auto simp: code_def [of "CHR ''u''"])
    next
      case False
      with "1.prems" s esc t obtain a' where a: "a = c # e # a'" "scan_string t = Some (a', b)"
        "e \<in> set ''/bfnrt'' \<union> {dquote, bslash}"
        by (auto split: if_splits)
      then have "32 \<le> code e" by (auto simp: code_def)
      with a IH [of t a' b] s t esc show ?thesis by auto
    qed
  next
    case plain
    with "1.prems" s obtain a' where "a = c # a'" "scan_string s' = Some (a', b)" "32 \<le> code c"
      by (auto split: if_splits)
    with IH [of s' a' b] s show ?thesis by auto
  qed
qed


lemma str_body_visible: "str_body s \<Longrightarrow> \<forall>x\<in>set s. 32 \<le> code x"
  using scan_string_visible [of "s @ [dquote]" s "[]"] str_body_scan [of s "[]"] by simp

lemma commas_set: "x \<in> set (commas bs) \<Longrightarrow> x = CHR '','' \<or> (\<exists>b\<in>set bs. x \<in> set b)"
  by (induction bs rule: commas.induct) auto

lemma render_visible: "wf_json v \<Longrightarrow> x \<in> set (render v) \<Longrightarrow> 32 \<le> code x"
proof (induction v)
  case (JLit s)
  then show ?case using lit_ok_visible by simp
next
  case (JStr s)
  then show ?case using str_body_visible [of s] by (auto simp: quoted_def)
next
  case (JArr vs)
  then show ?case by (auto simp: code_def dest!: commas_set)
next
  case (JObj kvs)
  have "32 \<le> code x" if kv: "kv \<in> set kvs" "x \<in> set (member_text kv)" for kv
  proof -
    obtain k v where p: "kv = (k, v)" by fastforce
    have "\<forall>x\<in>set k. 32 \<le> code x" "x \<in> set (render v) \<longrightarrow> 32 \<le> code x"
      using JObj kv p str_body_visible [of k] by (force simp: snds.simps)+
    with kv p show ?thesis by (auto simp: member_text_pair code_def [of "CHR '':''"])
  qed
  with JObj.prems(2) show ?case
    by (auto simp: render_JObj code_def [of "CHR ''{''"] code_def [of "CHR ''}''"]
      code_def [of "CHR '',''"] simp del: render.simps(4) dest!: commas_set)
qed

lemma lines_from_line:
  "newline \<notin> set b \<Longrightarrow> lines_from acc (b @ newline # s) = (rev acc @ b) # lines_from [] s"
  by (induction b arbitrary: acc) auto

lemma lines_from_end: "newline \<notin> set b \<Longrightarrow> lines_from acc b = (if acc = [] \<and> b = [] then [] else [rev acc @ b])"
  by (induction b arbitrary: acc) auto

lemma lines_Nil [simp]: "lines [] = []"
  by (simp add: lines_def)

lemma lines_line: "newline \<notin> set b \<Longrightarrow> lines (b @ newline # s) = b # lines s"
  by (simp add: lines_def lines_from_line)

text \<open>A record's line: neither its newline nor a carriage return is in it.\<close>

lemma marshal_line:
  assumes "wf_record r" "marshal_record r = Inr b"
  shows "newline \<notin> set b" "drop_cr b = b" "b \<noteq> []"
proof -
  obtain at v where "format_time (CollectedAt r) = Some at" "wf_json v" "depth v < 10000"
    and b: "b = render (JObj (record_fields r at v))"
    using marshal_record_tree [of r b thesis] assms by (simp add: wf_record_def del: render.simps)
  then have wf: "wf_json (JObj (record_fields r at v))" by (simp add: record_fields_wf del: wf_json.simps)
  have "32 \<le> code x" if "x \<in> set b" for x using render_visible [OF wf] that b by simp
  then show "newline \<notin> set b" by (force simp: newline_def code_def)
  show "b \<noteq> []" using b by simp
  have "last b = CHR ''}''" using b by (simp add: render_JObj del: render.simps)
  then show "drop_cr b = b" by (simp add: drop_cr_def carriage_return_def)
qed

section \<open>The text of a list of records\<close>

definition record_line :: "evidence_record \<Rightarrow> bytes" where
  "record_line r = (case marshal_record r of Inl e \<Rightarrow> [] | Inr b \<Rightarrow> b @ [newline])"

definition text_of :: "evidence_record list \<Rightarrow> bytes" where
  "text_of rs = concat (map record_line rs)"

text \<open>A record that is read back as it is written, in a line the scanner takes.\<close>

definition storable :: "evidence_record \<Rightarrow> bool" where
  "storable r \<longleftrightarrow> wf_record r \<and> (case marshal_record r of Inl e \<Rightarrow> False | Inr b \<Rightarrow> length b < max_line)"

lemma text_of_simps [simp]:
  "text_of [] = []" "text_of (r # rs) = record_line r @ text_of rs"
  "text_of (rs @ ss) = text_of rs @ text_of ss"
  by (simp_all add: text_of_def)

lemma read_text:
  "\<forall>r\<in>set rs. storable r \<Longrightarrow> read_from p n (lines (text_of rs @ s)) =
     bindr (read_from p (n + length rs) (lines s)) (\<lambda>ss. Inr (rs @ ss))"
proof (induction rs arbitrary: n)
  case Nil
  then show ?case by (cases "read_from p n (lines s)") auto
next
  case (Cons r rs)
  then obtain b where b: "marshal_record r = Inr b" "length b < max_line" and r: "wf_record r"
    by (auto simp: storable_def split: sum.splits)
  have "lines (text_of (r # rs) @ s) = b # lines (text_of rs @ s)"
    using marshal_line [OF r b(1)] b by (simp add: record_line_def lines_line)
  moreover have "unmarshal_record b = Inr r" using r b by (intro unmarshal_marshal)
  ultimately show ?case
    using Cons marshal_line [OF r b(1)] b by (cases "read_from p (Suc n + length rs) (lines s)") auto
qed

lemma read_text_of [roundtrip]:
  "\<forall>r\<in>set rs. storable r \<Longrightarrow> read_from p n (lines (text_of rs)) = Inr rs"
  using read_text [of rs p n "[]"] by simp

end
