(* ===== verification/File_Store.thy ===== *)
theory File_Store
  imports Store_Text
begin

text \<open>
  The evidence store (\<open>internal/core/store.go\<close>): one JSON object per line in an
  append-only file, verified when it is opened, rotated when its oldest record is too old.
  The operations are the code's, over the world of \<open>Go_Os\<close>; the mutex makes each one
  a single step. A fault of the schedule hits the system call it is at.
\<close>

section \<open>Reading\<close>

definition readRecords :: "path \<Rightarrow> os \<Rightarrow> evidence_record list result \<times> os" where
  "readRecords p w = (case os_Open p w of
     (Inl e, w1) \<Rightarrow>
       (if errors_is e ErrNotExist then Inr [] else Inl (Errorf ''open store %s: %w'' [Str p] (Some e)), w1)
   | (Inr i, w1) \<Rightarrow> (case os_read i w1 of
       (b, err, w2) \<Rightarrow>
         (bindr (read_from p 0 (lines b)) (\<lambda>rs. case err of
            None \<Rightarrow> Inr rs
          | Some e \<Rightarrow> Inl (Errorf ''read store %s: %w'' [Str p] (Some e))), w2)))"

definition ReadStoreRecords :: "path \<Rightarrow> os \<Rightarrow> evidence_record list result \<times> os" where
  "ReadStoreRecords = readRecords"

section \<open>The store\<close>

record file_store =
  spath :: path
  sfile :: nat
  sclosed :: bool
  schain :: chain
  scount :: nat
  firstAt :: gotime

text \<open>Calls on the store's handle: a closed one only gives an error.\<close>

definition file_Write :: "file_store \<Rightarrow> bytes \<Rightarrow> os \<Rightarrow> error option \<times> os" where
  "file_Write s b w = (if sclosed s then (Some (Sentinel ErrClosed), w) else os_Write (sfile s) b w)"

definition file_Sync :: "file_store \<Rightarrow> os \<Rightarrow> error option \<times> os" where
  "file_Sync s w = (if sclosed s then (Some (Sentinel ErrClosed), w) else os_Sync (sfile s) w)"

definition file_Close :: "file_store \<Rightarrow> os \<Rightarrow> error option \<times> file_store \<times> os" where
  "file_Close s w =
     (if sclosed s then (Some (Sentinel ErrClosed), s, w)
      else case os_Close (sfile s) w of (e, w') \<Rightarrow> (e, s\<lparr>sclosed := True\<rparr>, w'))"

definition OpenFileStore :: "digest \<Rightarrow> path \<Rightarrow> os \<Rightarrow> file_store result \<times> os" where
  "OpenFileStore H p w = (case os_MkdirAll p w of
     (Some e, w1) \<Rightarrow> (Inl (Errorf ''create store directory: %w'' [] (Some e)), w1)
   | (None, w1) \<Rightarrow> (case readRecords p w1 of
       (Inl e, w2) \<Rightarrow> (Inl e, w2)
     | (Inr existing, w2) \<Rightarrow> (case Verify H existing of
         Some e \<Rightarrow> (Inl (Errorf ''verify existing store %s: %w'' [Str p] (Some e)), w2)
       | None \<Rightarrow> (case os_OpenAppend p w2 of
           (Inl e, w3) \<Rightarrow> (Inl (Errorf ''open store %s: %w'' [Str p] (Some e)), w3)
         | (Inr i, w3) \<Rightarrow>
             (Inr \<lparr>spath = p, sfile = i, sclosed = False,
                   schain = Resume (if existing = [] then [] else Hash (last existing)),
                   scount = length existing,
                   firstAt = (if existing = [] then zero_time else CollectedAt (hd existing))\<rparr>, w3)))))"

text \<open>
  \<open>appendLocked\<close>: seal, encode, write, sync; the record is changed in place. The chain
  has moved on once the record is sealed, whatever happens after that. Only a record without
  an identifier draws random bytes.
\<close>

definition draw_id :: "evidence_record \<Rightarrow> os \<Rightarrow> bytes \<times> os" where
  "draw_id r w = (if Hash r = [] \<and> ID r = [] then rand_Read w else ([], w))"

definition appendLocked ::
  "digest \<Rightarrow> evidence_record \<Rightarrow> file_store \<Rightarrow> os \<Rightarrow>
   error option \<times> evidence_record \<times> file_store \<times> os" where
  "appendLocked H r s w =
     (case draw_id r w of (d, w0) \<Rightarrow>
      case Seal H d (schain s) r of
        (Some e, c, r1) \<Rightarrow> (Some e, r1, s\<lparr>schain := c\<rparr>, w0)
      | (None, c, r1) \<Rightarrow>
          let s1 = s\<lparr>schain := c\<rparr> in
          (case marshal_record r1 of
             Inl e \<Rightarrow> (Some (Errorf ''encode record %s: %w'' [Str (ID r1)] (Some e)), r1, s1, w0)
           | Inr b \<Rightarrow> (case file_Write s1 (b @ [newline]) w0 of
               (Some e, w1) \<Rightarrow> (Some (Errorf ''write record %s: %w'' [Str (ID r1)] (Some e)), r1, s1, w1)
             | (None, w1) \<Rightarrow> (case file_Sync s1 w1 of
                 (Some e, w2) \<Rightarrow> (Some (Errorf ''sync store: %w'' [] (Some e)), r1, s1, w2)
               | (None, w2) \<Rightarrow>
                   (None, r1, s1\<lparr>firstAt := (if scount s = 0 then CollectedAt r1 else firstAt s),
                                  scount := Suc (scount s)\<rparr>, w2)))))"

definition Append ::
  "digest \<Rightarrow> evidence_record \<Rightarrow> file_store \<Rightarrow> os \<Rightarrow>
   error option \<times> evidence_record \<times> file_store \<times> os" where
  "Append = appendLocked"

definition TargetTypeChainRotation :: string where
  "TargetTypeChainRotation = ''evidenced/chain-rotation''"

definition archive_path :: "path \<Rightarrow> gotime \<Rightarrow> path" where
  "archive_path p now =
     TrimSuffix p (filepath_Ext p) @ ''-'' @ stamp (utc now) @ ''Z'' @ filepath_Ext p"

definition rotation_tree :: "string \<Rightarrow> nat \<Rightarrow> path \<Rightarrow> json" where
  "rotation_tree prevHead prevCount archive = JObj
     [(''archivedTo'', jstr (filepath_Base archive)), (''previousChainHead'', jstr prevHead),
      (''previousChainRecords'', JLit (dec_digits prevCount))]"

definition rotation_record :: "string \<Rightarrow> nat \<Rightarrow> path \<Rightarrow> gotime \<Rightarrow> evidence_record" where
  "rotation_record prevHead prevCount archive now = zero_record
     \<lparr>CollectorID := ''evidenced'', CollectorVersion := ''1'',
      Target := \<lparr>TType = TargetTypeChainRotation, TName = filepath_Base archive, TAttributes = []\<rparr>,
      CollectedAt := utc now, Outcome := OutcomeObserved,
      Observation := render (rotation_tree prevHead prevCount archive)\<rparr>"

definition MaybeRotate ::
  "digest \<Rightarrow> int \<Rightarrow> gotime \<Rightarrow> file_store \<Rightarrow> os \<Rightarrow> string result \<times> file_store \<times> os" where
  "MaybeRotate H maxAge now s w =
     (if scount s = 0 \<or> is_zero (firstAt s) \<or> time_sub now (firstAt s) < maxAge then (Inr [], s, w)
      else
        let prevHead = LastHash (schain s); prevCount = scount s; archive = archive_path (spath s) now in
        (case file_Close s w of
           (Some e, s1, w1) \<Rightarrow> (Inl (Errorf ''close store for rotation: %w'' [] (Some e)), s1, w1)
         | (None, s1, w1) \<Rightarrow> (case os_Rename (spath s) archive w1 of
             (Some e, w2) \<Rightarrow> (Inl (Errorf ''archive store: %w'' [] (Some e)), s1, w2)
           | (None, w2) \<Rightarrow> (case os_OpenAppend (spath s) w2 of
               (Inl e, w3) \<Rightarrow> (Inl (Errorf ''open rotated store: %w'' [] (Some e)), s1, w3)
             | (Inr i, w3) \<Rightarrow>
                 let s2 = s1\<lparr>sfile := i, sclosed := False, schain := NewChain, scount := 0, firstAt := zero_time\<rparr> in
                 (case appendLocked H (rotation_record prevHead prevCount archive now) s2 w3 of
                    (Some e, _, s3, w4) \<Rightarrow> (Inl (Errorf ''write rotation record: %w'' [] (Some e)), s3, w4)
                  | (None, _, s3, w4) \<Rightarrow> (Inr archive, s3, w4))))))"

definition All :: "file_store \<Rightarrow> os \<Rightarrow> evidence_record list result \<times> os" where
  "All s w = readRecords (spath s) w"

definition store_Verify :: "digest \<Rightarrow> file_store \<Rightarrow> os \<Rightarrow> error option \<times> os" where
  "store_Verify H s w = (case All s w of
     (Inl e, w1) \<Rightarrow> (Some e, w1) | (Inr rs, w1) \<Rightarrow> (Verify H rs, w1))"

definition Count :: "file_store \<Rightarrow> nat" where
  "Count s = scount s"

definition Close :: "file_store \<Rightarrow> os \<Rightarrow> error option \<times> file_store \<times> os" where
  "Close = file_Close"

section \<open>The store's invariant\<close>

text \<open>
  A store that holds the records \<open>rs\<close>: its open file is the one at its path, its text is
  that of the records, they form an intact chain, and what the store keeps in memory agrees
  with them.
\<close>

definition store_ok :: "digest \<Rightarrow> file_store \<Rightarrow> os \<Rightarrow> evidence_record list \<Rightarrow> bool" where
  "store_ok H s w rs \<longleftrightarrow> \<not> sclosed s \<and> os_ok w \<and> names w (spath s) = Some (sfile s)
     \<and> inodes w (sfile s) = text_of rs \<and> (\<forall>r\<in>set rs. storable r) \<and> intact H rs
     \<and> lastHash (schain s) = head_hash rs \<and> scount s = length rs
     \<and> firstAt s = (if rs = [] then zero_time else CollectedAt (hd rs))"

lemma readRecords_text [store_simps]:
  assumes "calm w" "file_at w p = Some (text_of rs @ b)" "\<forall>r\<in>set rs. storable r"
  shows "readRecords p w = (bindr (read_from p (length rs) (lines b)) (\<lambda>ss. Inr (rs @ ss)), w)"
proof -
  obtain i where "names w p = Some i" "inodes w i = text_of rs @ b"
    using assms(2) by (auto simp: file_at_def)
  then show ?thesis
    using assms(1) read_text [OF assms(3), of p 0 b]
    by (cases "read_from p (length rs) (lines b)") (simp_all add: readRecords_def calm_calls)
qed

lemma readRecords_ok:
  assumes "calm w" "file_at w p = Some (text_of rs)" "\<forall>r\<in>set rs. storable r"
  shows "readRecords p w = (Inr rs, w)"
  using readRecords_text [OF assms(1) _ assms(3), of p "[]"] assms(2) by simp

lemma readRecords_missing: "calm w \<Longrightarrow> file_at w p = None \<Longrightarrow> readRecords p w = (Inr [], w)"
  by (simp add: readRecords_def calm_calls file_at_def not_exist_def)

lemma store_ok_All: "calm w \<Longrightarrow> store_ok H s w rs \<Longrightarrow> All s w = (Inr rs, w)"
  unfolding All_def by (rule readRecords_ok) (simp_all add: store_ok_def file_at_def)

lemma store_ok_Verify: "calm w \<Longrightarrow> store_ok H s w rs \<Longrightarrow> store_Verify H s w = (None, w)"
  by (simp add: store_Verify_def store_ok_All Verify_None_iff) (simp add: store_ok_def)

section \<open>Opening\<close>

definition stored_at :: "os \<Rightarrow> path \<Rightarrow> evidence_record list \<Rightarrow> bool" where
  "stored_at w p rs \<longleftrightarrow> (\<forall>r\<in>set rs. storable r) \<and>
     (file_at w p = Some (text_of rs) \<or> file_at w p = None \<and> rs = [])"

lemma stored_at_read: "calm w \<Longrightarrow> stored_at w p rs \<Longrightarrow> readRecords p w = (Inr rs, w)"
  by (auto simp: stored_at_def readRecords_ok readRecords_missing)

lemma OpenFileStore_intact:
  assumes "calm w" "os_ok w" "stored_at w p rs" "intact H rs"
  shows "\<exists>s w'. OpenFileStore H p w = (Inr s, w') \<and> calm w' \<and> store_ok H s w' rs \<and> spath s = p
    \<and> (\<forall>q. q \<noteq> p \<longrightarrow> file_at w' q = file_at w q)"
proof (cases "names w p")
  case None
  then have "rs = []" using assms(3) by (auto simp: stored_at_def file_at_def)
  moreover have "names w q \<noteq> Some (unused w)" for q using assms(2) by (auto simp: os_ok_def)
  moreover note None assms stored_at_read [OF assms(1,3)]
  ultimately show ?thesis
    by (auto simp: OpenFileStore_def calm_calls Verify_def store_ok_def os_ok_def Resume_def
        file_at_def intro: less_SucI split: option.splits intro!: option.map_cong0)
next
  case (Some i)
  have "Verify H rs = None" using assms(4) by (simp add: Verify_None_iff)
  moreover have "inodes w i = text_of rs" "\<forall>r\<in>set rs. storable r"
    using Some assms(3) by (auto simp: stored_at_def file_at_def)
  ultimately show ?thesis
    using Some assms stored_at_read [OF assms(1,3)]
    by (simp add: OpenFileStore_def calm_calls store_ok_def Resume_def head_hash_def)
qed

text \<open>Whatever the file holds that does not verify, the store does not open and nothing changes.\<close>

lemma OpenFileStore_refuses:
  assumes "calm w" "readRecords p w = (Inr rs, w)" "\<not> intact H rs"
  shows "\<exists>e. OpenFileStore H p w = (Inl (Errorf ''verify existing store %s: %w'' [Str p] (Some e)), w)
    \<and> Verify H rs = Some e"
proof -
  have "Verify H rs \<noteq> None" using assms(3) by (simp add: Verify_None_iff)
  with assms show ?thesis by (auto simp: OpenFileStore_def calm_calls)
qed

section \<open>Appending\<close>

lemma draw_id_world:
  assumes "draw_id r w = (d, w0)"
  shows "calm w0 = calm w" "inodes w0 = inodes w" "names w0 = names w" "unused w0 = unused w"
    "entropy w0 = entropy w" "faults w0 = faults w" "os_ok w0 = os_ok w"
  using assms by (auto simp: draw_id_def rand_Read_def os_ok_def split: if_splits)

lemma sealed_encodes:
  assumes "Seal H d c r = (None, c', r')"
  obtains b where "marshal_record r' = Inr b"
proof -
  obtain r2 h where "computeHash H r2 = Inr h" "r' = r2\<lparr>Hash := h\<rparr>"
    using assms by (cases rule: Seal_cases [of r H d c]) auto
  then show thesis using that
    by (auto simp: computeHash_def marshal_record_def record_tree_def bindr_eq_Inr split: option.splits if_splits)
qed

lemma Append_calm:
  assumes w: "calm w" "\<not> sclosed s" and d: "draw_id r w = (d, w0)"
    and seal: "Seal H d (schain s) r = (None, c, r')"
  shows "Append H r s w = (None, r', s\<lparr>schain := c,
      firstAt := (if scount s = 0 then CollectedAt r' else firstAt s), scount := Suc (scount s)\<rparr>,
      w0\<lparr>inodes := (inodes w0)(sfile s := inodes w0 (sfile s) @ record_line r')\<rparr>)"
proof -
  have cw: "calm w0" "calm (w0\<lparr>inodes := x\<rparr>)" for x using draw_id_world [OF d] w by simp_all
  obtain b where "marshal_record r' = Inr b" using seal by (rule sealed_encodes)
  then show ?thesis
    using d seal w calm_calls(4) [OF cw(1)] calm_calls(5) [OF cw(2)]
    by (simp add: Append_def appendLocked_def file_Write_def file_Sync_def record_line_def Let_def)
qed

text \<open>A record that can be sealed and will fit in a line: sealing adds at most 160 bytes.\<close>

definition room :: "evidence_record \<Rightarrow> bool" where
  "room r \<longleftrightarrow> wf_record r \<and> Hash r = [] \<and> PrevHash r = [] \<and>
     (case marshal_record r of Inl e \<Rightarrow> False | Inr b \<Rightarrow> length b + 160 < max_line)"

definition digest_ok :: "digest \<Rightarrow> bool" where
  "digest_ok H \<longleftrightarrow> (\<forall>b. length (H b) = 32)"

definition entropy_ok :: "os \<Rightarrow> bool" where
  "entropy_ok w \<longleftrightarrow> (\<forall>n. length (entropy w n) = 16)"

lemma length_commas: "length (commas bs) = sum_list (map length bs) + (length bs - 1)"
  by (induction bs rule: commas.induct) auto

lemma hex_escape [simp]: "json_escape (hex_encode s) = hex_encode s"
proof (induction s)
  case (Cons c s)
  have b: "code c div 16 < 16" "code c mod 16 < 16" using code_less [of c] by (auto simp del: code_less)
  have e: "escape_ascii (hex_digit n) = [hex_digit n]" "code (hex_digit n) < 0x80" if "n < 16" for n
    using hex_digit_plain [OF that] by (auto simp: escape_ascii_def code_def)
  from Cons b show ?case by (simp add: e)
qed simp

definition fields_length :: "(bytes \<times> json) list \<Rightarrow> nat" where
  "fields_length kvs = sum_list (map (\<lambda>kv. length (member_text kv)) kvs) + length kvs"

lemma length_render_JObj: "kvs \<noteq> [] \<Longrightarrow> length (render (JObj kvs)) = Suc (fields_length kvs)"
  by (cases kvs) (simp_all add: render_JObj length_commas fields_length_def o_def del: render.simps)

lemma fields_length_simps [simp]:
  "fields_length (field k v) = length k + length (render v) + 4"
  "fields_length (a @ b) = fields_length a + fields_length b"
  by (simp_all add: fields_length_def field_def member_text_pair)

lemma sealed_length:
  assumes "wf_record r" "marshal_record r = Inr b" "PrevHash r = []" "Hash r = []"
    "r' = r\<lparr>ID := i, PrevHash := p, Hash := h\<rparr>" "marshal_record r' = Inr b'"
    "length (json_escape i) \<le> length (json_escape (ID r)) + 32" "length (json_escape p) \<le> 64"
    "length (json_escape h) \<le> 64"
  shows "length b' \<le> length b + 160"
proof -
  have obs: "obs_ok (Observation r)" using assms(1) by (simp add: wf_record_def)
  obtain at v where r: "format_time (CollectedAt r) = Some at" "b = render (JObj (record_fields r at v))"
    "Observation r \<noteq> [] \<Longrightarrow> Observation r = render v"
    using marshal_record_tree [of r b thesis] assms(2) obs by (simp del: render.simps)
  obtain at' v' where r': "format_time (CollectedAt r) = Some at'" "b' = render (JObj (record_fields r' at' v'))"
    "Observation r \<noteq> [] \<Longrightarrow> Observation r = render v'"
    using marshal_record_tree [of r' b' thesis] assms(5,6) obs by (simp del: render.simps)
  have ne: "record_fields q a u \<noteq> []" for q a u by (simp add: record_fields_def field_def)
  have "field_unless (Observation r = []) k v = field_unless (Observation r = []) k v' \<or>
      fields_length (field_unless (Observation r = []) k v) = fields_length (field_unless (Observation r = []) k v')" for k
    using r r' by (auto simp: field_unless_def fields_length_def member_text_pair)
  then have "fields_length (field_unless (Observation r = []) k v) = fields_length (field_unless (Observation r = []) k v')" for k
    by metis
  then have "fields_length (record_fields r' at v') \<le> fields_length (record_fields r at v) + 160"
    using assms(3-5,7-9) by (simp add: record_fields_def jstr_def quoted_def)
  then show ?thesis using r(1,2) r'(1,2) ne by (simp add: length_render_JObj del: render.simps)
qed

text \<open>What an append promises when nothing fails.\<close>

lemma intact_hash:
  assumes "intact H rs" "digest_ok H"
  shows "valid_utf8 (head_hash rs)" "length (json_escape (head_hash rs)) \<le> 64"
proof -
  have "rs = [] \<or> (\<exists>b. head_hash rs = hex_encode (H b))"
    using assms(1) by (cases rs rule: rev_cases) (auto simp: intact_append computeHash_preimage)
  then show "valid_utf8 (head_hash rs)" "length (json_escape (head_hash rs)) \<le> 64"
    using assms(2) by (auto simp: digest_ok_def)
qed

definition hash_text :: "string \<Rightarrow> bool" where
  "hash_text h \<longleftrightarrow> valid_utf8 h \<and> length (json_escape h) \<le> 64"

lemma hash_text_head: "intact H rs \<Longrightarrow> digest_ok H \<Longrightarrow> hash_text (head_hash rs)"
  by (simp add: hash_text_def intact_hash)

lemma hash_text_sealed:
  assumes "Seal H d c r = (None, c', r')" "digest_ok H"
  shows "hash_text (lastHash c')" "lastHash c' = Hash r'" "Hash r' \<noteq> []"
proof -
  obtain x where x: "lastHash c' = hex_encode (H x)" "lastHash c' = Hash r'"
    using assms(1) by (cases rule: Seal_cases [of r H d c]) (auto simp: computeHash_preimage)
  then show "hash_text (lastHash c')" "lastHash c' = Hash r'"
    using assms(2) by (auto simp: digest_ok_def hash_text_def)
  have "length (Hash r') = 64" using x assms(2) by (simp add: digest_ok_def)
  then show "Hash r' \<noteq> []" by auto
qed

lemma sealed_storable:
  assumes H: "digest_ok H" and r: "room r" and d: "draw_id r w = (d, w0)" "entropy_ok w"
    and seal: "Seal H d c r = (None, c', r')" "hash_text (lastHash c)"
  shows "storable r'"
proof -
  obtain b where b: "marshal_record r = Inr b" "length b + 160 < max_line" "wf_record r" "Hash r = []" "PrevHash r = []"
    using r by (auto simp: room_def split: sum.splits)
  obtain b' where b': "marshal_record r' = Inr b'" using seal(1) by (rule sealed_encodes)
  let ?i = "if ID r = [] then NewID d else ID r"
  have r': "r' = r\<lparr>ID := ?i, PrevHash := lastHash c, Hash := lastHash c'\<rparr>"
    using Seal_content [OF seal(1)] by simp
  have h: "hash_text (lastHash c')" using seal(1) H by (rule hash_text_sealed)
  have i: "valid_utf8 ?i" "length (json_escape ?i) \<le> length (json_escape (ID r)) + 32"
    using b d by (auto simp: draw_id_def rand_Read_def entropy_ok_def NewID_def wf_record_def)
  have "wf_record r'" using b(3) r' h i(1) seal(2) by (simp add: wf_record_def hash_text_def)
  moreover have "length b' \<le> length b + 160"
    using sealed_length [OF b(3,1,5,4) r' b' i(2)] h seal(2) by (simp add: hash_text_def)
  ultimately show ?thesis using b b' by (simp add: storable_def)
qed

lemma room_seals:
  assumes "room r"
  obtains c' r' where "Seal H d c r = (None, c', r')"
proof (cases rule: Seal_cases [of r H d c])
  case sealed
  with assms show thesis by (simp add: room_def)
next
  case (failed e r2)
  then have "marshal_record r = Inr b \<Longrightarrow> False" for b
    by (auto simp: computeHash_def marshal_record_def record_tree_def split: option.splits if_splits)
  with assms show thesis by (auto simp: room_def split: sum.splits)
qed (use that in blast)

definition stored_as :: "evidence_record \<Rightarrow> evidence_record \<Rightarrow> bool" where
  "stored_as r r' \<longleftrightarrow> (\<exists>i p h. r' = r\<lparr>ID := i, PrevHash := p, Hash := h\<rparr> \<and> (ID r \<noteq> [] \<longrightarrow> i = ID r))"

lemma Append_store_ok:
  assumes w: "calm w" "entropy_ok w" and ok: "store_ok H s w rs" and H: "digest_ok H" and r: "room r"
  obtains r' s' w' where "Append H r s w = (None, r', s', w')" "store_ok H s' w' (rs @ [r'])"
    "stored_as r r'" "calm w'" "entropy_ok w'" "spath s' = spath s" "names w' = names w"
    "\<forall>i. i \<noteq> sfile s \<longrightarrow> inodes w' i = inodes w i"
proof -
  obtain d w0 where d: "draw_id r w = (d, w0)" by fastforce
  obtain c' r' where seal: "Seal H d (schain s) r = (None, c', r')" using r by (rule room_seals)
  have int: "intact H (rs @ [r']) \<and> lastHash c' = head_hash (rs @ [r'])"
    using ok by (intro Seal_extends [OF _ _ seal]) (simp_all add: store_ok_def)
  have st: "storable r'"
    using ok hash_text_head [OF _ H, of rs]
    by (intro sealed_storable [OF H r d w(2) seal]) (simp add: store_ok_def)
  have c: "stored_as r r'" using Seal_content [OF seal] by (auto simp: stored_as_def)
  have "\<not> sclosed s" using ok by (simp add: store_ok_def)
  show thesis
    by (rule that [OF Append_calm [OF w(1) \<open>\<not> sclosed s\<close> d seal]])
      (use ok int st c w in \<open>auto simp: store_ok_def draw_id_world [OF d] os_ok_def entropy_ok_def\<close>)
qed

section \<open>Rotation\<close>

lemma archive_path_differs: "archive_path p now \<noteq> p"
proof -
  obtain b where "p = b @ filepath_Ext p" using filepath_Ext_suffix by blast
  then have "archive_path p now = b @ ''-'' @ stamp (utc now) @ ''Z'' @ filepath_Ext p"
    by (metis TrimSuffix_append archive_path_def)
  then have "length (archive_path p now) > length b + length (filepath_Ext p)" by simp
  moreover have "length p = length b + length (filepath_Ext p)"
    using \<open>p = b @ filepath_Ext p\<close> by (metis length_append)
  ultimately show ?thesis by auto
qed

lemma MaybeRotate_young:
  "scount s = 0 \<or> is_zero (firstAt s) \<or> time_sub now (firstAt s) < maxAge \<Longrightarrow>
   MaybeRotate H maxAge now s w = (Inr [], s, w)"
  by (simp add: MaybeRotate_def)

lemma MaybeRotate_old:
  assumes w: "calm w" "entropy_ok w" and ok: "store_ok H s w rs" and H: "digest_ok H"
    and old: "rs \<noteq> []" "\<not> is_zero (firstAt s)" "maxAge \<le> time_sub now (firstAt s)"
    and r: "room (rotation_record (head_hash rs) (length rs) (archive_path (spath s) now) now)"
  obtains g s' w' where
    "MaybeRotate H maxAge now s w = (Inr (archive_path (spath s) now), s', w')"
    "store_ok H s' w' [g]" "stored_as (rotation_record (head_hash rs) (length rs) (archive_path (spath s) now) now) g"
    "file_at w' (archive_path (spath s) now) = Some (text_of rs)" "spath s' = spath s"
    "calm w'" "entropy_ok w'"
    "\<forall>q. q \<noteq> spath s \<longrightarrow> q \<noteq> archive_path (spath s) now \<longrightarrow> file_at w' q = file_at w q"
proof -
  let ?p = "spath s" and ?a = "archive_path (spath s) now"
  define w1 where "w1 = w\<lparr>names := (names w)(?p := None, ?a := Some (sfile s))\<rparr>"
  define w2 where "w2 = w1\<lparr>names := (names w1)(?p \<mapsto> unused w), inodes := (inodes w)(unused w := []),
    unused := Suc (unused w)\<rparr>"
  define s2 where "s2 = s\<lparr>sfile := unused w, sclosed := False, schain := NewChain, scount := 0, firstAt := zero_time\<rparr>"
  have fresh: "names w q \<noteq> Some (unused w)" for q using ok by (auto simp: store_ok_def os_ok_def)
  have c: "calm w1" "calm w2" "entropy_ok w2" using w by (simp_all add: w1_def w2_def entropy_ok_def)
  have s: "names w ?p = Some (sfile s)" "\<not> sclosed s" "scount s = length rs" "lastHash (schain s) = head_hash rs"
    "inodes w (sfile s) = text_of rs" using ok by (simp_all add: store_ok_def)
  have "store_ok H s2 w2 []"
    using ok archive_path_differs [of ?p now]
    by (auto simp: store_ok_def s2_def w2_def w1_def os_ok_def NewChain_def intro: less_SucI)
  from Append_store_ok [OF c(2,3) this H r] obtain g s' w' where
    app: "Append H (rotation_record (head_hash rs) (length rs) ?a now) s2 w2 = (None, g, s', w')"
    and g: "store_ok H s' w' [g]" "stored_as (rotation_record (head_hash rs) (length rs) ?a now) g"
    and fr: "calm w'" "entropy_ok w'" "spath s' = spath s2" "names w' = names w2"
      "\<forall>i. i \<noteq> sfile s2 \<longrightarrow> inodes w' i = inodes w2 i"
    by (metis append_Nil)
  have "os_Rename ?p ?a w = (None, w1)" using s w by (simp add: calm_calls w1_def)
  moreover have "os_OpenAppend ?p w1 = (Inr (unused w), w2)"
    using archive_path_differs [of ?p now] calm_calls(9) [OF c(1), of ?p]
    by (simp add: w2_def) (simp add: w1_def)
  ultimately have "MaybeRotate H maxAge now s w = (Inr ?a, s', w')"
    using old s w app calm_calls(6) [OF w(1)]
    by (simp add: MaybeRotate_def Let_def file_Close_def LastHash_def Append_def s2_def)
  moreover have "sfile s \<noteq> unused w" using fresh s by metis
  then have "file_at w' ?a = Some (text_of rs)"
    using fr s archive_path_differs [of ?p now] by (simp add: file_at_def w2_def w1_def s2_def)
  moreover have "file_at w' q = file_at w q" if "q \<noteq> ?p" "q \<noteq> ?a" for q
    using that fr fresh [of q] by (auto simp: file_at_def w2_def w1_def s2_def intro!: option.map_cong0)
  moreover have "spath s' = spath s" using fr by (simp add: s2_def)
  ultimately show thesis using that g fr by blast
qed

lemma length_format_time: "format_time t = Some s \<Longrightarrow> length s \<le> 40"
proof -
  have n: "length (format_nanos k) \<le> 10" for k
    using length_dropWhile_le [of "\<lambda>c. c = CHR ''0''" "rev (padi 9 k)"] by (simp add: format_nanos_def)
  have z: "length (format_zone k) \<le> 6" for k by (simp add: format_zone_def)
  assume "format_time t = Some s"
  then show ?thesis using n [of "cnano (civil_of t)"] z [of "offset t"]
    by (auto simp: format_time_def Let_def split: if_splits)
qed

lemma fields_length_more [simp]:
  "fields_length (field_unless om k v) = (if om then 0 else length k + length (render v) + 4)"
  "length (render (jstr s)) = length (json_escape s) + 2"
  "length (render (JStr s)) = length s + 2"
  by (simp_all add: fields_length_def field_unless_def member_text_pair jstr_def quoted_def)

lemma length_target:
  "TAttributes t = [] \<Longrightarrow>
   length (render (target_json t)) = length (json_escape (TType t)) + length (json_escape (TName t)) + 21"
  unfolding target_json_def by (subst length_render_JObj) (simp_all add: field_def [of "''type''"] del: render.simps,
    simp_all add: fields_length_def field_def field_unless_def member_text_pair jstr_def quoted_def)

lemma length_dec_digits: "n < 10 ^ k \<Longrightarrow> 0 < k \<Longrightarrow> length (dec_digits n) \<le> k"
proof (induction n arbitrary: k rule: dec_digits.induct)
  case (1 n)
  show ?case
  proof (cases "n < 10")
    case True
    with 1 show ?thesis by (simp add: dec_digits.simps [of n])
  next
    case False
    with 1(2,3) obtain j where j: "k = Suc j" "0 < j" by (cases k; cases "k - 1") auto
    with 1(2) have "n div 10 < 10 ^ j" by simp
    with 1(1) [OF False] j False show ?thesis by (simp add: dec_digits.simps [of n])
  qed
qed

text \<open>
  The rotation record fits a line when the archive's name and the number of records are
  written in less than a million bytes each.
\<close>

lemma rotation_room:
  assumes "valid_utf8 (filepath_Base archive)" "length (json_escape (filepath_Base archive)) \<le> 1000000"
    "length (dec_digits n) \<le> 1000000" "hash_text h" "format_time (utc now) = Some at"
  shows "room (rotation_record h n archive now)"
proof -
  let ?t = "rotation_tree h n archive" and ?r = "rotation_record h n archive now"
  have plain: "str_body ''archivedTo''" "str_body ''previousChainHead''" "str_body ''previousChainRecords''"
    using plain_str_body by (simp_all add: plain_char_def code_def)
  have esc: "escape_raw s = s" if "\<forall>x\<in>set s. raw_plain x" for s
    using escape_raw_plains [OF that, of "[]"] by simp
  have keys: "escape_raw ''archivedTo'' = ''archivedTo''" "escape_raw ''previousChainHead'' = ''previousChainHead''"
    "escape_raw ''previousChainRecords'' = ''previousChainRecords''"
    by (rule esc, simp add: raw_plain_def code_def)+
  have t: "wf_json ?t" "html_safe ?t" "depth ?t < 10000"
    using plain keys by (simp_all add: rotation_tree_def)
  have "obs_ok (render ?t)" using t by (rule obs_ok_render)
  then have wf: "wf_record ?r"
    using assms(1) by (simp add: wf_record_def rotation_record_def zero_record_def wf_target_def utc_def
        TargetTypeChainRotation_def OutcomeObserved_def plain_valid code_def del: render.simps)
  have m: "marshal_record ?r = Inr (render (JObj (record_fields ?r at ?t)))"
    using t render_not_Nil [OF t(1)] compact_render [OF t(1) _ t(2)] assms(5)
    by (simp add: marshal_record_def record_tree_def rotation_record_def zero_record_def del: render.simps)
  have "length (render ?t) \<le> 2000200"
    using assms(2-4) length_render_JObj [of "[(''archivedTo'', jstr (filepath_Base archive)),
      (''previousChainHead'', jstr h), (''previousChainRecords'', JLit (dec_digits n))]"]
    by (simp add: rotation_tree_def fields_length_def member_text_pair jstr_def quoted_def hash_text_def)
  moreover have lits: "length (json_escape TargetTypeChainRotation) = 24" "length (json_escape OutcomeObserved) = 8"
    "length (json_escape ''evidenced'') = 9" "length (json_escape ''1'') = 1" by code_simp+
  moreover have ne: "record_fields q a u \<noteq> []" for q a u by (simp add: record_fields_def field_def)
  ultimately have "length (render (JObj (record_fields ?r at ?t))) \<le> 4000000"
    using length_format_time [OF assms(5)] assms(2) render_not_Nil [OF t(1)]
    lits length_render_JObj [OF ne, of ?r at ?t]
    by (simp add: record_fields_def rotation_record_def zero_record_def length_target
         del: render.simps json_escape.simps) simp
  with wf m show ?thesis
    by (simp add: room_def max_line_def rotation_record_def zero_record_def del: render.simps)
qed

end
