(* ===== verification/Evidence_Store.thy ===== *)
theory Evidence_Store
  imports File_Store
begin

text \<open>
  The interface \<open>Store\<close> of \<open>internal/core/store.go\<close> as a locale: what a client may
  rely on while the store's invariant holds, stated over the abstract list of records the store
  holds. The scheduler and the exporter are clients; the file store provides it as long as no
  system call fails.
\<close>

record 'st store =
  st_append :: "evidence_record \<Rightarrow> 'st \<Rightarrow> error option \<times> evidence_record \<times> 'st"
  st_all :: "'st \<Rightarrow> evidence_record list result \<times> 'st"
  st_verify :: "'st \<Rightarrow> error option \<times> 'st"
  st_rotate :: "(int \<Rightarrow> gotime \<Rightarrow> 'st \<Rightarrow> string result \<times> 'st) option"

text \<open>Records appended one after the other, until one fails.\<close>

fun append_list :: "'st store \<Rightarrow> evidence_record list \<Rightarrow> 'st \<Rightarrow> error option \<times> 'st" where
  "append_list S [] st = (None, st)"
| "append_list S (r # rs) st = (case st_append S r st of
     (Some e, _, st') \<Rightarrow> (Some e, st') | (None, _, st') \<Rightarrow> append_list S rs st')"

locale evidence_store =
  fixes H :: digest
    and S :: "'st store"
    and holds :: "'st \<Rightarrow> evidence_record list \<Rightarrow> bool"
  assumes append_law: "holds st rs \<Longrightarrow> room r \<Longrightarrow>
      \<exists>r' st'. st_append S r st = (None, r', st') \<and> holds st' (rs @ [r']) \<and> stored_as r r'"
    and all_law: "holds st rs \<Longrightarrow> st_all S st = (Inr rs, st)"
    and verify_law: "holds st rs \<Longrightarrow> st_verify S st = (None, st)"
    and chain_law: "holds st rs \<Longrightarrow> intact H rs"
begin

lemma append_list_ok:
  "holds st rs \<Longrightarrow> \<forall>r\<in>set new. room r \<Longrightarrow>
   \<exists>added st'. append_list S new st = (None, st') \<and> holds st' (rs @ added) \<and> list_all2 stored_as new added"
proof (induction new arbitrary: st rs)
  case (Cons r new)
  obtain r' st' where a: "st_append S r st = (None, r', st')" "holds st' (rs @ [r'])" "stored_as r r'"
    using append_law [OF Cons.prems(1), of r] Cons.prems(2) by (metis list.set_intros(1))
  from Cons.IH [OF a(2)] Cons.prems(2) obtain added st'' where
    "append_list S new st' = (None, st'')" "holds st'' ((rs @ [r']) @ added)" "list_all2 stored_as new added"
    by auto
  with a show ?case by (intro exI [of _ "r' # added"] exI [of _ st'']) simp
qed simp

lemma held_chain_verifies: "holds st rs \<Longrightarrow> Verify H rs = None"
  by (simp add: Verify_None_iff chain_law)

text \<open>Two states that hold records hold the same ones when \<open>All\<close> says so.\<close>

lemma holds_unique: "holds st rs \<Longrightarrow> holds st ss \<Longrightarrow> rs = ss"
  using all_law [of st rs] all_law [of st ss] by simp

end

section \<open>The file store provides the interface\<close>

text \<open>The state of the store's operations: the store's fields and the world.\<close>

type_synonym file_state = "file_store \<times> os"

definition file_rotate :: "digest \<Rightarrow> int \<Rightarrow> gotime \<Rightarrow> file_state \<Rightarrow> string result \<times> file_state" where
  "file_rotate H age now = (\<lambda>(s, w). case MaybeRotate H age now s w of (x, s', w') \<Rightarrow> (x, (s', w')))"

definition file_store_ops :: "digest \<Rightarrow> file_state store" where
  "file_store_ops H =
     \<lparr>st_append = (\<lambda>r (s, w). case Append H r s w of (e, r', s', w') \<Rightarrow> (e, r', (s', w'))),
      st_all = (\<lambda>(s, w). case All s w of (x, w') \<Rightarrow> (x, (s, w'))),
      st_verify = (\<lambda>(s, w). case store_Verify H s w of (x, w') \<Rightarrow> (x, (s, w'))),
      st_rotate = Some (file_rotate H)\<rparr>"

definition file_holds :: "digest \<Rightarrow> file_state \<Rightarrow> evidence_record list \<Rightarrow> bool" where
  "file_holds H st rs \<longleftrightarrow> digest_ok H \<and> calm (snd st) \<and> entropy_ok (snd st) \<and> store_ok H (fst st) (snd st) rs"

lemma file_ops_simps [simp]:
  "Append H r s w = (e, r', s', w') \<Longrightarrow> st_append (file_store_ops H) r (s, w) = (e, r', (s', w'))"
  "All s w = (x, w') \<Longrightarrow> st_all (file_store_ops H) (s, w) = (x, (s, w'))"
  "store_Verify H s w = (y, w') \<Longrightarrow> st_verify (file_store_ops H) (s, w) = (y, (s, w'))"
  by (simp_all add: file_store_ops_def)

lemma file_append_law:
  assumes "file_holds H st rs" "room r"
  shows "\<exists>r' st'. st_append (file_store_ops H) r st = (None, r', st') \<and> file_holds H st' (rs @ [r']) \<and> stored_as r r'"
proof -
  obtain s w where st: "st = (s, w)" by fastforce
  with assms have h: "calm w" "entropy_ok w" "store_ok H s w rs" "digest_ok H" by (simp_all add: file_holds_def)
  obtain r' s' w' where a: "Append H r s w = (None, r', s', w')" "store_ok H s' w' (rs @ [r'])"
    "stored_as r r'" "calm w'" "entropy_ok w'"
    using Append_store_ok [OF h assms(2)] by metis
  then have "st_append (file_store_ops H) r st = (None, r', (s', w'))" using st by simp
  moreover have "file_holds H (s', w') (rs @ [r'])" using a h by (simp add: file_holds_def)
  ultimately show ?thesis using a(3) by blast
qed

interpretation fstore: evidence_store H "file_store_ops H" "file_holds H" for H
proof unfold_locales
  fix st rs
  assume h: "file_holds H st rs"
  obtain s w where st: "st = (s, w)" by fastforce
  with h have "calm w" "store_ok H s w rs" by (simp_all add: file_holds_def)
  then show "st_all (file_store_ops H) st = (Inr rs, st)" "st_verify (file_store_ops H) st = (None, st)" "intact H rs"
    using st by (simp_all add: store_ok_All store_ok_Verify) (simp add: store_ok_def)
qed (rule file_append_law)

section \<open>A store that rotates\<close>

text \<open>
  Rotating leaves the store as it is or replaces what it holds by the one record that names the
  chain before; \<open>rotation rs now st\<close> is that record before it is sealed.
\<close>

locale rotating_store = evidence_store H S holds
  for H and S :: "'st store" and holds +
  fixes rot :: "int \<Rightarrow> gotime \<Rightarrow> 'st \<Rightarrow> string result \<times> 'st"
    and rotation :: "evidence_record list \<Rightarrow> gotime \<Rightarrow> 'st \<Rightarrow> evidence_record"
  assumes rotate_op: "st_rotate S = Some rot"
    and rotate_law: "holds st rs \<Longrightarrow> room (rotation rs now st) \<Longrightarrow>
      \<exists>a st'. rot age now st = (Inr a, st') \<and> (st' = st \<or> (\<exists>g. holds st' [g] \<and> stored_as (rotation rs now st) g))"

definition file_rotation :: "evidence_record list \<Rightarrow> gotime \<Rightarrow> file_state \<Rightarrow> evidence_record" where
  "file_rotation rs now st = rotation_record (head_hash rs) (length rs) (archive_path (spath (fst st)) now) now"

lemma file_rotate_law:
  assumes "file_holds H st rs" "room (file_rotation rs now st)"
  shows "\<exists>a st'. file_rotate H age now st = (Inr a, st') \<and>
    (st' = st \<or> (\<exists>g. file_holds H st' [g] \<and> stored_as (file_rotation rs now st) g))"
proof -
  obtain s w where st: "st = (s, w)" by fastforce
  with assms have h: "calm w" "entropy_ok w" "store_ok H s w rs" "digest_ok H" by (simp_all add: file_holds_def)
  show ?thesis
  proof (cases "rs = [] \<or> is_zero (firstAt s) \<or> time_sub now (firstAt s) < age")
    case True
    then have "MaybeRotate H age now s w = (Inr [], s, w)"
      using h(3) by (intro MaybeRotate_young) (auto simp: store_ok_def)
    then show ?thesis using st by (simp add: file_rotate_def)
  next
    case False
    have "room (rotation_record (head_hash rs) (length rs) (archive_path (spath s) now) now)"
      using assms(2) st by (simp add: file_rotation_def)
    with MaybeRotate_old [OF h(1-4)] False obtain g s' w' where
      "MaybeRotate H age now s w = (Inr (archive_path (spath s) now), s', w')" "store_ok H s' w' [g]"
      "stored_as (rotation_record (head_hash rs) (length rs) (archive_path (spath s) now) now) g" "calm w'" "entropy_ok w'"
      by (metis not_less)
    then show ?thesis using st h by (auto simp: file_rotate_def file_holds_def file_rotation_def)
  qed
qed

interpretation frotating: rotating_store H "file_store_ops H" "file_holds H" "file_rotate H" file_rotation for H
proof unfold_locales
  show "st_rotate (file_store_ops H) = Some (file_rotate H)"
    by (simp add: file_store_ops_def file_rotate_def)
qed (rule file_rotate_law)

section \<open>The file store of one path\<close>

text \<open>As above, with the path the store keeps: what a rotation leaves is then a function of the chain and the time.\<close>

definition path_holds :: "digest \<Rightarrow> path \<Rightarrow> file_state \<Rightarrow> evidence_record list \<Rightarrow> bool" where
  "path_holds H p st rs \<longleftrightarrow> file_holds H st rs \<and> spath (fst st) = p"

definition path_rotation :: "path \<Rightarrow> evidence_record list \<Rightarrow> gotime \<Rightarrow> evidence_record" where
  "path_rotation p rs now = rotation_record (head_hash rs) (length rs) (archive_path p now) now"

lemma path_append_law:
  assumes "path_holds H p st rs" "room r"
  shows "\<exists>r' st'. st_append (file_store_ops H) r st = (None, r', st') \<and> path_holds H p st' (rs @ [r']) \<and> stored_as r r'"
proof -
  obtain s w where st: "st = (s, w)" by fastforce
  with assms have h: "calm w" "entropy_ok w" "store_ok H s w rs" "digest_ok H" "spath s = p"
    by (simp_all add: path_holds_def file_holds_def)
  obtain r' s' w' where a: "Append H r s w = (None, r', s', w')" "store_ok H s' w' (rs @ [r'])"
    "stored_as r r'" "calm w'" "entropy_ok w'" "spath s' = spath s"
    using Append_store_ok [OF h(1-4) assms(2)] by metis
  then have "st_append (file_store_ops H) r st = (None, r', (s', w'))" using st by simp
  moreover have "path_holds H p (s', w') (rs @ [r'])" using a h by (simp add: path_holds_def file_holds_def)
  ultimately show ?thesis using a(3) by blast
qed

lemma path_rotate_law:
  assumes "path_holds H p st rs" "room (path_rotation p rs now)"
  shows "\<exists>a st'. file_rotate H age now st = (Inr a, st') \<and>
    (st' = st \<or> (\<exists>g. path_holds H p st' [g] \<and> stored_as (path_rotation p rs now) g))"
proof -
  obtain s w where st: "st = (s, w)" by fastforce
  with assms have h: "calm w" "entropy_ok w" "store_ok H s w rs" "digest_ok H" "spath s = p"
    by (simp_all add: path_holds_def file_holds_def)
  show ?thesis
  proof (cases "rs = [] \<or> is_zero (firstAt s) \<or> time_sub now (firstAt s) < age")
    case True
    then have "MaybeRotate H age now s w = (Inr [], s, w)"
      using h(3) by (intro MaybeRotate_young) (auto simp: store_ok_def)
    then show ?thesis using st by (simp add: file_rotate_def)
  next
    case False
    have "room (rotation_record (head_hash rs) (length rs) (archive_path (spath s) now) now)"
      using assms(2) h(5) by (simp add: path_rotation_def)
    with MaybeRotate_old [OF h(1-4)] False obtain g s' w' where
      "MaybeRotate H age now s w = (Inr (archive_path (spath s) now), s', w')" "store_ok H s' w' [g]"
      "stored_as (rotation_record (head_hash rs) (length rs) (archive_path (spath s) now) now) g" "calm w'" "entropy_ok w'"
      "spath s' = spath s"
      by (metis not_less)
    then show ?thesis using st h by (auto simp: file_rotate_def path_holds_def file_holds_def path_rotation_def)
  qed
qed

interpretation fpath: rotating_store H "file_store_ops H" "path_holds H p" "file_rotate H" "\<lambda>rs now st. path_rotation p rs now"
  for H p
proof unfold_locales
  fix st rs
  assume "path_holds H p st rs"
  then have h: "file_holds H st rs" by (simp add: path_holds_def)
  show "st_all (file_store_ops H) st = (Inr rs, st)" "st_verify (file_store_ops H) st = (None, st)" "intact H rs"
    using fstore.all_law [OF h] fstore.verify_law [OF h] fstore.chain_law [OF h] by auto
next
  show "st_rotate (file_store_ops H) = Some (file_rotate H)" by (simp add: file_store_ops_def file_rotate_def)
qed (rule path_append_law path_rotate_law; assumption)+

end
