(* ===== verification/Go_Fmt.thy ===== *)
theory Go_Fmt
  imports Go_Text
begin

text \<open>
  The texts of errors: \<open>fmt.Errorf\<close> with the verbs the program uses, and \<open>strconv.Quote\<close>
  for its \<open>%q\<close> (a rune outside ASCII counts as printable).
\<close>

definition quote_char :: "char \<Rightarrow> string" where
  "quote_char c =
     (if c = CHR 0x22 \<or> c = CHR 0x5C then [CHR 0x5C, c]
      else if c = CHR 0x07 then [CHR 0x5C, CHR ''a'']
      else if c = CHR 0x08 then [CHR 0x5C, CHR ''b'']
      else if c = CHR 0x0C then [CHR 0x5C, CHR ''f'']
      else if c = CHR 0x0A then [CHR 0x5C, CHR ''n'']
      else if c = CHR 0x0D then [CHR 0x5C, CHR ''r'']
      else if c = CHR 0x09 then [CHR 0x5C, CHR ''t'']
      else if c = CHR 0x0B then [CHR 0x5C, CHR ''v'']
      else if code c < 0x20 \<or> 0x7F \<le> code c
        then [CHR 0x5C, CHR ''x'', hex_digit (code c div 16), hex_digit (code c mod 16)]
      else [c])"

function quote_body :: "string \<Rightarrow> string" where
  "quote_body [] = []"
| "quote_body (c # s) =
     (if code c < 0x80 \<or> rune_len (c # s) = 0 then quote_char c @ quote_body s
      else take (rune_len (c # s)) (c # s) @ quote_body (drop (rune_len (c # s) - 1) s))"
  by pat_completeness auto
termination by (relation "measure length") auto

definition go_quote :: "string \<Rightarrow> string" where
  "go_quote s = CHR 0x22 # quote_body s @ [CHR 0x22]"

definition arg_text :: "char \<Rightarrow> arg \<Rightarrow> string" where
  "arg_text v a = (case a of
     Num i \<Rightarrow> dec_int i
   | Str s \<Rightarrow> if v = CHR ''q'' then go_quote s else s)"

text \<open>The format with its arguments filled in; \<open>w\<close> is the text of the wrapped error.\<close>

fun expand_format :: "string \<Rightarrow> arg list \<Rightarrow> string \<Rightarrow> string" where
  "expand_format [] as w = []"
| "expand_format [c] as w = [c]"
| "expand_format (c # v # f) as w =
     (if c \<noteq> CHR ''%'' then c # expand_format (v # f) as w
      else if v = CHR ''w'' then w @ expand_format f as w
      else (case as of
        [] \<Rightarrow> ''%!'' @ v # ''(MISSING)'' @ expand_format f [] w
      | a # as' \<Rightarrow> arg_text v a @ expand_format f as' w))"

definition sentinel_text :: "sentinel \<Rightarrow> string" where
  "sentinel_text s = (case s of
     ErrTampered \<Rightarrow> ''evidence chain integrity violation''
   | ErrAlreadySealed \<Rightarrow> ''record is already sealed''
   | ErrNotExist \<Rightarrow> ''file does not exist''
   | ErrClosed \<Rightarrow> ''file already closed''
   | ErrCanceled \<Rightarrow> ''context canceled'')"

text \<open>\<open>err.Error()\<close>.\<close>

fun error_text :: "error \<Rightarrow> string" where
  "error_text (Sentinel s) = sentinel_text s"
| "error_text (External m) = m"
| "error_text (Errorf f as None) = expand_format f as []"
| "error_text (Errorf f as (Some e)) = expand_format f as (error_text e)"

lemma error_text_example:
  "error_text (Errorf ''record %d (%q): %w'' [Num 7, Str ''a b''] (Some (Sentinel ErrNotExist)))
   = ''record 7 ('' @ CHR 0x22 # ''a b'' @ CHR 0x22 # ''): file does not exist''"
  by (simp add: arg_text_def dec_int_def dec_digits.simps hex_digit_def go_quote_def quote_char_def
      code_def sentinel_text_def)

end
