(* ===== verification/Collector_Registry.thy ===== *)
theory Collector_Registry
  imports Evidence_Store Go_Fmt
begin

text \<open>
  Collectors and their registry (\<open>internal/core/collector.go\<close>). What a collector reads
  (\<open>'e\<close>: the cluster, the endpoints, the clock) is the argument of its \<open>Collect\<close>.
\<close>

record access_requirement =
  arSystem :: string
  arResource :: string
  arAccess :: string
  arDescription :: string

record 'e collector =
  col_ID :: string
  col_Version :: string
  col_Description :: string
  col_RequiredAccess :: "access_requirement list"
  col_Collect :: "'e \<Rightarrow> evidence_record list result"

text \<open>The registry's map, in the order of its keys.\<close>

record 'e registry =
  collectors :: "(string \<times> 'e collector) list"

definition NewRegistry :: "'e registry" where
  "NewRegistry = \<lparr>collectors = []\<rparr>"

definition Register :: "'e collector \<Rightarrow> 'e registry \<Rightarrow> error option \<times> 'e registry" where
  "Register c g =
     (if map_of (collectors g) (col_ID c) \<noteq> None
        then (Some (Errorf ''collector %q registered twice'' [Str (col_ID c)] None), g)
      else (None, g\<lparr>collectors := put (col_ID c) c (collectors g)\<rparr>))"

definition registry_All :: "'e registry \<Rightarrow> 'e collector list" where
  "registry_All g = sort_key col_ID (map snd (collectors g))"

definition registry_Get :: "'e registry \<Rightarrow> string \<Rightarrow> 'e collector option" where
  "registry_Get g k = map_of (collectors g) k"

section \<open>The registry's invariant\<close>

definition registry_ok :: "'e registry \<Rightarrow> bool" where
  "registry_ok g \<longleftrightarrow> ordered (collectors g) \<and> (\<forall>(k, c)\<in>set (collectors g). col_ID c = k)"

lemma set_put_subset: "set (put k v m) \<subseteq> insert (k, v) (set m)"
  by (induction k v m rule: put.induct) auto

lemma NewRegistry_ok [simp]: "registry_ok NewRegistry"
  by (simp add: NewRegistry_def registry_ok_def)

lemma Register_ok:
  assumes "registry_ok g"
  shows "registry_ok (snd (Register c g))"
  using assms set_put_subset [of "col_ID c" c "collectors g"] by (auto simp: Register_def registry_ok_def)

lemma registry_values: "registry_ok g \<Longrightarrow> map col_ID (map snd (collectors g)) = keys (collectors g)"
  by (auto simp: registry_ok_def keys_def)

lemma registry_All_order:
  assumes "registry_ok g"
  shows "registry_All g = map snd (collectors g)" "sorted_wrt (<) (map col_ID (registry_All g))"
proof -
  have s: "sorted_wrt (<) (map col_ID (map snd (collectors g)))"
    using assms registry_values [OF assms] by (simp add: registry_ok_def ordered_def)
  then have "sorted (map col_ID (map snd (collectors g)))"
    by (rule strict_sorted_imp_sorted)
  then show all: "registry_All g = map snd (collectors g)"
    unfolding registry_All_def by (rule sort_key_id_if_sorted)
  show "sorted_wrt (<) (map col_ID (registry_All g))" using s unfolding all .
qed

lemma Register_Get:
  assumes "registry_ok g"
  shows "Register c g = (None, g') \<Longrightarrow>
    registry_Get g' k = (if k = col_ID c then Some c else registry_Get g k) \<and>
    set (registry_All g') = insert c (set (registry_All g))"
  "fst (Register c g) \<noteq> None \<longleftrightarrow> registry_Get g (col_ID c) \<noteq> None"
proof -
  assume r: "Register c g = (None, g')"
  then have new: "map_of (collectors g) (col_ID c) = None"
    and g': "collectors g' = put (col_ID c) c (collectors g)"
    by (auto simp: Register_def split: if_splits)
  have "registry_ok g'" using Register_ok [OF assms, of c] r by simp
  note all = registry_All_order(1) [OF this] registry_All_order(1) [OF assms]
  have "snd ` set (put k v m) = insert v (snd ` set m)" if "map_of m k = None" for k v and m :: "(string \<times> 'a collector) list"
    using that by (induction k v m rule: put.induct) (auto split: if_splits)
  then show "registry_Get g' k = (if k = col_ID c then Some c else registry_Get g k) \<and>
      set (registry_All g') = insert c (set (registry_All g))"
    using all g' new assms by (auto simp: registry_Get_def registry_ok_def)
qed (auto simp: Register_def registry_Get_def)

end
