(* ===== verification/Control_Mapping.thy ===== *)
theory Control_Mapping
  imports Evidence
begin

text \<open>
  Framework mappings (\<open>mapping/mapping.go\<close>) and the one for DORA that ships as data
  (\<open>mapping/dora/dora.yaml\<close>, \<open>mapping/dora/dora.go\<close>). The YAML decoder is a parameter.
\<close>

section \<open>Mappings\<close>

record control =
  cid :: string
  article :: string
  title :: string
  summary :: string

record rule =
  rcollector :: string
  rtargetType :: string
  rcontrols :: "string list"

text \<open>\<open>byID\<close> is the index \<open>validate\<close> builds, in key order.\<close>

record mapping =
  framework :: string
  controls :: "control list"
  rules :: "rule list"
  byID :: "(string \<times> control) list"

fun index_controls :: "string \<Rightarrow> (string \<times> control) list \<Rightarrow> control list \<Rightarrow> (string \<times> control) list result" where
  "index_controls fw m [] = Inr m"
| "index_controls fw m (c # cs) =
     (if cid c = [] then Inl (Errorf ''framework %s: control with empty id'' [Str fw] None)
      else if map_of m (cid c) \<noteq> None
        then Inl (Errorf ''framework %s: duplicate control id %q'' [Str fw, Str (cid c)] None)
      else index_controls fw (put (cid c) c m) cs)"

fun check_rules :: "string \<Rightarrow> (string \<times> control) list \<Rightarrow> nat \<Rightarrow> rule list \<Rightarrow> error option" where
  "check_rules fw m i [] = None"
| "check_rules fw m i (r # rs) =
     (if rcollector r = [] then Some (Errorf ''framework %s: rule %d has no collector'' [Str fw, Num (int i)] None)
      else if rcontrols r = [] then Some (Errorf ''framework %s: rule %d maps to no controls'' [Str fw, Num (int i)] None)
      else (case find (\<lambda>k. map_of m k = None) (rcontrols r) of
        Some k \<Rightarrow> Some (Errorf ''framework %s: rule %d references unknown control %q''
                      [Str fw, Num (int i), Str k] None)
      | None \<Rightarrow> check_rules fw m (Suc i) rs))"

definition validate :: "mapping \<Rightarrow> mapping result" where
  "validate m =
     (if framework m = [] then Inl (Errorf ''mapping has no framework name'' [] None)
      else bindr (index_controls (framework m) [] (controls m)) (\<lambda>ix.
        case check_rules (framework m) ix 0 (rules m) of
          Some e \<Rightarrow> Inl e
        | None \<Rightarrow> Inr (m\<lparr>byID := ix\<rparr>)))"

definition Load :: "(bytes \<Rightarrow> mapping result) \<Rightarrow> bytes \<Rightarrow> mapping result" where
  "Load yaml data = bindr (wrap ''parse mapping: %w'' [] (yaml data)) validate"

text \<open>A rule matches a record by collector and, when it names one, by target type.\<close>

definition rule_matches :: "evidence_record \<Rightarrow> rule \<Rightarrow> bool" where
  "rule_matches r ru \<longleftrightarrow> rcollector ru = CollectorID r \<and>
     (rtargetType ru = [] \<or> rtargetType ru = TType (Target r))"

text \<open>The two loops of \<open>Apply\<close>; \<open>seen\<close> holds exactly the identifiers collected so far.\<close>

fun collect_ids :: "string list \<Rightarrow> string list \<Rightarrow> string list" where
  "collect_ids seen [] = seen"
| "collect_ids seen (k # ks) = collect_ids (if k \<in> set seen then seen else seen @ [k]) ks"

fun matching_ids :: "evidence_record \<Rightarrow> string list \<Rightarrow> rule list \<Rightarrow> string list" where
  "matching_ids r seen [] = seen"
| "matching_ids r seen (ru # rus) =
     matching_ids r (if rule_matches r ru then collect_ids seen (rcontrols ru) else seen) rus"

definition Apply :: "mapping \<Rightarrow> evidence_record \<Rightarrow> evidence_record" where
  "Apply m r = r\<lparr>ControlIDs := sort (matching_ids r [] (rules m))\<rparr>"

definition Control :: "mapping \<Rightarrow> string \<Rightarrow> control option" where
  "Control m k = map_of (byID m) k"

section \<open>What \<open>Apply\<close> computes\<close>

text \<open>The specification: the controls of all rules that match.\<close>

definition mapped_ids :: "mapping \<Rightarrow> evidence_record \<Rightarrow> string set" where
  "mapped_ids m r = (\<Union>ru\<in>{ru\<in>set (rules m). rule_matches r ru}. set (rcontrols ru))"

lemma finite_mapped_ids [simp]: "finite (mapped_ids m r)"
  by (simp add: mapped_ids_def)

lemma collect_ids_set:
  "distinct seen \<Longrightarrow> distinct (collect_ids seen ids) \<and> set (collect_ids seen ids) = set seen \<union> set ids"
  by (induction seen ids rule: collect_ids.induct) auto

lemma matching_ids_set:
  "distinct seen \<Longrightarrow> distinct (matching_ids r seen rus) \<and>
   set (matching_ids r seen rus) = set seen \<union> (\<Union>ru\<in>{ru\<in>set rus. rule_matches r ru}. set (rcontrols ru))"
proof (induction r seen rus rule: matching_ids.induct)
  case (2 r seen ru rus)
  then show ?case using collect_ids_set [OF "2.prems", of "rcontrols ru"] by (auto split: if_splits)
qed simp

lemma Apply_ids: "ControlIDs (Apply m r) = sorted_list_of_set (mapped_ids m r)"
proof -
  have "distinct (matching_ids r [] (rules m))" "set (matching_ids r [] (rules m)) = mapped_ids m r"
    using matching_ids_set [of "[]" r "rules m"] by (simp_all add: mapped_ids_def)
  then show ?thesis
    using sorted_list_of_set_sort_remdups [of "matching_ids r [] (rules m)"]
    by (simp add: Apply_def distinct_remdups_id)
qed

lemma Apply_eq: "Apply m r = r\<lparr>ControlIDs := sorted_list_of_set (mapped_ids m r)\<rparr>"
  using Apply_ids [of m r] by (simp add: Apply_def)

lemma Apply_frame [simp]:
  "ID (Apply m r) = ID r" "CollectorID (Apply m r) = CollectorID r" "Target (Apply m r) = Target r"
  "CollectedAt (Apply m r) = CollectedAt r" "Outcome (Apply m r) = Outcome r" "Error (Apply m r) = Error r"
  "CollectorVersion (Apply m r) = CollectorVersion r" "Observation (Apply m r) = Observation r"
  "PrevHash (Apply m r) = PrevHash r" "Hash (Apply m r) = Hash r"
  by (simp_all add: Apply_def)

section \<open>What a validated mapping is\<close>

definition wf_mapping :: "mapping \<Rightarrow> bool" where
  "wf_mapping m \<longleftrightarrow> framework m \<noteq> [] \<and> distinct (map cid (controls m)) \<and> [] \<notin> cid ` set (controls m)
     \<and> (\<forall>ru\<in>set (rules m). rcollector ru \<noteq> [] \<and> rcontrols ru \<noteq> [] \<and> set (rcontrols ru) \<subseteq> cid ` set (controls m))"

lemma index_controls_ok:
  "ordered m \<Longrightarrow> (\<exists>ix. index_controls fw m cs = Inr ix) \<longleftrightarrow>
     distinct (map cid cs) \<and> [] \<notin> cid ` set cs \<and> cid ` set cs \<inter> set (keys m) = {}"
proof (induction fw m cs rule: index_controls.induct)
  case (2 fw m c cs)
  have "map_of m (cid c) = None \<longleftrightarrow> cid c \<notin> set (keys m)"
    using dom_map_of_keys [of m] by auto
  with 2 show ?case by (auto split: if_splits)
qed simp

lemma index_controls_lookup:
  "index_controls fw m cs = Inr ix \<Longrightarrow> ordered m \<Longrightarrow>
   map_of ix k = (case find (\<lambda>c. cid c = k) cs of Some c \<Rightarrow> Some c | None \<Rightarrow> map_of m k)"
proof (induction fw m cs rule: index_controls.induct)
  case (2 fw m c cs)
  then have IH: "map_of ix k = (case find (\<lambda>c. cid c = k) cs of Some c \<Rightarrow> Some c | None \<Rightarrow> map_of (put (cid c) c m) k)"
    and new: "map_of m (cid c) = None" and rest: "index_controls fw (put (cid c) c m) cs = Inr ix"
    by (auto split: if_splits)
  have "\<forall>c'\<in>set cs. cid c' \<noteq> cid c"
  proof -
    have "cid ` set cs \<inter> set (keys (put (cid c) c m)) = {}"
      using rest index_controls_ok [OF ordered_put [OF "2.prems"(2)], of fw "cid c" c cs] by blast
    then show ?thesis by (simp only: set_keys_put) blast
  qed
  then have "find (\<lambda>c. cid c = k) cs = None" if "k = cid c"
    using that by (simp add: find_None_iff)
  with IH "2.prems" show ?case by (auto split: option.split)
qed simp

lemma check_rules_ok:
  "check_rules fw m i rs = None \<longleftrightarrow>
     (\<forall>ru\<in>set rs. rcollector ru \<noteq> [] \<and> rcontrols ru \<noteq> [] \<and> set (rcontrols ru) \<subseteq> set (keys m))"
proof (induction fw m i rs rule: check_rules.induct)
  case (2 fw m i r rs)
  have "find (\<lambda>k. map_of m k = None) (rcontrols r) = None \<longleftrightarrow> set (rcontrols r) \<subseteq> set (keys m)"
    using dom_map_of_keys [of m] by (auto simp: find_None_iff)
  with 2 show ?case by (auto split: option.splits)
qed simp

lemma index_controls_keys:
  assumes "index_controls fw [] cs = Inr ix"
  shows "set (keys ix) = cid ` set cs"
proof -
  have "map_of ix k = find (\<lambda>c. cid c = k) cs" for k
    using index_controls_lookup [OF assms] by (simp split: option.split)
  then have d: "k \<in> dom (map_of ix) \<longleftrightarrow> find (\<lambda>c. cid c = k) cs \<noteq> None" for k
    by (simp add: domIff)
  have "k \<in> set (keys ix) \<longleftrightarrow> k \<in> cid ` set cs" for k
    using d [of k] by (auto simp: dom_map_of_keys find_None_iff)
  then show ?thesis by blast
qed

lemma validate_ok: "(\<exists>m'. validate m = Inr m') \<longleftrightarrow> wf_mapping m"
proof (cases "\<exists>ix. index_controls (framework m) [] (controls m) = Inr ix")
  case True
  then obtain ix where ix: "index_controls (framework m) [] (controls m) = Inr ix" by blast
  have "(\<exists>m'. validate m = Inr m') \<longleftrightarrow> framework m \<noteq> [] \<and> check_rules (framework m) ix 0 (rules m) = None"
    using ix by (auto simp: validate_def split: option.splits)
  then show ?thesis
    using index_controls_ok [of "[]" "framework m" "controls m"] ix index_controls_keys [OF ix]
    by (auto simp: wf_mapping_def check_rules_ok)
next
  case False
  then show ?thesis
    using index_controls_ok [of "[]" "framework m" "controls m"]
    by (auto simp: wf_mapping_def validate_def bindr_eq_Inr)
qed

lemma validate_result:
  assumes "validate m = Inr m'"
  shows "framework m' = framework m" "controls m' = controls m" "rules m' = rules m"
    "Control m' k = find (\<lambda>c. cid c = k) (controls m)"
  using assms index_controls_lookup [of "framework m" "[]" "controls m"]
  by (auto simp: validate_def Control_def bindr_eq_Inr split: if_splits option.splits)

text \<open>Every identifier a validated mapping gives a record names a control of its catalog.\<close>

lemma Apply_in_catalog:
  assumes "validate m = Inr m'" "k \<in> set (ControlIDs (Apply m' r))"
  shows "\<exists>c. Control m' k = Some c \<and> cid c = k"
proof -
  have "k \<in> mapped_ids m' r" using assms(2) by (simp add: Apply_ids)
  moreover have "wf_mapping m" using assms(1) validate_ok by blast
  ultimately have "k \<in> cid ` set (controls m)"
    using validate_result(3) [OF assms(1)] by (auto simp: mapped_ids_def wf_mapping_def)
  then have "find (\<lambda>c. cid c = k) (controls m) \<noteq> None" by (auto simp: find_None_iff)
  then show ?thesis using validate_result(4) [OF assms(1), of k] by (auto simp: find_Some_iff)
qed

section \<open>DORA\<close>

definition mk_rule :: "string \<Rightarrow> string \<Rightarrow> string list \<Rightarrow> rule" where
  "mk_rule c t ids = \<lparr>rcollector = c, rtargetType = t, rcontrols = ids\<rparr>"

definition dora_controls :: "control list" where
  "dora_controls = [
     \<lparr>cid = ''dora-6.1'', article = ''Article 6(1)'',
      title = ''ICT risk management framework'',
      summary = ''Entities maintain a sound, comprehensive and well-documented ICT risk management'' @
        '' framework enabling them to address ICT risk quickly and effectively. '' @
        ''Continuous, scheduled evidence collection (including the record of any '' @
        ''collection gaps) demonstrates the monitoring component of that framework in '' @
        ''operation.''\<rparr>,
     \<lparr>cid = ''dora-8.1'', article = ''Article 8(1)'',
      title = ''Identification of ICT assets'',
      summary = ''Entities identify, classify and adequately document all ICT supported business '' @
        ''functions, information assets and ICT assets. Inventories of workload images, '' @
        ''service accounts and certificates provide recurring, timestamped identification '' @
        ''evidence.''\<rparr>,
     \<lparr>cid = ''dora-9.2'', article = ''Article 9(2)'',
      title = ''Security of networks and data in transit'',
      summary = ''Entities design, procure and implement ICT security policies that ensure the '' @
        ''security of the means of transfer of data. Observed TLS endpoint posture '' @
        ''(protocol versions, certificate validity) evidences protection of data in '' @
        ''transit.''\<rparr>,
     \<lparr>cid = ''dora-9.3'', article = ''Article 9(3)'',
      title = ''Policies limiting access and preventing unauthorised software'',
      summary = ''Entities implement policies and protocols that prevent the execution of '' @
        ''unauthorised software and limit physical or logical access. Image provenance and'' @
        '' admission policy posture evidence controls over what software is admitted to '' @
        ''run.''\<rparr>,
     \<lparr>cid = ''dora-9.4c'', article = ''Article 9(4)(c)'',
      title = ''Cryptographic key and certificate management'',
      summary = ''Entities implement policies and protocols for strong authentication mechanisms '' @
        ''and protection measures of cryptographic keys. Certificate lifecycle evidence '' @
        ''(expiry, rotation history, issuer configuration, key parameters) demonstrates '' @
        ''managed cryptographic material.''\<rparr>,
     \<lparr>cid = ''dora-9.4d'', article = ''Article 9(4)(d)'',
      title = ''ICT access management'',
      summary = ''Entities implement policies limiting access rights to ICT assets to what is '' @
        ''required for legitimate functions, with accountability. RBAC posture evidence '' @
        ''(permission scope, privilege drift, service account sprawl) demonstrates ongoing'' @
        '' access-rights management.''\<rparr>,
     \<lparr>cid = ''dora-10.1'', article = ''Article 10(1)'',
      title = ''Detection of anomalous activities'',
      summary = ''Entities have mechanisms to promptly detect anomalous activities and monitoring '' @
        ''gaps. Records of failed collection attempts document that monitoring '' @
        ''interruptions are themselves detected and retained.''\<rparr>]"

definition dora_rules :: "rule list" where
  "dora_rules = [
     mk_rule ''tlsscan'' ''tls/endpoint'' [''dora-9.2''],
     mk_rule ''certlifecycle'' ''cert-manager/certificate'' [''dora-9.4c'', ''dora-8.1''],
     mk_rule ''certlifecycle'' ''cert-manager/issuer'' [''dora-9.4c''],
     mk_rule ''rbacposture'' ''rbac/cluster-role'' [''dora-9.4d''],
     mk_rule ''rbacposture'' ''rbac/binding'' [''dora-9.4d''],
     mk_rule ''rbacposture'' ''rbac/service-account'' [''dora-9.4d'', ''dora-8.1''],
     mk_rule ''provenance'' ''workload/image'' [''dora-9.3'', ''dora-8.1''],
     mk_rule ''provenance'' ''admission/policy'' [''dora-9.3''],
     mk_rule ''tlsscan'' ''evidenced/collector-run'' [''dora-10.1'', ''dora-6.1''],
     mk_rule ''certlifecycle'' ''evidenced/collector-run'' [''dora-10.1'', ''dora-6.1''],
     mk_rule ''rbacposture'' ''evidenced/collector-run'' [''dora-10.1'', ''dora-6.1''],
     mk_rule ''provenance'' ''evidenced/collector-run'' [''dora-10.1'', ''dora-6.1'']]"

definition dora :: mapping where
  "dora = \<lparr>framework = ''DORA'', controls = dora_controls, rules = dora_rules, byID = []\<rparr>"

lemma dora_valid: "wf_mapping dora"
  by (simp add: wf_mapping_def dora_def dora_controls_def dora_rules_def mk_rule_def)

end
