(* ===== verification/Scheduler.thy ===== *)
theory Scheduler
  imports Collector_Registry Control_Mapping
begin

text \<open>
  The scheduler (\<open>internal/core/scheduler.go\<close>): a cycle over all collectors, and the loop
  that runs a cycle at once and then at every tick until the context is cancelled. The clock
  is a stream of readings, \<open>n\<close> counting those taken; logging is left out. The last section follows
  the chain over whole runs, rotations included.
\<close>

definition TargetTypeCollectorRun :: string where
  "TargetTypeCollectorRun = ''evidenced/collector-run''"

type_synonym clock = "nat \<Rightarrow> gotime"

record ('st, 'e) scheduler =
  Registry :: "'e registry"
  Store :: "'st store"
  Mapping :: "mapping option"
  RotateAfter :: int
  Clock :: clock

section \<open>A cycle\<close>

text \<open>The record of a failed collector.\<close>

definition failure_record :: "'e collector \<Rightarrow> gotime \<Rightarrow> error \<Rightarrow> evidence_record" where
  "failure_record c now e = zero_record
     \<lparr>CollectorID := col_ID c, CollectorVersion := col_Version c,
      Target := \<lparr>TType = TargetTypeCollectorRun, TName = col_ID c, TAttributes = []\<rparr>,
      CollectedAt := now, Outcome := OutcomeFailed, Error := error_text e\<rparr>"

definition collected :: "clock \<Rightarrow> 'e \<Rightarrow> 'e collector \<Rightarrow> nat \<Rightarrow> evidence_record list \<times> nat" where
  "collected clk env c n = (case col_Collect c env of
     Inl e \<Rightarrow> ([failure_record c (clk n) e], Suc n) | Inr rs \<Rightarrow> (rs, n))"

text \<open>What the inner loop does to a record before it appends it.\<close>

definition prepare :: "clock \<Rightarrow> mapping option \<Rightarrow> evidence_record \<Rightarrow> nat \<Rightarrow> evidence_record \<times> nat" where
  "prepare clk m r n =
     (let (r1, n1) = (if is_zero (CollectedAt r) then (r\<lparr>CollectedAt := clk n\<rparr>, Suc n) else (r, n))
      in ((case m of Some mp \<Rightarrow> Apply mp r1 | None \<Rightarrow> r1), n1))"

fun append_records ::
  "'st store \<Rightarrow> clock \<Rightarrow> mapping option \<Rightarrow> string \<Rightarrow> evidence_record list \<Rightarrow> 'st \<Rightarrow> nat \<Rightarrow>
   error option \<times> 'st \<times> nat" where
  "append_records S clk m k [] st n = (None, st, n)"
| "append_records S clk m k (r # rs) st n =
     (case prepare clk m r n of (r1, n1) \<Rightarrow>
        case st_append S r1 st of
          (Some e, _, st') \<Rightarrow> (Some (Errorf ''append record from %s: %w'' [Str k] (Some e)), st', n1)
        | (None, _, st') \<Rightarrow> append_records S clk m k rs st' n1)"

fun run_collectors ::
  "'st store \<Rightarrow> clock \<Rightarrow> mapping option \<Rightarrow> 'e \<Rightarrow> 'e collector list \<Rightarrow> 'st \<Rightarrow> nat \<Rightarrow>
   error option \<times> 'st \<times> nat" where
  "run_collectors S clk m env [] st n = (None, st, n)"
| "run_collectors S clk m env (c # cs) st n =
     (case collected clk env c n of (rs, n1) \<Rightarrow>
        case append_records S clk m (col_ID c) rs st n1 of
          (Some e, st', n2) \<Rightarrow> (Some e, st', n2)
        | (None, st', n2) \<Rightarrow> run_collectors S clk m env cs st' n2)"

text \<open>Only a file store is rotated: the type assertion is whether the store can rotate.\<close>

definition rotate_first :: "('st, 'e) scheduler \<Rightarrow> 'st \<Rightarrow> nat \<Rightarrow> error option \<times> 'st \<times> nat" where
  "rotate_first s st n =
     (if RotateAfter s > 0 then
        (case st_rotate (Store s) of
           None \<Rightarrow> (None, st, n)
         | Some rot \<Rightarrow> (case rot (RotateAfter s) (Clock s n) st of
             (Inl e, st') \<Rightarrow> (Some (Errorf ''rotate store: %w'' [] (Some e)), st', Suc n)
           | (Inr archive, st') \<Rightarrow> (None, st', Suc n)))
      else (None, st, n))"

definition RunOnce :: "('st, 'e) scheduler \<Rightarrow> 'e \<Rightarrow> 'st \<Rightarrow> nat \<Rightarrow> error option \<times> 'st \<times> nat" where
  "RunOnce s env st n = (case rotate_first s st n of
     (Some e, st1, n1) \<Rightarrow> (Some e, st1, n1)
   | (None, st1, n1) \<Rightarrow>
       run_collectors (Store s) (Clock s) (Mapping s) env (registry_All (Registry s)) st1 n1)"

section \<open>The loop\<close>

text \<open>
  \<open>Run\<close> as a step relation: the scheduler is running, with the store and the readings
  taken so far, or it has returned an error. A tick runs a cycle in the environment of that
  moment; cancelling the context ends the loop.
\<close>

datatype 'st run_state = Running 'st nat | Returned error 'st

datatype 'e event = Tick 'e | Cancelled

fun cycle_result :: "error option \<times> 'st \<times> nat \<Rightarrow> 'st run_state" where
  "cycle_result (None, st, n) = Running st n"
| "cycle_result (Some e, st, n) = Returned e st"

definition Run_start :: "('st, 'e) scheduler \<Rightarrow> 'e \<Rightarrow> 'st \<Rightarrow> 'st run_state" where
  "Run_start s env st = cycle_result (RunOnce s env st 0)"

inductive run_step :: "('st, 'e) scheduler \<Rightarrow> 'e event \<Rightarrow> 'st run_state \<Rightarrow> 'st run_state \<Rightarrow> bool"
  for s where
  tick: "run_step s (Tick env) (Running st n) (cycle_result (RunOnce s env st n))"
| cancel: "run_step s Cancelled (Running st n) (Returned (Sentinel ErrCanceled) st)"

inductive run_reaches :: "('st, 'e) scheduler \<Rightarrow> 'st run_state \<Rightarrow> 'st run_state \<Rightarrow> bool" for s where
  here: "run_reaches s x x"
| step: "run_reaches s x y \<Longrightarrow> run_step s ev y z \<Longrightarrow> run_reaches s x z"

inductive_cases run_step_Returned: "run_step s ev (Returned e st) y"
inductive_simps run_step_Running: "run_step s ev (Running st n) y"

text \<open>The loop is a function of the events.\<close>

fun Run_events :: "('st, 'e) scheduler \<Rightarrow> 'st run_state \<Rightarrow> 'e event list \<Rightarrow> 'st run_state" where
  "Run_events s x [] = x"
| "Run_events s (Returned e st) evs = Returned e st"
| "Run_events s (Running st n) (Tick env # evs) = Run_events s (cycle_result (RunOnce s env st n)) evs"
| "Run_events s (Running st n) (Cancelled # evs) = Returned (Sentinel ErrCanceled) st"

definition Run :: "('st, 'e) scheduler \<Rightarrow> 'e \<Rightarrow> 'e event list \<Rightarrow> 'st \<Rightarrow> 'st run_state" where
  "Run s env evs st = Run_events s (Run_start s env st) evs"

lemma Run_events_Returned [simp]: "Run_events s (Returned e st) evs = Returned e st"
  by (cases evs) auto

lemma Run_events_snoc:
  "Run_events s x (evs @ [ev]) = (case Run_events s x evs of Returned e st \<Rightarrow> Returned e st
     | Running st n \<Rightarrow> (case ev of Tick env \<Rightarrow> cycle_result (RunOnce s env st n) | Cancelled \<Rightarrow> Returned (Sentinel ErrCanceled) st))"
  by (induction s x evs rule: Run_events.induct) (auto split: run_state.splits event.splits)

lemma run_reaches_trans: "run_reaches s y z \<Longrightarrow> run_reaches s x y \<Longrightarrow> run_reaches s x z"
  by (induction rule: run_reaches.induct) (auto intro: run_reaches.step)

lemma Run_events_reaches: "run_reaches s x (Run_events s x evs)"
proof (induction s x evs rule: Run_events.induct)
  case (3 s st n env evs)
  have "run_reaches s (Running st n) (cycle_result (RunOnce s env st n))"
    by (rule run_reaches.step [OF run_reaches.here run_step.tick])
  with 3 show ?case by (auto intro: run_reaches_trans)
next
  case (4 s st n evs)
  show ?case by (auto intro: run_reaches.step [OF run_reaches.here run_step.cancel])
qed (auto intro: run_reaches.here)

section \<open>What a cycle records\<close>

text \<open>
  The specification of a cycle: the records it appends, in order, whatever the store. A
  failing collector adds the one record of its failure.
\<close>

fun prepare_all :: "clock \<Rightarrow> mapping option \<Rightarrow> evidence_record list \<Rightarrow> nat \<Rightarrow> evidence_record list \<times> nat" where
  "prepare_all clk m [] n = ([], n)"
| "prepare_all clk m (r # rs) n =
     (case prepare clk m r n of (r1, n1) \<Rightarrow> case prepare_all clk m rs n1 of (rs1, n2) \<Rightarrow> (r1 # rs1, n2))"

fun cycle_records :: "clock \<Rightarrow> mapping option \<Rightarrow> 'e \<Rightarrow> 'e collector list \<Rightarrow> nat \<Rightarrow> evidence_record list \<times> nat" where
  "cycle_records clk m env [] n = ([], n)"
| "cycle_records clk m env (c # cs) n =
     (case collected clk env c n of (rs, n1) \<Rightarrow>
        case prepare_all clk m rs n1 of (rs1, n2) \<Rightarrow>
          case cycle_records clk m env cs n2 of (rs2, n3) \<Rightarrow> (rs1 @ rs2, n3))"

text \<open>What a collector adds to a cycle, in the terms of its result alone.\<close>

definition collector_adds :: "mapping option \<Rightarrow> 'e \<Rightarrow> 'e collector \<Rightarrow> evidence_record list \<Rightarrow> bool" where
  "collector_adds m env c rs \<longleftrightarrow> (let mapped = (case m of None \<Rightarrow> (\<lambda>r. r) | Some mp \<Rightarrow> Apply mp) in
     case col_Collect c env of
       Inl e \<Rightarrow> (\<exists>t. rs = [mapped \<lparr>ID = [], CollectorID = col_ID c, CollectorVersion = col_Version c,
         Target = \<lparr>TType = TargetTypeCollectorRun, TName = col_ID c, TAttributes = []\<rparr>, CollectedAt = t,
         Outcome = OutcomeFailed, Error = error_text e, Observation = [], ControlIDs = [], PrevHash = [], Hash = []\<rparr>])
     | Inr os \<Rightarrow> list_all2 (\<lambda>q r. \<exists>t. r = mapped (q\<lparr>CollectedAt := t\<rparr>) \<and> (is_zero (CollectedAt q) \<or> t = CollectedAt q)) os rs)"

lemma prepare_stamped:
  "\<exists>t. fst (prepare clk m q n) = (case m of None \<Rightarrow> (\<lambda>r. r) | Some mp \<Rightarrow> Apply mp) (q\<lparr>CollectedAt := t\<rparr>)
    \<and> (is_zero (CollectedAt q) \<or> t = CollectedAt q)"
  by (cases "is_zero (CollectedAt q)")
    (auto simp: prepare_def split: option.split intro: exI [of _ "clk n"] exI [of _ "CollectedAt q"])

lemma prepare_all_stamped:
  "list_all2 (\<lambda>q r. \<exists>t. r = (case m of None \<Rightarrow> (\<lambda>r. r) | Some mp \<Rightarrow> Apply mp) (q\<lparr>CollectedAt := t\<rparr>)
    \<and> (is_zero (CollectedAt q) \<or> t = CollectedAt q)) os (fst (prepare_all clk m os n))"
proof (induction os arbitrary: n)
  case (Cons q os)
  obtain r n1 where p: "prepare clk m q n = (r, n1)" by fastforce
  have "fst (prepare_all clk m (q # os) n) = r # fst (prepare_all clk m os n1)" by (simp add: p split: prod.split)
  moreover have "\<exists>t. r = (case m of None \<Rightarrow> (\<lambda>r. r) | Some mp \<Rightarrow> Apply mp) (q\<lparr>CollectedAt := t\<rparr>)
    \<and> (is_zero (CollectedAt q) \<or> t = CollectedAt q)"
    using prepare_stamped [of clk m q n] unfolding p fst_conv .
  ultimately show ?case using Cons.IH [of n1] by (simp only: list_all2_Cons)
qed simp

lemma collected_adds: "collector_adds m env c (fst (prepare_all clk m (fst (collected clk env c n)) n1))"
proof (cases "col_Collect c env")
  case (Inl e)
  show ?thesis
    using prepare_stamped [of clk m "failure_record c (clk n) e" n1] Inl
    by (auto simp: collector_adds_def collected_def failure_record_def zero_record_def Let_def split: prod.splits)
next
  case (Inr os)
  then show ?thesis using prepare_all_stamped [of m os clk n1]
    by (simp add: collector_adds_def collected_def Let_def)
qed

lemma cycle_records_adds:
  "cycle_records clk m env cs n = (ps, n') \<Longrightarrow> \<exists>pss. ps = concat pss \<and> list_all2 (collector_adds m env) cs pss"
proof (induction cs arbitrary: n ps)
  case (Cons c cs)
  obtain rs n1 where c: "collected clk env c n = (rs, n1)" by fastforce
  obtain rs1 n2 where p: "prepare_all clk m rs n1 = (rs1, n2)" by fastforce
  obtain rs2 n3 where q: "cycle_records clk m env cs n2 = (rs2, n3)" by fastforce
  obtain pss where "rs2 = concat pss" "list_all2 (collector_adds m env) cs pss" using Cons.IH q Cons.prems c p by fastforce
  moreover have "ps = rs1 @ rs2" using Cons.prems c p q by simp
  moreover have "collector_adds m env c rs1" using collected_adds [of m env c clk n n1] c p by simp
  ultimately show ?case by (intro exI [of _ "rs1 # pss"]) simp
qed simp

context evidence_store
begin

lemma append_records_ok:
  "holds st rs \<Longrightarrow> prepare_all clk m new n = (ps, n') \<Longrightarrow> \<forall>r\<in>set ps. room r \<Longrightarrow>
   \<exists>added st'. append_records S clk m k new st n = (None, st', n') \<and> holds st' (rs @ added)
     \<and> list_all2 stored_as ps added"
proof (induction new arbitrary: st rs n ps)
  case (Cons r new)
  obtain r1 n1 where p: "prepare clk m r n = (r1, n1)" by fastforce
  obtain ps' where ps': "prepare_all clk m new n1 = (ps', n')" "ps = r1 # ps'"
    using Cons.prems(2) p by (auto split: prod.splits)
  then have "room r1" using Cons.prems(3) by simp
  from append_law [OF Cons.prems(1) this] obtain r' st' where
    a: "st_append S r1 st = (None, r', st')" "holds st' (rs @ [r'])" "stored_as r1 r'" by blast
  from Cons.IH [OF a(2) ps'(1)] Cons.prems(3) ps'(2) obtain added st'' where
    "append_records S clk m k new st' n1 = (None, st'', n')" "holds st'' ((rs @ [r']) @ added)"
    "list_all2 stored_as ps' added" by auto
  with a p ps' show ?case by (intro exI [of _ "r' # added"] exI [of _ st'']) simp
qed simp

lemma run_collectors_ok:
  "holds st rs \<Longrightarrow> cycle_records clk m env cs n = (ps, n') \<Longrightarrow> \<forall>r\<in>set ps. room r \<Longrightarrow>
   \<exists>added st'. run_collectors S clk m env cs st n = (None, st', n') \<and> holds st' (rs @ added)
     \<and> list_all2 stored_as ps added"
proof (induction cs arbitrary: st rs n ps)
  case (Cons c cs)
  obtain qs n1 where q: "collected clk env c n = (qs, n1)" by fastforce
  obtain ps1 n2 where p1: "prepare_all clk m qs n1 = (ps1, n2)" by fastforce
  obtain ps2 where p2: "cycle_records clk m env cs n2 = (ps2, n')" "ps = ps1 @ ps2"
    using Cons.prems(2) q p1 by (auto split: prod.splits)
  have r: "\<forall>r\<in>set ps1. room r" "\<forall>r\<in>set ps2. room r" using Cons.prems(3) p2 by auto
  from append_records_ok [OF Cons.prems(1) p1 r(1)] obtain a1 st1 where
    a1: "append_records S clk m (col_ID c) qs st n1 = (None, st1, n2)" "holds st1 (rs @ a1)"
      "list_all2 stored_as ps1 a1" by blast
  from Cons.IH [OF a1(2) p2(1) r(2)] obtain a2 st2 where
    "run_collectors S clk m env cs st1 n2 = (None, st2, n')" "holds st2 ((rs @ a1) @ a2)"
    "list_all2 stored_as ps2 a2" by blast
  with a1 q p2 show ?case
    by (intro exI [of _ "a1 @ a2"] exI [of _ st2]) (simp add: list_all2_appendI)
qed simp

text \<open>
  A cycle without rotation: it returns no error whatever the collectors do, and the store
  then holds what it held and the records of the cycle.
\<close>

lemma RunOnce_ok:
  assumes "holds st rs" "Store s = S" "RotateAfter s \<le> 0"
    "cycle_records (Clock s) (Mapping s) env (registry_All (Registry s)) n = (ps, n')" "\<forall>r\<in>set ps. room r"
  shows "\<exists>added st'. RunOnce s env st n = (None, st', n') \<and> holds st' (rs @ added) \<and> list_all2 stored_as ps added"
  using run_collectors_ok [OF assms(1,4,5)] assms(2,3) by (simp add: RunOnce_def rotate_first_def)

end

text \<open>All the records the collectors will ever produce can be stored.\<close>

definition cycles_fit :: "('st, 'e) scheduler \<Rightarrow> bool" where
  "cycles_fit s \<longleftrightarrow> (\<forall>env n. \<forall>r\<in>set (fst (cycle_records (Clock s) (Mapping s) env
     (registry_All (Registry s)) n)). room r)"

context evidence_store
begin

lemma cycle_result_holds:
  assumes "holds st rs" "Store s = S" "RotateAfter s \<le> 0" "cycles_fit s"
  shows "\<exists>st' n' added. cycle_result (RunOnce s env st n) = Running st' n' \<and> holds st' (rs @ added)"
proof -
  obtain ps n' where c: "cycle_records (Clock s) (Mapping s) env (registry_All (Registry s)) n = (ps, n')" by fastforce
  then have "\<forall>r\<in>set ps. room r" using assms(4) unfolding cycles_fit_def by (metis fst_conv)
  from RunOnce_ok [OF assms(1-3) c this] show ?thesis by auto
qed

lemma run_reaches_holds:
  assumes "run_reaches s x y" "x = Run_start s env0 st0" "holds st0 rs0" "Store s = S"
    "RotateAfter s \<le> 0" "cycles_fit s"
  shows "case y of Running st n \<Rightarrow> \<exists>added. holds st (rs0 @ added)
    | Returned e st \<Rightarrow> e = Sentinel ErrCanceled \<and> (\<exists>added. holds st (rs0 @ added))"
  using assms
proof (induction rule: run_reaches.induct)
  case (here x)
  then show ?case
    using cycle_result_holds [of st0 rs0 s env0 0] by (auto simp: Run_start_def)
next
  case (step x y ev z)
  show ?case
  proof (cases y)
    case (Running st n)
    with step obtain added where h: "holds st (rs0 @ added)" by auto
    from step.hyps(2) Running show ?thesis
    proof (cases rule: run_step.cases)
      case (tick env)
      then show ?thesis using cycle_result_holds [OF h step.prems(3-5), of env n] Running by fastforce
    qed (use h Running in auto)
  next
    case (Returned e st)
    with step.hyps(2) show ?thesis by (auto elim: run_step_Returned)
  qed
qed

end

section \<open>A cycle with rotation\<close>

text \<open>
  How the records of a store come from those it started with: by additions, and by rotations, each
  leaving the record \<open>R\<close> allows for the chain before it.
\<close>

inductive continues :: "(evidence_record list \<Rightarrow> evidence_record \<Rightarrow> bool) \<Rightarrow> evidence_record list \<Rightarrow> evidence_record list \<Rightarrow> bool"
  for R rs0 where
  same: "continues R rs0 rs0"
| added: "continues R rs0 rs \<Longrightarrow> continues R rs0 (rs @ more_records)"
| rotated: "continues R rs0 rs \<Longrightarrow> R rs g \<Longrightarrow> continues R rs0 [g]"

lemma continues_extends: "continues R rs0 rs \<Longrightarrow> (\<And>ss g. \<not> R ss g) \<Longrightarrow> \<exists>added. rs = rs0 @ added"
  by (induction rule: continues.induct) auto

context rotating_store
begin

lemma RunOnce_rotating:
  assumes "holds st rs" "Store s = S" "RotateAfter s > 0" "room (rotation rs (Clock s n) st)"
    "cycle_records (Clock s) (Mapping s) env (registry_All (Registry s)) (Suc n) = (ps, n')" "\<forall>r\<in>set ps. room r"
  shows "\<exists>kept added st'. RunOnce s env st n = (None, st', n') \<and> holds st' (kept @ added)
    \<and> list_all2 stored_as ps added
    \<and> (kept = rs \<or> (\<exists>g. kept = [g] \<and> stored_as (rotation rs (Clock s n) st) g))"
proof -
  obtain a st1 where r: "rot (RotateAfter s) (Clock s n) st = (Inr a, st1)"
    "st1 = st \<or> (\<exists>g. holds st1 [g] \<and> stored_as (rotation rs (Clock s n) st) g)"
    using rotate_law [OF assms(1,4)] by blast
  then obtain kept where k: "holds st1 kept" "kept = rs \<or> (\<exists>g. kept = [g] \<and> stored_as (rotation rs (Clock s n) st) g)"
    using assms(1) by blast
  have "RunOnce s env st n = run_collectors S (Clock s) (Mapping s) env (registry_All (Registry s)) st1 (Suc n)"
    using r(1) assms(2,3) rotate_op by (simp add: RunOnce_def rotate_first_def)
  with run_collectors_ok [OF k(1) assms(5,6)] k(2) show ?thesis by metis
qed

lemma RunOnce_any:
  assumes "holds st rs" "Store s = S" "0 < RotateAfter s \<Longrightarrow> room (rotation rs (Clock s n) st)"
    "cycle_records (Clock s) (Mapping s) env (registry_All (Registry s)) (if 0 < RotateAfter s then Suc n else n) = (ps, n')"
    "\<forall>r\<in>set ps. room r"
  shows "\<exists>kept added st'. RunOnce s env st n = (None, st', n') \<and> holds st' (kept @ added) \<and> list_all2 stored_as ps added
    \<and> (kept = rs \<or> 0 < RotateAfter s \<and> (\<exists>g. kept = [g] \<and> stored_as (rotation rs (Clock s n) st) g))"
proof (cases "0 < RotateAfter s")
  case True
  then show ?thesis using RunOnce_rotating [OF assms(1,2) True assms(3)] assms(4,5) by simp
next
  case False
  then show ?thesis using RunOnce_ok [OF assms(1,2), of env n ps n'] assms(4,5) by fastforce
qed

lemma cycle_continues:
  assumes "holds st rs" "Store s = S" "0 < RotateAfter s \<Longrightarrow> room (rotation rs (Clock s n) st)" "cycles_fit s"
    "continues R rs0 rs" "\<And>g. 0 < RotateAfter s \<Longrightarrow> stored_as (rotation rs (Clock s n) st) g \<Longrightarrow> R rs g"
  shows "\<exists>st' n' rs'. cycle_result (RunOnce s env st n) = Running st' n' \<and> holds st' rs' \<and> continues R rs0 rs'"
proof -
  obtain ps n' where c: "cycle_records (Clock s) (Mapping s) env (registry_All (Registry s))
      (if 0 < RotateAfter s then Suc n else n) = (ps, n')" by fastforce
  then have "\<forall>r\<in>set ps. room r" using assms(4) unfolding cycles_fit_def by (metis fst_conv)
  from RunOnce_any [OF assms(1-3) c this] obtain kept added st' where
    r: "RunOnce s env st n = (None, st', n')" "holds st' (kept @ added)"
      "kept = rs \<or> 0 < RotateAfter s \<and> (\<exists>g. kept = [g] \<and> stored_as (rotation rs (Clock s n) st) g)" by blast
  have "continues R rs0 kept" using r(3) assms(5,6) by (auto intro: continues.rotated)
  then have "continues R rs0 (kept @ added)" by (rule continues.added)
  with r show ?thesis by auto
qed

text \<open>
  Every run, with or without rotation: as long as the chains a cycle starts from have fewer than \<open>L\<close>
  records, which are those whose rotation has room.
\<close>

lemma Run_continues:
  assumes "holds st0 rs0" "Store s = S" "cycles_fit s" "0 < RotateAfter s \<Longrightarrow> length rs0 < L"
    "\<And>st rs n. 0 < RotateAfter s \<Longrightarrow> holds st rs \<Longrightarrow> length rs < L \<Longrightarrow> room (rotation rs (Clock s n) st)"
    "\<And>st rs n g. 0 < RotateAfter s \<Longrightarrow> holds st rs \<Longrightarrow> stored_as (rotation rs (Clock s n) st) g \<Longrightarrow> R rs g"
    "\<And>k st n rs. 0 < RotateAfter s \<Longrightarrow> k < length evs \<Longrightarrow> Run s env0 (take k evs) st0 = Running st n \<Longrightarrow> holds st rs \<Longrightarrow> length rs < L"
  shows "\<exists>st rs. holds st rs \<and> continues R rs0 rs
    \<and> (if Cancelled \<in> set evs then Run s env0 evs st0 = Returned (Sentinel ErrCanceled) st
       else \<exists>n. Run s env0 evs st0 = Running st n)"
  using assms(7)
proof (induction evs rule: rev_induct)
  case Nil
  have "\<exists>st' n' rs'. cycle_result (RunOnce s env0 st0 0) = Running st' n' \<and> holds st' rs' \<and> continues R rs0 rs'"
    using assms(1-6) by (intro cycle_continues) (auto intro: continues.same)
  then show ?case by (auto simp: Run_def Run_start_def)
next
  case (snoc ev evs)
  have prefix: "length rs < L"
    if "0 < RotateAfter s" "k < length evs" "Run s env0 (take k evs) st0 = Running st n" "holds st rs" for k st n rs
    using snoc.prems [of k st n rs] that by simp
  note IH = snoc.IH [OF prefix]
  obtain st rs where h: "holds st rs" "continues R rs0 rs"
    "if Cancelled \<in> set evs then Run s env0 evs st0 = Returned (Sentinel ErrCanceled) st else \<exists>n. Run s env0 evs st0 = Running st n"
    by (rule exE [OF IH]) blast+
  show ?case
  proof (cases "Cancelled \<in> set evs")
    case True
    with h show ?thesis by (auto simp: Run_def Run_events_snoc)
  next
    case False
    with h(3) obtain n where n: "Run s env0 evs st0 = Running st n" by auto
    show ?thesis
    proof (cases ev)
      case (Tick env)
      have "length rs < L" if "0 < RotateAfter s" using snoc.prems [of "length evs" st n rs] that n h(1) by simp
      then have "\<exists>st' n' rs'. cycle_result (RunOnce s env st n) = Running st' n' \<and> holds st' rs' \<and> continues R rs0 rs'"
        using assms(2-6) h(1,2) by (intro cycle_continues) auto
      then show ?thesis using n Tick False by (auto simp: Run_def Run_events_snoc)
    next
      case Cancelled
      with h n show ?thesis by (auto simp: Run_def Run_events_snoc)
    qed
  qed
qed

end

text \<open>Names and times of archives that fit a rotation record.\<close>

definition archives_fit :: "path \<Rightarrow> clock \<Rightarrow> bool" where
  "archives_fit p clk \<longleftrightarrow> (\<forall>n. format_time (utc (clk n)) \<noteq> None \<and> valid_utf8 (filepath_Base (archive_path p (clk n)))
     \<and> length (json_escape (filepath_Base (archive_path p (clk n)))) \<le> 1000000)"

lemma path_rotation_room:
  assumes "path_holds H p st rs" "length rs < 2 ^ 62" "archives_fit p clk"
  shows "room (path_rotation p rs (clk n))"
proof -
  have "intact H rs" "digest_ok H" using assms(1) by (simp_all add: path_holds_def file_holds_def store_ok_def)
  then have "hash_text (head_hash rs)" by (rule hash_text_head)
  moreover have "length rs < 10 ^ 19" using assms(2) by simp
  then have "length (dec_digits (length rs)) \<le> 1000000"
    using length_dec_digits [of "length rs" 19] by simp
  moreover obtain ct where "format_time (utc (clk n)) = Some ct" using assms(3) by (auto simp: archives_fit_def)
  ultimately show ?thesis
    using assms(3) unfolding path_rotation_def archives_fit_def by (intro rotation_room) auto
qed

text \<open>The record a rotation of the scheduler leaves for a chain: it names the chain's head and length.\<close>

definition rotated_to :: "('st, 'e) scheduler \<Rightarrow> path \<Rightarrow> evidence_record list \<Rightarrow> evidence_record \<Rightarrow> bool" where
  "rotated_to s p rs g \<longleftrightarrow> 0 < RotateAfter s \<and> (\<exists>n. stored_as (path_rotation p rs (Clock s n)) g)"

lemma runs_continue:
  assumes "file_holds H st0 rs0" "Store s = file_store_ops H" "cycles_fit s"
    "RotateAfter s \<le> 0 \<or> archives_fit (spath (fst st0)) (Clock s) \<and> length rs0 < 2 ^ 62
      \<and> (\<forall>k<length evs. \<forall>st n rs. Run s env0 (take k evs) st0 = Running st n \<and> file_holds H st rs \<longrightarrow> length rs < 2 ^ 62)"
  shows "\<exists>st rs. file_holds H st rs \<and> Verify H rs = None \<and> continues (rotated_to s (spath (fst st0))) rs0 rs
    \<and> (if Cancelled \<in> set evs then Run s env0 evs st0 = Returned (Sentinel ErrCanceled) st
       else \<exists>n. Run s env0 evs st0 = Running st n)"
proof -
  let ?p = "spath (fst st0)"
  have h: "path_holds H ?p st0 rs0" using assms(1) by (simp add: path_holds_def)
  have "\<exists>st rs. path_holds H ?p st rs \<and> continues (rotated_to s ?p) rs0 rs
    \<and> (if Cancelled \<in> set evs then Run s env0 evs st0 = Returned (Sentinel ErrCanceled) st
       else \<exists>n. Run s env0 evs st0 = Running st n)"
  proof (rule fpath.Run_continues [OF h assms(2,3)])
    fix st rs n assume "0 < RotateAfter s" "path_holds H ?p st rs" "length rs < 2 ^ 62"
    then show "room (path_rotation ?p rs (Clock s n))"
      using assms(4) by (intro path_rotation_room) auto
  qed (use assms(4) in \<open>auto simp: rotated_to_def path_holds_def\<close>)
  then obtain st rs where "file_holds H st rs" "continues (rotated_to s ?p) rs0 rs"
    "if Cancelled \<in> set evs then Run s env0 evs st0 = Returned (Sentinel ErrCanceled) st else \<exists>n. Run s env0 evs st0 = Running st n"
    by (auto simp: path_holds_def)
  with fstore.held_chain_verifies show ?thesis by blast
qed

end
