(* ===== verification/Store_Faults.thy ===== *)
theory Store_Faults
  imports File_Store "HOL-Library.Sublist"
begin

text \<open>
  The store when calls of the operating system fail. Under every schedule of faults the
  operations only add to the files that are there (\<open>keeps\<close>), and every file stays under a
  name that is known beforehand (\<open>survives\<close>). What they do not survive
  is shown by runs: a failed write leaves the chain in memory ahead of the file, a
  rotation that fails after the close leaves a store that takes no more records, two stores
  on one file fork the chain, and a last line without its newline is opened and then glued
  to the next record.
\<close>

section \<open>Only growing\<close>

definition keeps :: "os \<Rightarrow> os \<Rightarrow> bool" where
  "keeps w w' \<longleftrightarrow> unused w \<le> unused w' \<and> (\<forall>i < unused w. prefix (inodes w i) (inodes w' i))"

lemma keeps_refl [simp]: "keeps w w"
  by (simp add: keeps_def)

lemma keeps_trans: "keeps a b \<Longrightarrow> keeps b c \<Longrightarrow> keeps a c"
  unfolding keeps_def by (meson order_less_le_trans order_trans prefix_order.trans)

lemma keeps_calls:
  "os_MkdirAll p w = (e, w') \<Longrightarrow> keeps w w'"
  "os_Open p w = (o', w') \<Longrightarrow> keeps w w'"
  "os_read i w = (b, e', w') \<Longrightarrow> keeps w w'"
  "os_OpenAppend p w = (o'', w') \<Longrightarrow> keeps w w'"
  "os_Write i d w = (e, w') \<Longrightarrow> keeps w w'"
  "os_Sync i w = (e, w') \<Longrightarrow> keeps w w'"
  "os_Close i w = (e, w') \<Longrightarrow> keeps w w'"
  "os_Rename p q w = (e, w') \<Longrightarrow> keeps w w'"
  by (auto simp: keeps_def os_MkdirAll_def os_Open_def os_read_def os_OpenAppend_def os_Write_def
      os_Sync_def os_Close_def os_Rename_def spend_def split: fault.splits option.splits)

lemma keeps_draw: "draw_id r w = (d, w') \<Longrightarrow> keeps w w'"
  by (simp add: keeps_def draw_id_world [of r w d w'])

lemma keeps_file:
  "file_Write s b w = (e, w') \<Longrightarrow> keeps w w'"
  "file_Sync s w = (e, w') \<Longrightarrow> keeps w w'"
  "file_Close s w = (e, s', w') \<Longrightarrow> keeps w w'"
  by (auto simp: file_Write_def file_Sync_def file_Close_def split: if_splits prod.splits dest: keeps_calls)

lemma keeps_readRecords: "readRecords p w = (x, w') \<Longrightarrow> keeps w w'"
  by (auto simp: readRecords_def split: prod.splits sum.splits dest!: keeps_calls(2,3) intro: keeps_trans)

lemma keeps_OpenFileStore: "OpenFileStore H p w = (x, w') \<Longrightarrow> keeps w w'"
  by (auto simp: OpenFileStore_def split: prod.splits sum.splits option.splits
      dest!: keeps_calls(1,4) keeps_readRecords intro: keeps_trans)

lemma keeps_appendLocked:
  assumes "appendLocked H r s w = (x, r', s', w')"
  shows "keeps w w'"
  using assms
  by (auto simp: appendLocked_def Let_def split: prod.splits sum.splits option.splits
      dest!: keeps_draw keeps_file(1,2) intro: keeps_trans)

lemma keeps_Append: "Append H r s w = (x, r', s', w') \<Longrightarrow> keeps w w'"
  by (simp add: Append_def keeps_appendLocked)

lemma keeps_MaybeRotate: "MaybeRotate H a now s w = (x, s', w') \<Longrightarrow> keeps w w'"
  by (auto simp: MaybeRotate_def Let_def split: if_splits prod.splits sum.splits option.splits
      dest!: keeps_file(3) keeps_calls(4,8) keeps_appendLocked intro: keeps_trans)

lemma Append_names:
  assumes "Append H r s w = (x, r', s', w')"
  shows "names w' = names w \<and> unused w' = unused w"
proof -
  have sync: "names w2 = names w1 \<and> unused w2 = unused w1"
    if "file_Sync t w1 = (e, w2)" for t w1 e w2
    using that by (auto simp: file_Sync_def os_Sync_def spend_def split: if_splits fault.splits)
  have wr: "names w2 = names w1 \<and> unused w2 = unused w1"
    if "file_Write t b w1 = (e, w2)" for t b w1 e w2
    using that by (auto simp: file_Write_def os_Write_def spend_def split: if_splits fault.splits)
  show ?thesis using assms
    by (auto simp: Append_def appendLocked_def Let_def draw_id_world split: prod.splits sum.splits option.splits
      dest!: sync wr)
qed

section \<open>Every file survives\<close>

text \<open>
  What \<open>keeps\<close> says of contents, said of names: the file at \<open>q\<close> is afterwards the beginning of the file at \<open>q'\<close>.
  Opening and appending leave every name where it is; a rotation, wherever it fails, leaves the store's
  file under its own name or under the archive's, and touches no third one. A file that has the archive's name already is lost:
  renaming replaces it.
\<close>

lemma os_names:
  "names (spend w) = names w" "names (snd (os_Write i b w)) = names w" "names (snd (os_Sync i w)) = names w"
  "names (snd (os_Close i w)) = names w" "names (snd (draw_id r w)) = names w"
  by (simp_all add: spend_def os_Write_def os_Sync_def os_Close_def draw_id_def rand_Read_def split: fault.split)

lemma appendLocked_names:
  assumes "appendLocked H r s w = (e, r', s', w')"
  shows "names w' = names w \<and> spath s' = spath s"
proof -
  obtain d w0 where d: "draw_id r w = (d, w0)" by fastforce
  have d0: "names w0 = names w" using os_names(5) [of r w] d by simp
  have wr: "names (snd (file_Write x b v)) = names v" "names (snd (file_Sync x v)) = names v" for x b v
    by (auto simp: file_Write_def file_Sync_def os_names)
  show ?thesis
    using assms d d0 wr by (auto simp: appendLocked_def Let_def split: prod.splits option.splits sum.splits) (metis snd_conv)+
qed

lemma MaybeRotate_names:
  assumes "MaybeRotate H age now s w = (x, s', w')" "q \<noteq> spath s" "q \<noteq> archive_path (spath s) now"
  shows "names w' q = names w q \<and> spath s' = spath s"
proof (cases "scount s = 0 \<or> is_zero (firstAt s) \<or> time_sub now (firstAt s) < age")
  case True
  with assms(1) show ?thesis by (auto simp: MaybeRotate_def)
next
  case False
  obtain e1 s1 w1 where c: "file_Close s w = (e1, s1, w1)" by (metis prod.collapse)
  then have 1: "names w1 = names w" "spath s1 = spath s"
    by (auto simp: file_Close_def split: if_splits prod.splits) (metis os_names(4) snd_conv)
  obtain e2 w2 where r: "os_Rename (spath s) (archive_path (spath s) now) w1 = (e2, w2)" by fastforce
  then have 2: "names w2 q = names w1 q"
    using assms(2,3) by (auto simp: os_Rename_def os_names split: fault.splits option.splits)
  obtain y w3 where o3: "os_OpenAppend (spath s) w2 = (y, w3)" by fastforce
  then have 3: "names w3 q = names w2 q"
    using assms(2) by (auto simp: os_OpenAppend_def os_names split: fault.splits option.splits)
  show ?thesis
    using assms(1) False c r o3 1 2 3
    by (auto simp: MaybeRotate_def Let_def split: option.splits sum.splits prod.splits dest!: appendLocked_names)
qed

definition survives :: "os \<Rightarrow> os \<Rightarrow> path \<Rightarrow> path \<Rightarrow> bool" where
  "survives w w' q q' \<longleftrightarrow> (\<forall>b. file_at w q = Some b \<longrightarrow> (\<exists>t. file_at w' q' = Some (b @ t)))"

lemma survives_names:
  assumes "os_ok w" "keeps w w'" "names w q = None \<or> names w' q' = names w q"
  shows "survives w w' q q'"
  unfolding survives_def
proof (intro allI impI)
  fix b assume "file_at w q = Some b"
  then obtain i where i: "names w q = Some i" "inodes w i = b" by (auto simp: file_at_def)
  then have "prefix b (inodes w' i)" using assms(1,2) by (auto simp: os_ok_def keeps_def)
  then show "\<exists>t. file_at w' q' = Some (b @ t)" using i assms(3) by (auto simp: file_at_def prefix_def)
qed

lemma same_names:
  "os_MkdirAll p w = (e, w') \<Longrightarrow> names w' = names w"
  "os_Open p w = (o', w') \<Longrightarrow> names w' = names w"
  "os_read i w = (b, e', w') \<Longrightarrow> names w' = names w"
  "os_Close i w = (e, w') \<Longrightarrow> names w' = names w"
  by (auto simp: os_MkdirAll_def os_Open_def os_read_def os_Close_def spend_def split: fault.splits option.splits)

lemma OpenAppend_names:
  "os_OpenAppend p w = (x, w') \<Longrightarrow> names w q = None \<or> names w' q = names w q"
  by (auto simp: os_OpenAppend_def spend_def split: fault.splits option.splits if_splits)

lemma readRecords_names: "readRecords p w = (x, w') \<Longrightarrow> names w' = names w"
  by (auto simp: readRecords_def split: prod.splits sum.splits dest!: same_names(2,3))

lemma OpenFileStore_survives:
  assumes "os_ok w" "OpenFileStore H p w = (x, w')"
  shows "survives w w' q q"
proof -
  have "names w q = None \<or> names w' q = names w q"
    using assms(2) by (auto simp: OpenFileStore_def split: prod.splits sum.splits option.splits
        dest!: same_names(1) readRecords_names dest: OpenAppend_names)
  then show ?thesis using assms keeps_OpenFileStore by (blast intro: survives_names)
qed

lemma Append_survives: "os_ok w \<Longrightarrow> Append H r s w = (x, r', s', w') \<Longrightarrow> survives w w' q q"
  by (rule survives_names) (simp_all add: Append_names keeps_Append)

lemma MaybeRotate_moves:
  assumes "MaybeRotate H age now s w = (x, s', w')"
  shows "names w (spath s) = None \<or> names w' (spath s) = names w (spath s)
    \<or> names w' (archive_path (spath s) now) = names w (spath s)"
proof (cases "scount s = 0 \<or> is_zero (firstAt s) \<or> time_sub now (firstAt s) < age")
  case True
  with assms show ?thesis by (auto simp: MaybeRotate_def)
next
  case False
  let ?p = "spath s" and ?a = "archive_path (spath s) now"
  obtain e1 s1 w1 where c: "file_Close s w = (e1, s1, w1)" by (metis prod.collapse)
  then have 1: "names w1 = names w" by (auto simp: file_Close_def split: if_splits prod.splits dest: same_names)
  obtain e2 w2 where r: "os_Rename ?p ?a w1 = (e2, w2)" by fastforce
  then have 2: "e2 \<noteq> None \<and> names w2 = names w1 \<or> names w2 ?a = names w1 ?p"
    using archive_path_differs [of ?p now] by (auto simp: os_Rename_def spend_def split: fault.splits option.splits)
  obtain y w3 where o3: "os_OpenAppend ?p w2 = (y, w3)" by fastforce
  then have 3: "names w3 ?a = names w2 ?a"
    using archive_path_differs [of ?p now] by (auto simp: os_OpenAppend_def spend_def split: fault.splits option.splits)
  show ?thesis
    using assms False c r o3 1 2 3
    by (auto simp: MaybeRotate_def Let_def split: option.splits sum.splits prod.splits dest!: Append_names [unfolded Append_def])
qed

lemma MaybeRotate_survives:
  assumes "os_ok w" "MaybeRotate H age now s w = (x, s', w')"
  shows "survives w w' (spath s) (spath s) \<or> survives w w' (spath s) (archive_path (spath s) now)"
    "q \<noteq> spath s \<Longrightarrow> q \<noteq> archive_path (spath s) now \<Longrightarrow> survives w w' q q"
  using assms keeps_MaybeRotate [OF assms(2)] MaybeRotate_moves [OF assms(2)] MaybeRotate_names [OF assms(2)]
  by (blast intro: survives_names)+

section \<open>A failed write\<close>

text \<open>
  The write of a record fails with nothing written: the error is returned, the file is as it
  was, but the chain in memory is at the hash of the lost record.
\<close>

lemma failed_write:
  assumes ok: "store_ok H s w rs" and f: "faults w = [Fault 0 e]"
    and d: "draw_id r w = (d, w0)" and seal: "Seal H d (schain s) r = (None, c, r')"
  shows "Append H r s w = (Some (Errorf ''write record %s: %w'' [Str (ID r')] (Some e)), r', s\<lparr>schain := c\<rparr>, spend w0)"
    "calm (spend w0)" "inodes (spend w0) = inodes w" "names (spend w0) = names w"
proof -
  obtain b where b: "marshal_record r' = Inr b" using seal by (rule sealed_encodes)
  have f0: "faults w0 = [Fault 0 e]" "inodes w0 = inodes w" "names w0 = names w"
    using f draw_id_world [OF d] by simp_all
  have "os_Write (sfile s) x w0 = (Some e, spend w0)" for x
    using f0 by (simp add: os_Write_def next_fault_def spend_def)
  moreover have "\<not> sclosed s" using ok by (simp add: store_ok_def)
  ultimately show "Append H r s w = (Some (Errorf ''write record %s: %w'' [Str (ID r')] (Some e)), r', s\<lparr>schain := c\<rparr>, spend w0)"
    using d seal b by (simp add: Append_def appendLocked_def Let_def file_Write_def)
  show "calm (spend w0)" "inodes (spend w0) = inodes w" "names (spend w0) = names w"
    using f0 by (simp_all add: calm_def spend_def)
qed

text \<open>
  A store whose chain is not at the head of its file: the next record is accepted, and from
  then on the file does not verify and the store does not open again.
\<close>

lemma diverged_append:
  assumes w: "calm w" "entropy_ok w" "digest_ok H" and s: "\<not> sclosed s" "names w (spath s) = Some (sfile s)"
      "inodes w (sfile s) = text_of rs" "\<forall>x\<in>set rs. storable x" "hash_text (lastHash (schain s))"
    and r: "room r"
  obtains r' s' w' where "Append H r s w = (None, r', s', w')" "All s' w' = (Inr (rs @ [r']), w')"
    "spath s' = spath s" "lastHash (schain s) \<noteq> head_hash rs \<Longrightarrow>
      Verify H (rs @ [r']) \<noteq> None \<and> (\<exists>e. fst (OpenFileStore H (spath s) w') = Inl e)"
proof -
  obtain d w0 where d: "draw_id r w = (d, w0)" by fastforce
  obtain c r' where seal: "Seal H d (schain s) r = (None, c, r')" using r by (rule room_seals)
  have st: "storable r'" by (rule sealed_storable [OF w(3) r d w(2) seal s(5)])
  note app = Append_calm [OF w(1) s(1) d seal]
  let ?w = "w0\<lparr>inodes := (inodes w0)(sfile s := inodes w0 (sfile s) @ record_line r')\<rparr>"
  have c: "calm ?w" "file_at ?w (spath s) = Some (text_of (rs @ [r']))"
    using w s draw_id_world [OF d] by (simp_all add: file_at_def)
  then have rd: "readRecords (spath s) ?w = (Inr (rs @ [r']), ?w)"
    using s(4) st by (intro readRecords_ok) auto
  have prev: "PrevHash r' = lastHash (schain s)"
    by (subst Seal_content [OF seal]) simp
  show thesis
  proof (rule that [OF app])
    assume "lastHash (schain s) \<noteq> head_hash rs"
    then have "\<not> intact H (rs @ [r'])" using prev by (simp add: intact_append)
    then show "Verify H (rs @ [r']) \<noteq> None \<and> (\<exists>e. fst (OpenFileStore H (spath s) ?w) = Inl e)"
      using OpenFileStore_refuses [OF c(1) rd, of H] by (auto simp: Verify_None_iff simp del: fun_upd_apply)
  qed (use rd in \<open>simp_all add: All_def\<close>)
qed

lemma failed_write_diverges:
  assumes ok: "store_ok H s w rs" "entropy_ok w" "digest_ok H" and f: "faults w = [Fault 0 e]"
    and r: "room r1" "room r2"
  shows "\<exists>x r1' s1 w1 r2' s2 w2. Append H r1 s w = (Some x, r1', s1, w1) \<and> inodes w1 = inodes w
    \<and> Append H r2 s1 w1 = (None, r2', s2, w2) \<and> All s2 w2 = (Inr (rs @ [r2']), w2)
    \<and> (Hash r1' \<noteq> head_hash rs \<longrightarrow> Verify H (rs @ [r2']) \<noteq> None
         \<and> (\<exists>e. fst (OpenFileStore H (spath s) w2) = Inl e))"
proof -
  obtain d w0 where d: "draw_id r1 w = (d, w0)" by fastforce
  obtain c r1' where seal: "Seal H d (schain s) r1 = (None, c, r1')" using r(1) by (rule room_seals)
  note fw = failed_write [OF ok(1) f d seal]
  have e: "entropy_ok (spend w0)" using ok(2) draw_id_world [OF d] by (simp add: entropy_ok_def spend_def)
  have s: "\<not> sclosed s" "names w (spath s) = Some (sfile s)" "inodes w (sfile s) = text_of rs" "\<forall>x\<in>set rs. storable x"
    using ok by (simp_all add: store_ok_def)
  note h = hash_text_sealed [OF seal ok(3)]
  obtain r2' s2 w2 where "Append H r2 (s\<lparr>schain := c\<rparr>) (spend w0) = (None, r2', s2, w2)"
    "All s2 w2 = (Inr (rs @ [r2']), w2)"
    "Hash r1' \<noteq> head_hash rs \<Longrightarrow> Verify H (rs @ [r2']) \<noteq> None \<and> (\<exists>e. fst (OpenFileStore H (spath s) w2) = Inl e)"
    by (rule diverged_append [OF fw(2) e ok(3), of "s\<lparr>schain := c\<rparr>" rs r2])
      (use s fw h r(2) in simp_all)
  with fw show ?thesis by blast
qed

section \<open>A rotation that stops half way\<close>

lemma closed_Append:
  assumes "sclosed s" "Append H r s w = (x, r', s', w')"
  shows "x \<noteq> None \<and> sclosed s' \<and> inodes w' = inodes w"
  using assms
  by (auto simp: Append_def appendLocked_def Let_def file_Write_def draw_id_world
      split: option.splits sum.splits prod.splits)

text \<open>
  Calls on one store, one after the other, each in whatever state the file system then is: the
  results of the appends among them.
\<close>

datatype store_call = CallAppend evidence_record | CallRotate int gotime

fun append_errors :: "digest \<Rightarrow> (store_call \<times> os) list \<Rightarrow> file_store \<Rightarrow> error option list" where
  "append_errors H [] s = []"
| "append_errors H ((CallAppend r, w) # cs) s = (case Append H r s w of (e, _, s', _) \<Rightarrow> e # append_errors H cs s')"
| "append_errors H ((CallRotate age now, w) # cs) s = (case MaybeRotate H age now s w of (_, s', _) \<Rightarrow> append_errors H cs s')"

lemma closed_MaybeRotate: "sclosed s \<Longrightarrow> MaybeRotate H age now s w = (x, s', w') \<Longrightarrow> sclosed s'"
  by (auto simp: MaybeRotate_def Let_def file_Close_def split: if_splits)

lemma closed_forever: "sclosed s \<Longrightarrow> None \<notin> set (append_errors H cs s)"
proof (induction cs arbitrary: s)
  case (Cons c cs)
  obtain x w where c: "c = (x, w)" by fastforce
  show ?case
  proof (cases x)
    case (CallAppend r)
    obtain e r' s' w' where a: "Append H r s w = (e, r', s', w')" by (metis prod.collapse)
    with Cons c CallAppend closed_Append [OF Cons.prems a] show ?thesis by auto
  next
    case (CallRotate age now)
    obtain e s' w' where a: "MaybeRotate H age now s w = (e, s', w')" by (metis prod.collapse)
    with Cons c CallRotate closed_MaybeRotate [OF Cons.prems a] show ?thesis by simp
  qed
qed simp

lemma failed_rename_wedges:
  assumes ok: "store_ok H s w rs" and f: "faults w = [Fine, Fault n e]"
    and old: "rs \<noteq> []" "\<not> is_zero (firstAt s)" "maxAge \<le> time_sub now (firstAt s)"
  shows "\<exists>x s1 w1. MaybeRotate H maxAge now s w = (Inl x, s1, w1) \<and> file_at w1 (spath s) = Some (text_of rs)
    \<and> (\<forall>cs. None \<notin> set (append_errors H cs s1))"
proof -
  have s: "\<not> sclosed s" "scount s = length rs" "names w (spath s) = Some (sfile s)"
    "inodes w (sfile s) = text_of rs" using ok by (simp_all add: store_ok_def)
  have "file_Close s w = (None, s\<lparr>sclosed := True\<rparr>, spend w)"
    using s f by (simp add: file_Close_def os_Close_def next_fault_def)
  moreover have "os_Rename p q (spend w) = (Some e, spend (spend w))" for p q
    using f by (simp add: os_Rename_def next_fault_def spend_def)
  ultimately have "MaybeRotate H maxAge now s w
      = (Inl (Errorf ''archive store: %w'' [] (Some e)), s\<lparr>sclosed := True\<rparr>, spend (spend w))"
    using old s by (simp add: MaybeRotate_def Let_def)
  moreover have "None \<notin> set (append_errors H cs (s\<lparr>sclosed := True\<rparr>))" for cs by (rule closed_forever) simp
  ultimately show ?thesis using s by (auto simp: file_at_def spend_def)
qed

section \<open>Two stores on one file\<close>

lemma two_stores_diverge:
  assumes w: "calm w" "entropy_ok w" "digest_ok H"
    and s: "store_ok H s w rs" "store_ok H t w rs" "spath s = spath t" and r: "room r" "room q"
  shows "\<exists>r' s' w1 q' t' w2. Append H r s w = (None, r', s', w1) \<and> Append H q t w1 = (None, q', t', w2)
    \<and> All s' w2 = (Inr (rs @ [r', q']), w2) \<and> (Hash r' \<noteq> head_hash rs \<longrightarrow> Verify H (rs @ [r', q']) \<noteq> None
         \<and> (\<exists>e. fst (OpenFileStore H (spath s) w2) = Inl e))"
proof -
  obtain r' s' w1 where a: "Append H r s w = (None, r', s', w1)" "store_ok H s' w1 (rs @ [r'])" "calm w1"
    "entropy_ok w1" "spath s' = spath s" "names w1 = names w"
    using Append_store_ok [OF w(1,2) s(1) w(3) r(1)] by metis
  have t: "\<not> sclosed t" "names w1 (spath t) = Some (sfile t)" "inodes w1 (sfile t) = text_of (rs @ [r'])"
    "\<forall>x\<in>set (rs @ [r']). storable x" "hash_text (lastHash (schain t))" "lastHash (schain t) = head_hash rs"
    using a s w hash_text_head by (auto simp: store_ok_def)
  obtain q' t' w2 where b: "Append H q t w1 = (None, q', t', w2)" "All t' w2 = (Inr ((rs @ [r']) @ [q']), w2)"
    "spath t' = spath t" "Hash r' \<noteq> head_hash rs \<Longrightarrow> Verify H ((rs @ [r']) @ [q']) \<noteq> None
         \<and> (\<exists>e. fst (OpenFileStore H (spath t) w2) = Inl e)"
    using diverged_append [OF a(3,4) w(3) t(1-5) r(2)] t(6) by (metis head_hash_simps(2))
  moreover have "All s' w2 = All t' w2" using a b s by (simp add: All_def)
  ultimately show ?thesis using a s(3) by (metis append.assoc append_Cons append_Nil)
qed

section \<open>A last line without its newline\<close>

lemma marshal_object:
  assumes "wf_record r" "marshal_record r = Inr b"
  obtains kvs where "wf_json (JObj kvs)" "b = render (JObj kvs)"
proof -
  obtain at v where "format_time (CollectedAt r) = Some at" "b = render (JObj (record_fields r at v))"
    "wf_json v" "depth v < 10000"
    using marshal_record_tree [of r b thesis] assms by (auto simp: wf_record_def simp del: render.simps)
  then show thesis using record_fields_wf that by blast
qed

lemma glued_lines_unreadable:
  assumes "wf_record r" "marshal_record r = Inr b" "wf_record q" "marshal_record q = Inr b'"
  shows "\<exists>e. unmarshal_record (b @ b') = Inl e" "drop_cr (b @ b') = b @ b'" "newline \<notin> set (b @ b')"
proof -
  obtain kvs kvs' where js: "wf_json (JObj kvs)" "b = render (JObj kvs)" "b' = render (JObj kvs')"
    using marshal_object [OF assms(1,2)] marshal_object [OF assms(3,4)] by metis
  have "json_spelled (b @ b') = None"
    using parse_two_objects [OF js(1), of "CHR ''{''"] js(2,3) by (simp add: render_JObj del: render.simps)
  then show "\<exists>e. unmarshal_record (b @ b') = Inl e" by (simp add: unmarshal_record_def)
  note l = marshal_line [OF assms(3,4)]
  have "butlast b' \<noteq> b'"
    using l(3) by (metis append_butlast_last_id append_self_conv list.distinct(1))
  then show "drop_cr (b @ b') = b @ b'" using l by (simp add: drop_cr_def split: if_splits)
  show "newline \<notin> set (b @ b')" using l(1) marshal_line(1) [OF assms(1,2)] by simp
qed

lemma open_last_line:
  assumes w: "calm w" "os_ok w" "entropy_ok w" "digest_ok H"
    and r: "storable r" "\<forall>x\<in>set rs. storable x" "intact H (rs @ [r])" "marshal_record r = Inr b"
    and content: "file_at w p = Some (text_of rs @ b)" and q: "room q"
  shows "\<exists>s w1 q' s' w2 e. OpenFileStore H p w = (Inr s, w1) \<and> Append H q s w1 = (None, q', s', w2)
    \<and> fst (All s' w2) = Inl e \<and> fst (OpenFileStore H p w2) = Inl e"
proof -
  have wf: "wf_record r" "length b < max_line" using r(1,4) by (auto simp: storable_def)
  note line = marshal_line [OF wf(1) r(4)]
  obtain i where i: "names w p = Some i" "inodes w i = text_of rs @ b" using content by (auto simp: file_at_def)
  have "lines b = [b]" using line by (simp add: lines_def lines_from_end)
  moreover have "unmarshal_record b = Inr r" using wf(1) r(4) by (rule unmarshal_marshal)
  ultimately have "readRecords p w = (Inr (rs @ [r]), w)"
    using readRecords_text [OF w(1) content r(2)] wf line by simp
  moreover have "Verify H (rs @ [r]) = None" using r(3) by (simp add: Verify_None_iff)
  ultimately obtain s where s: "OpenFileStore H p w = (Inr s, w)" "sfile s = i" "\<not> sclosed s"
    "lastHash (schain s) = head_hash (rs @ [r])" "spath s = p"
    using w i by (simp add: OpenFileStore_def calm_calls Resume_def)
  obtain d w0 where d: "draw_id q w = (d, w0)" by fastforce
  obtain c q' where seal: "Seal H d (schain s) q = (None, c, q')" using q by (rule room_seals)
  have "storable q'"
    using hash_text_head [OF r(3) w(4)] s(4) by (intro sealed_storable [OF w(4) q d w(3) seal]) simp
  then have wf': "wf_record q'" by (simp add: storable_def)
  obtain b' where b': "marshal_record q' = Inr b'" using seal by (rule sealed_encodes)
  note glued = glued_lines_unreadable [OF wf(1) r(4) wf' b']
  note app = Append_calm [OF w(1) s(3) d seal]
  define w2 where "w2 = w0\<lparr>inodes := (inodes w0)(sfile s := inodes w0 (sfile s) @ record_line q')\<rparr>"
  have w2: "calm w2" "file_at w2 p = Some (text_of rs @ b @ b' @ [newline])"
    using s i w b' draw_id_world [OF d] by (simp_all add: w2_def file_at_def record_line_def)
  have "lines (b @ b' @ [newline]) = [b @ b']" using lines_line [OF glued(3), of "[]"] by simp
  then have "\<exists>e. readRecords p w2 = (Inl e, w2)"
    using readRecords_text [OF w2 r(2)] glued line by (cases "max_line \<le> length b + length b'") auto
  then obtain e where e: "readRecords p w2 = (Inl e, w2)" ..
  then have "fst (OpenFileStore H p w2) = Inl e" using w2(1) by (simp add: OpenFileStore_def calm_calls)
  with s(1) app e s(5) show ?thesis by (fastforce simp: All_def w2_def)
qed

end
