(* ===== verification/Sha256.thy ===== *)
theory Sha256
  imports Evidence "HOL-Library.Word"
begin

text \<open>
  \<open>crypto/sha256\<close>, the digest of the records (\<open>evidence/record.go\<close>) and of the files of a
  bundle (\<open>internal/core/exporter.go\<close>, \<open>bundle/bundle.go\<close>), after FIPS 180-4: 32-bit
  words, blocks of 64 bytes, 64 rounds.
\<close>

unbundle bit_operations_syntax

type_synonym word32 = "32 word"

definition round_constants :: "word32 list" where
  "round_constants = [
     1116352408, 1899447441, 3049323471, 3921009573, 961987163, 1508970993,
     2453635748, 2870763221, 3624381080, 310598401, 607225278, 1426881987,
     1925078388, 2162078206, 2614888103, 3248222580, 3835390401, 4022224774,
     264347078, 604807628, 770255983, 1249150122, 1555081692, 1996064986,
     2554220882, 2821834349, 2952996808, 3210313671, 3336571891, 3584528711,
     113926993, 338241895, 666307205, 773529912, 1294757372, 1396182291,
     1695183700, 1986661051, 2177026350, 2456956037, 2730485921, 2820302411,
     3259730800, 3345764771, 3516065817, 3600352804, 4094571909, 275423344,
     430227734, 506948616, 659060556, 883997877, 958139571, 1322822218,
     1537002063, 1747873779, 1955562222, 2024104815, 2227730452, 2361852424,
     2428436474, 2756734187, 3204031479, 3329325298]"

definition initial_hash :: "word32 list" where
  "initial_hash = [
     1779033703, 3144134277, 1013904242, 2773480762, 1359893119, 2600822924,
     528734635, 1541459225]"

definition ror :: "nat \<Rightarrow> word32 \<Rightarrow> word32" where
  "ror n x = word_rotr n x"

definition chosen :: "word32 \<Rightarrow> word32 \<Rightarrow> word32 \<Rightarrow> word32" where
  "chosen e f g = (e AND f) XOR (NOT e AND g)"

definition majority :: "word32 \<Rightarrow> word32 \<Rightarrow> word32 \<Rightarrow> word32" where
  "majority a b c = (a AND b) XOR (a AND c) XOR (b AND c)"

definition big0 :: "word32 \<Rightarrow> word32" where "big0 x = ror 2 x XOR ror 13 x XOR ror 22 x"
definition big1 :: "word32 \<Rightarrow> word32" where "big1 x = ror 6 x XOR ror 11 x XOR ror 25 x"
definition small0 :: "word32 \<Rightarrow> word32" where "small0 x = ror 7 x XOR ror 18 x XOR drop_bit 3 x"
definition small1 :: "word32 \<Rightarrow> word32" where "small1 x = ror 17 x XOR ror 19 x XOR drop_bit 10 x"

text \<open>The message schedule, kept with its newest word first.\<close>

fun expand :: "nat \<Rightarrow> word32 list \<Rightarrow> word32 list" where
  "expand 0 ws = ws"
| "expand (Suc n) ws = expand n ((small1 (ws ! 1) + ws ! 6 + small0 (ws ! 14) + ws ! 15) # ws)"

definition schedule :: "word32 list \<Rightarrow> word32 list" where
  "schedule block = rev (expand 48 (rev block))"

fun sha_rounds :: "(word32 \<times> word32) list \<Rightarrow> word32 list \<Rightarrow> word32 list" where
  "sha_rounds ((k, w) # kws) [a, b, c, d, e, f, g, h] =
     (let t1 = h + big1 e + chosen e f g + k + w; t2 = big0 a + majority a b c in
      sha_rounds kws [t1 + t2, a, b, c, d + t1, e, f, g])"
| "sha_rounds kws hs = hs"

definition compress_block :: "word32 list \<Rightarrow> word32 list \<Rightarrow> word32 list" where
  "compress_block hs block =
     map2 (+) hs (sha_rounds (zip round_constants (schedule block)) hs)"

text \<open>Bytes and words, big-endian.\<close>

fun to_words :: "bytes \<Rightarrow> word32 list" where
  "to_words (a # b # c # d # s) =
     (push_bit 24 (of_char a) OR push_bit 16 (of_char b) OR push_bit 8 (of_char c) OR of_char d) # to_words s"
| "to_words _ = []"

definition word_bytes :: "word32 \<Rightarrow> bytes" where
  "word_bytes x = map (\<lambda>k. byte (unat (take_bit 8 (drop_bit k x)))) [24, 16, 8, 0]"

fun big_endian :: "nat \<Rightarrow> nat \<Rightarrow> bytes" where
  "big_endian 0 n = []"
| "big_endian (Suc k) n = big_endian k (n div 256) @ [byte (n mod 256)]"

definition sha_pad :: "bytes \<Rightarrow> bytes" where
  "sha_pad m = m @ byte 0x80 # replicate ((119 - length m mod 64) mod 64) (byte 0)
     @ big_endian 8 (8 * length m)"

fun blocks :: "nat \<Rightarrow> word32 list \<Rightarrow> word32 list list" where
  "blocks 0 ws = []"
| "blocks (Suc n) ws = take 16 ws # blocks n (drop 16 ws)"

definition Sum256 :: digest where
  "Sum256 m =
     (let ws = to_words (sha_pad m) in
      concat (map word_bytes
        (foldl compress_block initial_hash (blocks (length ws div 16) ws))))"

section \<open>The digest has 32 bytes\<close>

lemma length_big_endian [simp]: "length (big_endian k n) = k"
  by (induction k n rule: big_endian.induct) auto

lemma length_sha_rounds [simp]: "length (sha_rounds kws hs) = length hs"
  by (induction kws hs rule: sha_rounds.induct) (auto simp: Let_def)

lemma length_compress_block [simp]: "length (compress_block hs b) = length hs"
  by (simp add: compress_block_def)

lemma length_foldl_compress: "length (foldl compress_block hs bs) = length hs"
  by (induction bs arbitrary: hs) auto

lemma length_Sum256 [simp]: "length (Sum256 m) = 32"
proof -
  have "length (concat (map word_bytes ws)) = 4 * length ws" for ws
    by (induction ws) (auto simp: word_bytes_def)
  then show ?thesis by (simp add: Sum256_def Let_def length_foldl_compress initial_hash_def)
qed

text \<open>The padded message is a whole number of blocks.\<close>

lemma length_sha_pad: "64 dvd length (sha_pad m)"
proof -
  define r where "r = length m mod 64"
  define q where "q = length m div 64"
  have m: "length m = 64 * q + r" by (simp add: r_def q_def)
  have "r < 64" by (simp add: r_def)
  have "(119 - r) mod 64 = (if r \<le> 55 then 55 - r else 119 - r)"
  proof (cases "r \<le> 55")
    case True
    then have "119 - r = 64 + (55 - r)" by simp
    then have "(119 - r) mod 64 = (55 - r) mod 64" by (metis mod_add_self1)
    with True show ?thesis by simp
  qed (use \<open>r < 64\<close> in simp)
  then have "length (sha_pad m) = 64 * (q + (if r \<le> 55 then 1 else 2))"
    unfolding sha_pad_def r_def [symmetric] using m \<open>r < 64\<close> by auto
  then show ?thesis by simp
qed

text \<open>The first example of FIPS 180-4.\<close>

lemma Sum256_abc:
  "hex_encode (Sum256 ''abc'') = ''ba7816bf8f01cfea414140de5dae2223b00361a396177a9cb410ff61f20015ad''"
  by code_simp

end
