(* ===== verification/Samples.thy ===== *)
theory Samples
  imports Scheduler Store_Faults Sha256
begin

text \<open>
  Concrete inputs: a store just opened in an empty world, a record to append, a scheduler with
  one collector that observes and one that fails. The witnesses of the properties are stated
  over them.
\<close>

lemma digest_ok_Sum256 [simp]: "digest_ok Sum256"
  by (simp add: digest_ok_def)

definition sample_world :: os where
  "sample_world = \<lparr>names = (\<lambda>p. if p = ''e.jsonl'' then Some 0 else None), inodes = (\<lambda>i. []), unused = 1,
     faults = [], entropy = (\<lambda>n. replicate 16 (byte n)), drawn = 0\<rparr>"

definition sample_store :: file_store where
  "sample_store = \<lparr>spath = ''e.jsonl'', sfile = 0, sclosed = False, schain = NewChain,
     scount = 0, firstAt = zero_time\<rparr>"

definition sample_time :: gotime where
  "sample_time = Time (739620 * 86400 * second) 0"

definition sample_record :: evidence_record where
  "sample_record = zero_record\<lparr>CollectorID := ''tlsscan'', CollectorVersion := ''1'',
     Target := \<lparr>TType = ''tls/endpoint'', TName = ''a:443'', TAttributes = [(''k'', ''v'')]\<rparr>,
     CollectedAt := sample_time, Outcome := OutcomeObserved, Observation := render (JObj [(''n'', JLit (dec_digits 1))])\<rparr>"

lemma sample_world_facts [simp]:
  "calm sample_world" "os_ok sample_world" "entropy_ok sample_world"
  by (simp_all add: sample_world_def calm_def os_ok_def entropy_ok_def)

lemma sample_store_ok [simp]: "store_ok H sample_store sample_world []"
  by (simp add: store_ok_def sample_store_def sample_world_def os_ok_def NewChain_def)

lemma sample_format: "format_time sample_time = Some ''2026-01-05T00:00:00Z''"
  by code_simp

lemma sample_wf: "wf_record sample_record"
proof -
  have "wf_json (JObj [(''n'', JLit (dec_digits 1))])" "html_safe (JObj [(''n'', JLit (dec_digits 1))])"
    using plain_str_body [of "''n''"] by (simp_all add: plain_char_def code_def line_separator_def)
  then have "obs_ok (render (JObj [(''n'', JLit (dec_digits 1))]))"
    by (auto simp: obs_ok_def simp del: render.simps wf_json.simps html_safe.simps intro!: exI [of _ "JObj [(''n'', JLit (dec_digits 1))]"])
  then show ?thesis
    by (simp add: wf_record_def sample_record_def zero_record_def wf_target_def plain_valid code_def
        sample_time_def OutcomeObserved_def del: render.simps)
qed

lemma sample_observation: "compact (render (JObj [(''n'', JLit (dec_digits 1))])) = Some (JObj [(''n'', JLit (dec_digits 1))])"
  by code_simp

lemma sample_marshal: "marshal_record sample_record = Inr (render (JObj (record_fields sample_record
    ''2026-01-05T00:00:00Z'' (JObj [(''n'', JLit (dec_digits 1))]))))"
proof -
  have "CollectedAt sample_record = sample_time" "Observation sample_record = render (JObj [(''n'', JLit (dec_digits 1))])"
    by (simp_all add: sample_record_def)
  moreover have "render (JObj [(''n'', JLit (dec_digits 1))]) \<noteq> []" by simp
  ultimately show ?thesis using sample_format sample_observation by (simp add: marshal_record_def record_tree_def del: render.simps)
qed

lemma sample_room: "room sample_record"
proof -
  have "length (render (JObj (record_fields sample_record ''2026-01-05T00:00:00Z'' (JObj [(''n'', JLit (dec_digits 1))])))) < 1000"
    by code_simp
  then show ?thesis
    using sample_wf by (simp add: room_def sample_marshal max_line_def del: render.simps)
      (simp add: sample_record_def zero_record_def)
qed

section \<open>A chain and a store of one record\<close>

definition sample_draw :: bytes where
  "sample_draw = replicate 16 (byte 0)"

definition sample_sealed :: evidence_record where
  "sample_sealed = snd (snd (Seal Sum256 sample_draw NewChain sample_record))"

lemma sample_seal:
  obtains c where "Seal Sum256 sample_draw NewChain sample_record = (None, c, sample_sealed)"
proof -
  obtain c r where s: "Seal Sum256 sample_draw NewChain sample_record = (None, c, r)"
    using sample_room by (rule room_seals)
  then have "r = sample_sealed" by (simp add: sample_sealed_def)
  with s that show thesis by blast
qed

lemma sample_sealed_facts:
  "intact Sum256 [sample_sealed]" "storable sample_sealed" "wf_record sample_sealed" "CollectedAt sample_sealed = sample_time"
proof -
  obtain c where s: "Seal Sum256 sample_draw NewChain sample_record = (None, c, sample_sealed)"
    by (rule sample_seal)
  show "intact Sum256 [sample_sealed]"
    using Seal_extends [OF _ _ s, of "[]"] by (simp add: NewChain_def)
  have d: "draw_id sample_record sample_world = (sample_draw, sample_world\<lparr>drawn := 1\<rparr>)"
    by (simp add: draw_id_def rand_Read_def sample_world_def sample_draw_def sample_record_def zero_record_def)
  show st: "storable sample_sealed"
    by (rule sealed_storable [OF digest_ok_Sum256 sample_room d _ s]) (simp_all add: hash_text_def NewChain_def)
  then show "wf_record sample_sealed" by (simp add: storable_def)
  show "CollectedAt sample_sealed = sample_time"
    by (subst Seal_content [OF s]) (simp add: sample_record_def)
qed

definition sample_store1 :: file_store where
  "sample_store1 = \<lparr>spath = ''e.jsonl'', sfile = 0, sclosed = False, schain = Resume (Hash sample_sealed),
     scount = 1, firstAt = sample_time\<rparr>"

definition sample_world1 :: os where
  "sample_world1 = sample_world\<lparr>inodes := (\<lambda>i. if i = 0 then text_of [sample_sealed] else [])\<rparr>"

lemma sample_store1_ok [simp]: "store_ok Sum256 sample_store1 sample_world1 [sample_sealed]"
  using sample_sealed_facts
  by (simp add: store_ok_def sample_store1_def sample_world1_def sample_world_def os_ok_def Resume_def head_hash_def)

lemma sample_world1_facts [simp]:
  "calm sample_world1" "os_ok sample_world1" "entropy_ok sample_world1"
  by (simp_all add: sample_world1_def) (simp_all add: sample_world_def os_ok_def entropy_ok_def)

lemma sample_marshals:
  obtains b where "marshal_record sample_sealed = Inr b"
  using sample_sealed_facts(2) by (auto simp: storable_def split: sum.splits)

lemma sample_hash: "Hash sample_sealed \<noteq> []"
  by (rule sample_seal) (rule hash_text_sealed [OF _ digest_ok_Sum256])

lemma sample_seal_any:
  obtains c r1 where "Seal Sum256 sample_draw NewChain (sample_record\<lparr>Error := e\<rparr>) = (None, c, r1)"
proof (cases rule: Seal_cases [of "sample_record\<lparr>Error := e\<rparr>" Sum256 sample_draw NewChain])
  case sealed
  then show thesis by (simp add: sample_record_def zero_record_def)
next
  case (failed x r2)
  have "record_tree sample_record \<noteq> Inl y" for y
    using sample_marshal by (auto simp: marshal_record_def)
  with failed show thesis
    by (auto simp: computeHash_def marshal_record_def record_tree_def split: option.splits if_splits)
qed (use that in blast)

definition sample_later :: gotime where
  "sample_later = Time (739622 * 86400 * second) 0"

lemma sample_utc: "utc sample_time = sample_time" "utc sample_later = sample_later"
  by (simp_all add: utc_def sample_time_def sample_later_def)

lemma sample_stamps: "stamp sample_time = ''20260105-000000''" "stamp sample_later = ''20260107-000000''"
  by code_simp+

lemma sample_store1_fields: "spath sample_store1 = ''e.jsonl''" "firstAt sample_store1 = sample_time"
  by (simp_all add: sample_store1_def)

lemma sample_old: "\<not> is_zero (firstAt sample_store1)" "24 * hour \<le> time_sub sample_later (firstAt sample_store1)"
  unfolding sample_store1_fields by code_simp+

lemma sample_rotation_room:
  "room (rotation_record (Hash sample_sealed) (Suc 0) ''e-20260107-000000Z.jsonl'' sample_later)"
proof -
  have "format_time (utc sample_later) = Some ''2026-01-07T00:00:00Z''"
    "length (json_escape (filepath_Base ''e-20260107-000000Z.jsonl'')) = 24"
    "valid_utf8 (filepath_Base ''e-20260107-000000Z.jsonl'')" "length (dec_digits (Suc 0)) = 1"
    by code_simp+
  moreover have "hash_text (Hash sample_sealed)"
    using hash_text_head [OF sample_sealed_facts(1) digest_ok_Sum256] by (simp add: head_hash_def)
  ultimately show ?thesis by (intro rotation_room) simp_all
qed

lemma sample_store_faults: "store_ok H sample_store (sample_world\<lparr>faults := f\<rparr>) []"
  using sample_store_ok [of H] by (simp add: store_ok_def os_ok_def)

lemma sample_entropy_faults: "entropy_ok (sample_world\<lparr>faults := f\<rparr>)"
  using sample_world_facts(3) by (simp add: entropy_ok_def)

section \<open>A scheduler\<close>

definition sample_observer :: "nat collector" where
  "sample_observer = \<lparr>col_ID = ''tlsscan'', col_Version = ''1'', col_Description = [], col_RequiredAccess = [],
     col_Collect = (\<lambda>e. Inr [sample_record])\<rparr>"

definition sample_failing :: "nat collector" where
  "sample_failing = \<lparr>col_ID = ''rbacposture'', col_Version = ''1'', col_Description = [], col_RequiredAccess = [],
     col_Collect = (\<lambda>e. Inl (External ''refused''))\<rparr>"

definition sample_registry :: "nat registry" where
  "sample_registry = \<lparr>collectors = [(''rbacposture'', sample_failing), (''tlsscan'', sample_observer)]\<rparr>"

definition sample_clock :: clock where
  "sample_clock n = sample_time"

definition sample_scheduler :: "int \<Rightarrow> (file_state, nat) scheduler" where
  "sample_scheduler age = \<lparr>Registry = sample_registry, Store = file_store_ops Sum256, Mapping = Some dora,
     RotateAfter = age, Clock = sample_clock\<rparr>"

definition sample_failure :: evidence_record where
  "sample_failure = failure_record sample_failing sample_time (External ''refused'')"

lemma sample_apply:
  "ControlIDs (Apply dora sample_record) = [''dora-9.2'']"
  "ControlIDs (Apply dora sample_failure) = [''dora-10.1'', ''dora-6.1'']"
  by code_simp+

lemma sample_cycle:
  "cycle_records sample_clock (Some dora) env (registry_All sample_registry) n
     = ([Apply dora sample_failure, Apply dora sample_record], Suc n)"
proof -
  have "registry_All sample_registry = [sample_failing, sample_observer]"
    by (simp add: registry_All_def sample_registry_def sample_failing_def sample_observer_def)
  moreover have "\<not> is_zero sample_time" by code_simp
  ultimately show ?thesis
    by (simp add: collected_def sample_failing_def sample_observer_def prepare_def sample_clock_def
        sample_failure_def failure_record_def sample_record_def Let_def)
qed

lemma Apply_wf:
  assumes "wf_record r" "\<forall>c\<in>set (ControlIDs (Apply m r)). valid_utf8 c"
  shows "wf_record (Apply m r)"
  using assms by (simp add: wf_record_def)

lemma sample_cycle_room: "room (Apply dora sample_record)" "room (Apply dora sample_failure)"
proof -
  have "case marshal_record (Apply dora sample_record) of Inl e \<Rightarrow> False | Inr b \<Rightarrow> length b + 160 < 2000"
      "case marshal_record (Apply dora sample_failure) of Inl e \<Rightarrow> False | Inr b \<Rightarrow> length b + 160 < 2000"
    by code_simp+
  moreover have "wf_record (Apply dora sample_record)"
    using sample_wf by (rule Apply_wf) (simp add: sample_apply plain_valid code_def)
  moreover have "wf_record sample_failure"
    by (simp add: wf_record_def sample_failure_def failure_record_def zero_record_def wf_target_def plain_valid
        code_def sample_time_def OutcomeFailed_def obs_ok_def sample_failing_def TargetTypeCollectorRun_def)
  then have "wf_record (Apply dora sample_failure)"
    by (rule Apply_wf) (simp add: sample_apply plain_valid code_def)
  ultimately show "room (Apply dora sample_record)" "room (Apply dora sample_failure)"
    by (auto simp: room_def max_line_def sample_record_def sample_failure_def failure_record_def zero_record_def
        split: sum.splits)
qed

lemma sample_cycles_fit: "cycles_fit (sample_scheduler 0)"
  by (simp add: cycles_fit_def sample_scheduler_def sample_cycle sample_cycle_room)

end
