(* ===== verification/Collector_Kit.thy ===== *)
theory Collector_Kit
  imports Collector_Registry Control_Mapping
begin

text \<open>
  What the four collectors share: the JSON of their observations, the record they make of an
  observation (the method \<open>record\<close> each of them has), loops that read the clock, and the
  contract of a collector as a locale.
\<close>

section \<open>JSON of observations\<close>

definition jbool :: "bool \<Rightarrow> json" where
  "jbool b = JLit (if b then ''true'' else ''false'')"

definition jint :: "int \<Rightarrow> json" where
  "jint i = JLit (dec_int i)"

definition jnull :: json where
  "jnull = JLit ''null''"

text \<open>A slice without \<open>omitempty\<close>: nil, here the empty list, is \<open>null\<close>.\<close>

definition jslice :: "json list \<Rightarrow> json" where
  "jslice vs = (if vs = [] then jnull else JArr vs)"

text \<open>What an encoder writes: well-formed, safe for HTML, of a given depth at most.\<close>

definition enc :: "nat \<Rightarrow> json \<Rightarrow> bool" where
  "enc n v \<longleftrightarrow> wf_json v \<and> html_safe v \<and> depth v \<le> n"

definition plain_key :: "bytes \<Rightarrow> bool" where
  "plain_key k \<longleftrightarrow> list_all plain_char k"

definition enc_fields :: "nat \<Rightarrow> (bytes \<times> json) list \<Rightarrow> bool" where
  "enc_fields n kvs \<longleftrightarrow> (\<forall>kv\<in>set kvs. str_body (fst kv) \<and> escape_raw (fst kv) = fst kv \<and> enc n (snd kv))"

lemma plain_char_raw: "plain_char c \<Longrightarrow> raw_plain c"
  unfolding plain_char_def by (intro raw_plain_ascii) simp_all

lemma plain_key_ok: "plain_key k \<Longrightarrow> str_body k \<and> escape_raw k = k"
  using escape_raw_plains [of k "[]"] plain_str_body [of k] plain_char_raw
  by (simp add: plain_key_def list_all_iff)

lemma enc_fields_simps [simp]:
  "enc_fields n []"
  "enc_fields n (a @ b) \<longleftrightarrow> enc_fields n a \<and> enc_fields n b"
  "plain_key k \<Longrightarrow> enc_fields n (field k v) \<longleftrightarrow> enc n v"
  "plain_key k \<Longrightarrow> enc_fields n (field_unless om k v) \<longleftrightarrow> om \<or> enc n v"
  using plain_key_ok [of k] by (auto simp: enc_fields_def field_def field_unless_def)

lemma lit_ok_word: "lit_ok ''true''" "lit_ok ''false''" "lit_ok ''null''"
  by (auto simp: lit_ok_def is_ws_def scan_literal_def starts_def)

lemma lit_ok_neg:
  "lit_ok (CHR ''-'' # dec_digits n)"
proof -
  obtain c s where cs: "dec_digits n = c # s" and z: "c = CHR ''0'' \<longrightarrow> s = []"
    using dec_digits_Cons by blast
  have dig: "\<forall>x\<in>set (c # s). is_digit x" using dec_digits_are_digits [of _ n] cs by auto
  have "scan_literal (CHR ''-'' # (c # s) @ r) = Some (CHR ''-'' # c # s, r)" if "delim r" for r
  proof -
    note stop = delim_stops [OF that]
    have tw: "takeWhile is_digit ((c # s) @ r) = c # s" "dropWhile is_digit ((c # s) @ r) = r"
      using dig stop by (auto simp: takeWhile_append2 dropWhile_append2)
    have "scan_int ((c # s) @ r) = Some (c # s, r)"
      using z tw by (auto simp: scan_int_def scan_digits_def)
    with stop show ?thesis by (simp add: scan_literal_def starts_def scan_number_def Let_def)
  qed
  with cs show ?thesis by (simp add: lit_ok_def is_ws_def)
qed

lemma enc_simps [simp]:
  "enc n (jstr s)" "enc n (jint i)" "enc n (jbool b)" "enc n jnull"
  "enc (Suc n) (JArr vs) \<longleftrightarrow> (\<forall>v\<in>set vs. enc n v)"
  "enc (Suc n) (jslice vs) \<longleftrightarrow> (\<forall>v\<in>set vs. enc n v)"
  "enc (Suc n) (JObj kvs) \<longleftrightarrow> enc_fields n kvs"
  "format_time t = Some s \<Longrightarrow> enc n (JStr s)"
proof -
  show "enc n (jstr s)" by (simp add: enc_def)
  show "enc n (jint i)" by (simp add: enc_def jint_def dec_int_def lit_ok_neg)
  show "enc n (jbool b)" "enc n jnull" by (simp_all add: enc_def jbool_def jnull_def lit_ok_word)
  show arr: "enc (Suc n) (JArr vs) \<longleftrightarrow> (\<forall>v\<in>set vs. enc n v)"
    by (auto simp: enc_def simp del: depth.simps)
  then show "enc (Suc n) (jslice vs) \<longleftrightarrow> (\<forall>v\<in>set vs. enc n v)"
    by (simp add: jslice_def jnull_def lit_ok_word enc_def)
  show "enc (Suc n) (JObj kvs) \<longleftrightarrow> enc_fields n kvs"
    by (auto simp: enc_def enc_fields_def simp del: depth.simps)
  show "enc n (JStr s)" if f: "format_time t = Some s"
  proof -
    have p: "\<forall>c\<in>set s. plain_char c" using f by (rule format_time_plain)
    then have "plain_key s" by (simp add: plain_key_def list_all_iff)
    then show ?thesis using plain_key_ok [of s] by (simp add: enc_def)
  qed
qed

lemma enc_fields_map [simp]:
  "enc_fields n (map (\<lambda>(k, x). (json_escape k, f x)) m) \<longleftrightarrow> (\<forall>(k, x)\<in>set m. enc n (f x))"
  by (auto simp: enc_fields_def)

section \<open>Records of observations\<close>

text \<open>
  The method \<open>record\<close> of the collectors for the cluster: the observation's encoding, or a failed
  record when it has none.
\<close>

definition emit ::
  "string \<Rightarrow> string \<Rightarrow> string \<Rightarrow> string \<Rightarrow> (string \<times> string) list \<Rightarrow> gotime \<Rightarrow> json result \<Rightarrow> evidence_record" where
  "emit coll ver ttype name attrs now obs =
     (let rec = zero_record\<lparr>CollectorID := coll, CollectorVersion := ver,
            Target := \<lparr>TType = ttype, TName = name, TAttributes = attrs\<rparr>, CollectedAt := now\<rparr>
      in case obs of
           Inl e \<Rightarrow> rec\<lparr>Outcome := OutcomeFailed, Error := ''encode observation: '' @ error_text e\<rparr>
         | Inr v \<Rightarrow> rec\<lparr>Outcome := OutcomeObserved, Observation := render v\<rparr>)"

text \<open>A loop that reads the clock: \<open>n\<close> counts the readings.\<close>

fun thread :: "('a \<Rightarrow> nat \<Rightarrow> 'b \<times> nat) \<Rightarrow> 'a list \<Rightarrow> nat \<Rightarrow> 'b list \<times> nat" where
  "thread f [] n = ([], n)"
| "thread f (x # xs) n = (case f x n of (y, n1) \<Rightarrow> case thread f xs n1 of (ys, n2) \<Rightarrow> (y # ys, n2))"

lemma thread_all: "(\<And>x n. x \<in> set xs \<Longrightarrow> P (fst (f x n))) \<Longrightarrow> y \<in> set (fst (thread f xs n)) \<Longrightarrow> P y"
proof (induction xs arbitrary: n)
  case (Cons x xs)
  obtain z n1 where z: "f x n = (z, n1)" by fastforce
  obtain ys n2 where ys: "thread f xs n1 = (ys, n2)" by fastforce
  have "P z" using Cons.prems(1) [of x n] z by simp
  moreover have "y \<in> set ys \<Longrightarrow> P y" using Cons.IH [of n1] Cons.prems(1) ys by simp
  ultimately show ?case using Cons.prems(2) z ys by auto
qed simp

lemma thread_member: "x \<in> set xs \<Longrightarrow> \<exists>m. fst (f x m) \<in> set (fst (thread f xs n))"
proof (induction xs arbitrary: n)
  case (Cons y xs)
  show ?case
  proof (cases "x = y")
    case True
    then show ?thesis by (auto simp: split_beta intro!: exI [of _ n])
  next
    case False
    with Cons.IH [of "snd (f y n)"] Cons.prems show ?thesis by (auto simp: split_beta)
  qed
qed simp

lemma length_thread [simp]: "length (fst (thread f xs n)) = length xs"
proof (induction xs arbitrary: n)
  case (Cons x xs)
  then show ?case using Cons.IH [of "snd (f x n)"] by (simp add: split_beta)
qed simp

section \<open>The contract of a collector\<close>

text \<open>
  A record as a collector hands it to the scheduler: its own, of one of its target types, not yet
  stamped with an identifier, mapped or sealed; either observed, with an observation and no error,
  or failed, with an error and no observation.
\<close>

definition collected_by :: "string \<Rightarrow> string \<Rightarrow> string set \<Rightarrow> evidence_record \<Rightarrow> bool" where
  "collected_by coll ver types r \<longleftrightarrow> CollectorID r = coll \<and> CollectorVersion r = ver \<and> TType (Target r) \<in> types
     \<and> ID r = [] \<and> ControlIDs r = [] \<and> PrevHash r = [] \<and> Hash r = []
     \<and> (Outcome r = OutcomeObserved \<and> Error r = [] \<and> Observation r \<noteq> [] \<and> obs_ok (Observation r)
        \<or> Outcome r = OutcomeFailed \<and> Error r \<noteq> [] \<and> Observation r = [])"

lemma emit_collected:
  assumes "\<And>v. obs = Inr v \<Longrightarrow> enc 9999 v" "t \<in> types"
  shows "collected_by coll ver types (emit coll ver t name attrs now obs)"
proof (cases obs)
  case (Inl e)
  then show ?thesis using assms by (simp add: collected_by_def emit_def zero_record_def Let_def)
next
  case (Inr v)
  with assms have "enc 9999 v" by simp
  then have "obs_ok (render v)" "render v \<noteq> []"
    using render_not_Nil by (auto simp: enc_def intro!: obs_ok_render)
  with Inr assms(2) show ?thesis
    by (simp add: collected_by_def emit_def zero_record_def Let_def del: render.simps)
qed

text \<open>A mapping with a rule for each target type of the collector.\<close>

definition covers :: "mapping \<Rightarrow> string \<Rightarrow> string set \<Rightarrow> bool" where
  "covers m coll types \<longleftrightarrow> (\<forall>t\<in>types. \<exists>ru\<in>set (rules m). rcollector ru = coll \<and> rcontrols ru \<noteq> []
     \<and> (rtargetType ru = [] \<or> rtargetType ru = t))"

locale collector_contract =
  fixes col :: "'e collector" and types :: "string set"
  assumes collects: "col_Collect col env = Inr rs \<Longrightarrow> r \<in> set rs \<Longrightarrow>
      collected_by (col_ID col) (col_Version col) types r"
begin

text \<open>Then every record counts towards a control.\<close>

lemma covered:
  assumes "covers m (col_ID col) types" "col_Collect col env = Inr rs" "r \<in> set rs"
  shows "ControlIDs (Apply m r) \<noteq> []"
proof -
  have r: "TType (Target r) \<in> types" "CollectorID r = col_ID col"
    using collects [OF assms(2,3)] by (simp_all add: collected_by_def)
  then obtain ru where "ru \<in> set (rules m)" "rule_matches r ru" "rcontrols ru \<noteq> []"
    using assms(1) by (force simp: covers_def rule_matches_def)
  then have "mapped_ids m r \<noteq> {}" by (auto simp: mapped_ids_def dest: hd_in_set)
  then show ?thesis using Apply_ids [of m r] by simp
qed

text \<open>What the collector returns can be sealed and stored once it is stamped and mapped.\<close>

lemma unsealed:
  "col_Collect col env = Inr rs \<Longrightarrow> r \<in> set rs \<Longrightarrow> Hash (Apply m r) = [] \<and> obs_ok (Observation (Apply m r))"
  using collects [of env rs r] by (auto simp: collected_by_def obs_ok_def)

end

end
