(* ===== verification/Go_Float.thy ===== *)
theory Go_Float
  imports Go_Time Complex_Main "HOL-Library.Log_Nat"
begin

text \<open>
  The \<open>float64\<close> arithmetic behind \<open>int(d.Hours() / 24)\<close>: every operation is exact and then
  rounded to 53 bits, ties to even (no value here comes near the limits of the exponent).
\<close>

definition round_even :: "rat \<Rightarrow> int" where
  "round_even x =
     (let n = \<lfloor>x\<rfloor>; r = x - of_int n in
      if r < 1 / 2 then n else if r > 1 / 2 then n + 1 else if even n then n else n + 1)"

text \<open>The exponent of the unit in the last place of a positive number \<open>p / q\<close>.\<close>

definition ulp_exponent :: "int \<Rightarrow> int \<Rightarrow> int" where
  "ulp_exponent p q =
     (let e = bitlen p - bitlen q in
      (if (if e \<ge> 0 then q * 2 ^ nat e \<le> p else q \<le> p * 2 ^ nat (- e)) then e else e - 1) - 52)"

definition pow2 :: "int \<Rightarrow> rat" where
  "pow2 e = (if e \<ge> 0 then 2 ^ nat e else 1 / 2 ^ nat (- e))"

definition float64 :: "rat \<Rightarrow> rat" where
  "float64 x =
     (if x = 0 then 0
      else case quotient_of \<bar>x\<bar> of (p, q) \<Rightarrow>
        let u = pow2 (ulp_exponent p q) in sgn x * (of_int (round_even (\<bar>x\<bar> / u)) * u))"

text \<open>\<open>int(x)\<close> rounds toward zero.\<close>

definition truncate :: "rat \<Rightarrow> int" where
  "truncate x = (if x < 0 then - \<lfloor>- x\<rfloor> else \<lfloor>x\<rfloor>)"

text \<open>\<open>Duration.Hours\<close>; division and remainder of Go round toward zero.\<close>

definition quot :: "int \<Rightarrow> int \<Rightarrow> int" where
  "quot a b = (if a < 0 then - (- a div b) else a div b)"

definition hours :: "int \<Rightarrow> rat" where
  "hours d =
     (let h = quot d hour; ns = d - h * hour in
      float64 (float64 (of_int h) + float64 (float64 (of_int ns) / of_int hour)))"

definition whole_days :: "int \<Rightarrow> int" where
  "whole_days d = truncate (float64 (hours d / 24))"

end
