(* ===== verification/Cert_Lifecycle.thy ===== *)
theory Cert_Lifecycle
  imports Collector_Kit Go_Float
begin

text \<open>
  The cert-manager collector (\<open>internal/collectors/certlifecycle/certlifecycle.go\<close>). The objects of
  the dynamic client are Go values of type \<open>map[string]any\<close>; the accessors of the Kubernetes
  library on them (\<open>GetName\<close>, \<open>NestedString\<close> and the like) and the lists the API server
  answers are parameters.
\<close>

section \<open>Values\<close>

datatype anyval = AStr string | AMap "(string \<times> anyval) list" | AOther

type_synonym object = "(string \<times> anyval) list"

text \<open>The accessors: a value and, where the code looks at it, whether it was found.\<close>

record accessors =
  GetNamespace :: "object \<Rightarrow> string"
  GetName :: "object \<Rightarrow> string"
  NestedString :: "object \<Rightarrow> string list \<Rightarrow> string \<times> bool"
  NestedInt64 :: "object \<Rightarrow> string list \<Rightarrow> int"
  NestedStringSlice :: "object \<Rightarrow> string list \<Rightarrow> string list"
  NestedMap :: "object \<Rightarrow> string list \<Rightarrow> object \<times> bool"
  NestedSlice :: "object \<Rightarrow> string list \<Rightarrow> anyval list \<times> bool"

datatype cert_resource = Certificates | Issuers | ClusterIssuers

text \<open>What a run sees: the answers of the API server (no namespace is all of them), the clock.\<close>

record cert_env =
  ce_list :: "cert_resource \<Rightarrow> string option \<Rightarrow> object list result"
  ce_clock :: "nat \<Rightarrow> gotime"

record cert_config =
  cc_Namespaces :: "string list"

definition cert_collectorID :: string where "cert_collectorID = ''certlifecycle''"
definition cert_collectorVersion :: string where "cert_collectorVersion = ''0.1.0''"
definition TargetTypeCertificate :: string where "TargetTypeCertificate = ''cert-manager/certificate''"
definition TargetTypeIssuer :: string where "TargetTypeIssuer = ''cert-manager/issuer''"

definition cert_description :: string where
  "cert_description = ''cert-manager certificate and issuer lifecycle posture''"

definition cert_access :: "access_requirement list" where
  "cert_access =
     [\<lparr>arSystem = ''kubernetes'', arResource = ''cert-manager.io/certificates'', arAccess = ''get,list,watch'',
       arDescription = ''observes certificate validity, renewal and key parameters''\<rparr>,
      \<lparr>arSystem = ''kubernetes'', arResource = ''cert-manager.io/issuers,clusterissuers'', arAccess = ''get,list,watch'',
       arDescription = ''observes issuer configuration and readiness''\<rparr>]"

section \<open>Observations\<close>

record cert_observation =
  co_Namespace :: string
  co_Name :: string
  co_SecretName :: string
  co_IssuerKind :: string
  co_IssuerName :: string
  co_DNSNames :: "string list"
  co_NotBefore :: "gotime option"
  co_NotAfter :: "gotime option"
  co_RenewalTime :: "gotime option"
  co_DaysUntilExpiry :: "int option"
  co_Revision :: int
  co_Ready :: string
  co_ReadyReason :: string
  co_KeyAlgorithm :: string
  co_KeySize :: int
  co_KeyRotationPolicy :: string

text \<open>A pointer to a time with \<open>omitempty\<close>.\<close>

definition time_field :: "string \<Rightarrow> gotime option \<Rightarrow> (bytes \<times> json) list result" where
  "time_field k t = (case t of
     None \<Rightarrow> Inr []
   | Some x \<Rightarrow> (case format_time x of
       None \<Rightarrow> Inl (External ''json: error calling MarshalJSON for type *time.Time'')
     | Some s \<Rightarrow> Inr (field k (JStr s))))"

definition cert_json :: "cert_observation \<Rightarrow> json result" where
  "cert_json o1 =
     bindr (time_field ''notBefore'' (co_NotBefore o1)) (\<lambda>nb.
     bindr (time_field ''notAfter'' (co_NotAfter o1)) (\<lambda>na.
     bindr (time_field ''renewalTime'' (co_RenewalTime o1)) (\<lambda>rt.
       Inr (JObj (
         field ''namespace'' (jstr (co_Namespace o1)) @ field ''name'' (jstr (co_Name o1)) @
         field ''secretName'' (jstr (co_SecretName o1)) @ field ''issuerKind'' (jstr (co_IssuerKind o1)) @
         field ''issuerName'' (jstr (co_IssuerName o1)) @
         field_unless (co_DNSNames o1 = []) ''dnsNames'' (JArr (map jstr (co_DNSNames o1))) @
         nb @ na @ rt @
         (case co_DaysUntilExpiry o1 of None \<Rightarrow> [] | Some d \<Rightarrow> field ''daysUntilExpiry'' (jint d)) @
         field ''revision'' (jint (co_Revision o1)) @ field ''ready'' (jstr (co_Ready o1)) @
         field_unless (co_ReadyReason o1 = []) ''readyReason'' (jstr (co_ReadyReason o1)) @
         field_unless (co_KeyAlgorithm o1 = []) ''keyAlgorithm'' (jstr (co_KeyAlgorithm o1)) @
         field_unless (co_KeySize o1 = 0) ''keySize'' (jint (co_KeySize o1)) @
         field_unless (co_KeyRotationPolicy o1 = []) ''keyRotationPolicy'' (jstr (co_KeyRotationPolicy o1)))))))"

record issuer_observation =
  io_Namespace :: string
  io_Name :: string
  io_Scope :: string
  io_IssuerType :: string
  io_Ready :: string
  io_ReadyReason :: string

definition issuer_json :: "issuer_observation \<Rightarrow> json" where
  "issuer_json o1 = JObj (
     field_unless (io_Namespace o1 = []) ''namespace'' (jstr (io_Namespace o1)) @
     field ''name'' (jstr (io_Name o1)) @ field ''scope'' (jstr (io_Scope o1)) @
     field ''issuerType'' (jstr (io_IssuerType o1)) @ field ''ready'' (jstr (io_Ready o1)) @
     field_unless (io_ReadyReason o1 = []) ''readyReason'' (jstr (io_ReadyReason o1)))"

section \<open>Reading an object\<close>

definition nestedTime :: "accessors \<Rightarrow> object \<Rightarrow> string list \<Rightarrow> gotime option" where
  "nestedTime a u path =
     (case NestedString a u path of (s, found) \<Rightarrow>
        if \<not> found \<or> s = [] then None else map_option utc (parse_time s))"

text \<open>A type assertion to \<open>string\<close> without a check gives the empty string.\<close>

definition any_string :: "anyval option \<Rightarrow> string" where
  "any_string v = (case v of Some (AStr s) \<Rightarrow> s | _ \<Rightarrow> [])"

fun ready_in :: "anyval list \<Rightarrow> string \<times> string" where
  "ready_in [] = (''Unknown'', [])"
| "ready_in (AMap cond # cs) =
     (if any_string (map_of cond ''type'') = ''Ready''
      then (any_string (map_of cond ''status''), any_string (map_of cond ''reason''))
      else ready_in cs)"
| "ready_in (c # cs) = ready_in cs"

definition readyCondition :: "accessors \<Rightarrow> object \<Rightarrow> string \<times> string" where
  "readyCondition a u = (case NestedSlice a u [''status'', ''conditions''] of
     (conds, found) \<Rightarrow> if found then ready_in conds else (''Unknown'', []))"

definition issuerType :: "accessors \<Rightarrow> object \<Rightarrow> string" where
  "issuerType a u = (case NestedMap a u [''spec''] of
     (spec, found) \<Rightarrow>
       if \<not> found then ''unknown''
       else (case find (\<lambda>t. map_of spec t \<noteq> None) [''acme'', ''ca'', ''vault'', ''selfSigned'', ''venafi''] of
         Some t \<Rightarrow> t | None \<Rightarrow> ''unknown''))"

section \<open>Records\<close>

definition cert_record :: "string \<Rightarrow> string \<Rightarrow> (string \<times> string) list \<Rightarrow> gotime \<Rightarrow> json result \<Rightarrow> evidence_record" where
  "cert_record ttype name attrs now obs =
     emit cert_collectorID cert_collectorVersion ttype name attrs now obs"

text \<open>The clock is read for the days left, if the certificate has an end, and for the record.\<close>

definition certRecord :: "accessors \<Rightarrow> (nat \<Rightarrow> gotime) \<Rightarrow> object \<Rightarrow> nat \<Rightarrow> evidence_record \<times> nat" where
  "certRecord a clk u n =
     (let na = nestedTime a u [''status'', ''notAfter''];
          (days, n1) = (case na of
             None \<Rightarrow> (None, n)
           | Some t \<Rightarrow> (Some (whole_days (time_sub t (clk n))), Suc n));
          (ready, reason) = readyCondition a u;
          o1 = \<lparr>co_Namespace = GetNamespace a u, co_Name = GetName a u,
             co_SecretName = fst (NestedString a u [''spec'', ''secretName'']),
             co_IssuerKind = fst (NestedString a u [''spec'', ''issuerRef'', ''kind'']),
             co_IssuerName = fst (NestedString a u [''spec'', ''issuerRef'', ''name'']),
             co_DNSNames = NestedStringSlice a u [''spec'', ''dnsNames''],
             co_NotBefore = nestedTime a u [''status'', ''notBefore''],
             co_NotAfter = na,
             co_RenewalTime = nestedTime a u [''status'', ''renewalTime''],
             co_DaysUntilExpiry = days,
             co_Revision = NestedInt64 a u [''status'', ''revision''],
             co_Ready = ready, co_ReadyReason = reason,
             co_KeyAlgorithm = fst (NestedString a u [''spec'', ''privateKey'', ''algorithm'']),
             co_KeySize = NestedInt64 a u [''spec'', ''privateKey'', ''size''],
             co_KeyRotationPolicy = fst (NestedString a u [''spec'', ''privateKey'', ''rotationPolicy''])\<rparr>
      in (cert_record TargetTypeCertificate (GetNamespace a u @ ''/'' @ GetName a u)
            [(''namespace'', GetNamespace a u)] (clk n1) (cert_json o1), Suc n1))"

definition issuerRecord :: "accessors \<Rightarrow> (nat \<Rightarrow> gotime) \<Rightarrow> string \<Rightarrow> object \<Rightarrow> nat \<Rightarrow> evidence_record \<times> nat" where
  "issuerRecord a clk scope u n =
     (let (ready, reason) = readyCondition a u;
          o1 = \<lparr>io_Namespace = GetNamespace a u, io_Name = GetName a u, io_Scope = scope,
             io_IssuerType = issuerType a u, io_Ready = ready, io_ReadyReason = reason\<rparr>;
          name = (if scope = ''Issuer'' then GetNamespace a u @ ''/'' @ GetName a u else GetName a u)
      in (cert_record TargetTypeIssuer name [(''scope'', scope)] (clk n) (Inr (issuer_json o1)), Suc n))"

section \<open>Collecting\<close>

fun list_namespaces :: "(string option \<Rightarrow> 'o list result) \<Rightarrow> string list \<Rightarrow> 'o list result" where
  "list_namespaces l [] = Inr []"
| "list_namespaces l (ns # nss) =
     bindr (l (Some ns)) (\<lambda>xs. bindr (list_namespaces l nss) (\<lambda>ys. Inr (xs @ ys)))"

definition cert_list :: "cert_config \<Rightarrow> cert_env \<Rightarrow> cert_resource \<Rightarrow> object list result" where
  "cert_list cfg env res =
     (if cc_Namespaces cfg = [] then ce_list env res None
      else list_namespaces (ce_list env res) (cc_Namespaces cfg))"

definition cert_Collect :: "accessors \<Rightarrow> cert_config \<Rightarrow> cert_env \<Rightarrow> evidence_record list result" where
  "cert_Collect a cfg env =
     bindr (wrap ''list certificates: %w'' [] (cert_list cfg env Certificates)) (\<lambda>certs.
       case thread (certRecord a (ce_clock env)) certs 0 of (rs1, n1) \<Rightarrow>
     bindr (wrap ''list issuers: %w'' [] (cert_list cfg env Issuers)) (\<lambda>iss.
       case thread (issuerRecord a (ce_clock env) ''Issuer'') iss n1 of (rs2, n2) \<Rightarrow>
     bindr (wrap ''list clusterissuers: %w'' [] (ce_list env ClusterIssuers None)) (\<lambda>cis.
       case thread (issuerRecord a (ce_clock env) ''ClusterIssuer'') cis n2 of (rs3, n3) \<Rightarrow>
     Inr (rs1 @ rs2 @ rs3))))"

definition cert_collector :: "accessors \<Rightarrow> cert_config \<Rightarrow> cert_env collector" where
  "cert_collector a cfg = \<lparr>col_ID = cert_collectorID, col_Version = cert_collectorVersion, col_Description = cert_description,
     col_RequiredAccess = cert_access,
     col_Collect = cert_Collect a cfg\<rparr>"

definition cert_types :: "string set" where
  "cert_types = {TargetTypeCertificate, TargetTypeIssuer}"

section \<open>The contract\<close>

lemma time_field_enc: "time_field k t = Inr fs \<Longrightarrow> plain_key k \<Longrightarrow> enc_fields n fs"
  by (auto simp: time_field_def split: option.splits)

lemma plain_literals [simp]:
  "plain_key ''namespace''" "plain_key ''name''" "plain_key ''secretName''" "plain_key ''issuerKind''"
  "plain_key ''issuerName''" "plain_key ''dnsNames''" "plain_key ''notBefore''" "plain_key ''notAfter''"
  "plain_key ''renewalTime''" "plain_key ''daysUntilExpiry''" "plain_key ''revision''" "plain_key ''ready''"
  "plain_key ''readyReason''" "plain_key ''keyAlgorithm''" "plain_key ''keySize''" "plain_key ''keyRotationPolicy''"
  "plain_key ''scope''" "plain_key ''issuerType''"
  by (simp_all add: plain_key_def plain_char_def code_def)

lemma cert_json_enc: "cert_json o1 = Inr v \<Longrightarrow> enc (Suc (Suc n)) v"
  by (auto simp: cert_json_def bindr_eq_Inr dest!: time_field_enc [where n = "Suc n"] split: option.split)

lemma issuer_json_enc: "enc (Suc n) (issuer_json o1)"
  by (simp add: issuer_json_def)

lemma certRecord_ok:
  "collected_by cert_collectorID cert_collectorVersion cert_types (fst (certRecord a clk u n))"
proof -
  have "collected_by cert_collectorID cert_collectorVersion cert_types
      (cert_record TargetTypeCertificate name attrs now (cert_json o1))" for name attrs now o1
    unfolding cert_record_def
    using cert_json_enc [of o1 _ 9997] by (intro emit_collected) (simp_all add: cert_types_def)
  then show ?thesis by (simp add: certRecord_def Let_def split_beta)
qed

lemma issuerRecord_ok:
  "collected_by cert_collectorID cert_collectorVersion cert_types (fst (issuerRecord a clk scope u n))"
proof -
  have "collected_by cert_collectorID cert_collectorVersion cert_types
      (cert_record TargetTypeIssuer name attrs now (Inr (issuer_json o1)))" for name attrs now o1
    unfolding cert_record_def
    using issuer_json_enc [of 9998 o1] by (intro emit_collected) (simp_all add: cert_types_def)
  then show ?thesis by (simp add: issuerRecord_def Let_def split_beta)
qed

lemma cert_Collect_records:
  assumes "cert_Collect a cfg env = Inr rs" "r \<in> set rs"
  shows "collected_by cert_collectorID cert_collectorVersion cert_types r"
proof -
  let ?ok = "collected_by cert_collectorID cert_collectorVersion cert_types"
  have c: "r \<in> set (fst (thread (certRecord a clk) xs m)) \<Longrightarrow> ?ok r" for clk xs m
    by (rule thread_all [where P = ?ok]) (rule certRecord_ok)
  have i: "r \<in> set (fst (thread (issuerRecord a clk s) xs m)) \<Longrightarrow> ?ok r" for clk s xs m
    by (rule thread_all [where P = ?ok]) (rule issuerRecord_ok)
  show ?thesis using assms
    by (auto simp: cert_Collect_def bindr_eq_Inr split_beta intro: c i)
qed

interpretation certlifecycle: collector_contract "cert_collector a cfg" cert_types for a cfg
  by unfold_locales (simp add: cert_collector_def cert_Collect_records)

text \<open>One record per certificate and issuer, none dropped, and an error if any list fails.\<close>

lemma cert_Collect_counts:
  assumes "cc_Namespaces cfg = []"
  shows "case (ce_list env Certificates None, ce_list env Issuers None, ce_list env ClusterIssuers None) of
      (Inr xs, Inr ys, Inr zs) \<Rightarrow> (\<exists>rs. cert_Collect a cfg env = Inr rs \<and> length rs = length xs + length ys + length zs)
    | _ \<Rightarrow> \<exists>e. cert_Collect a cfg env = Inl e"
  using assms by (auto simp: cert_Collect_def cert_list_def split_beta split: sum.split)

end
