(* ===== verification/Rbac_Posture.thy ===== *)
theory Rbac_Posture
  imports Collector_Kit
begin

text \<open>
  The RBAC collector (\<open>internal/collectors/rbacposture/rbacposture.go\<close>): privileged cluster
  roles, bindings to \<open>cluster-admin\<close> and the number of service accounts. The lists the API
  server answers are what a run sees; of its objects the fields the code reads are kept.
\<close>

section \<open>Objects of the cluster\<close>

record policy_rule =
  Verbs :: "string list"
  APIGroups :: "string list"
  Resources :: "string list"

record cluster_role =
  role_Name :: string
  role_Rules :: "policy_rule list"

record role_subject =
  sub_Kind :: string
  sub_Name :: string
  sub_Namespace :: string

record role_binding =
  rb_Name :: string
  rb_RoleRef :: string
  rb_Subjects :: "role_subject list"

record service_account =
  sa_Namespace :: string
  sa_Name :: string

record rbac_env =
  re_roles :: "cluster_role list result"
  re_bindings :: "role_binding list result"
  re_accounts :: "service_account list result"
  re_clock :: "nat \<Rightarrow> gotime"

definition rbac_collectorID :: string where "rbac_collectorID = ''rbacposture''"
definition rbac_collectorVersion :: string where "rbac_collectorVersion = ''0.1.0''"
definition TargetTypeClusterRole :: string where "TargetTypeClusterRole = ''rbac/cluster-role''"
definition TargetTypeBinding :: string where "TargetTypeBinding = ''rbac/binding''"
definition TargetTypeServiceAccount :: string where "TargetTypeServiceAccount = ''rbac/service-account''"

definition rbac_description :: string where
  "rbac_description = ''RBAC privilege and service-account posture''"

definition rbac_access :: "access_requirement list" where
  "rbac_access =
     [\<lparr>arSystem = ''kubernetes'', arResource = ''rbac.authorization.k8s.io/clusterroles,clusterrolebindings'',
       arAccess = ''get,list,watch'', arDescription = ''observes privileged rules and who is bound to them''\<rparr>,
      \<lparr>arSystem = ''kubernetes'', arResource = ''serviceaccounts'', arAccess = ''get,list,watch'',
       arDescription = ''counts service accounts per namespace to evidence sprawl''\<rparr>]"

section \<open>Observations\<close>

record role_observation =
  ro_Name :: string
  ro_Rules :: int
  WildcardVerbs :: bool
  WildcardResources :: bool
  WildcardAPIGroups :: bool
  SecretsRead :: bool
  Builtin :: bool

definition role_json :: "role_observation \<Rightarrow> json" where
  "role_json o1 = JObj (
     field ''name'' (jstr (ro_Name o1)) @ field ''rules'' (jint (ro_Rules o1)) @
     field ''wildcardVerbs'' (jbool (WildcardVerbs o1)) @
     field ''wildcardResources'' (jbool (WildcardResources o1)) @
     field ''wildcardApiGroups'' (jbool (WildcardAPIGroups o1)) @
     field ''secretsRead'' (jbool (SecretsRead o1)) @ field ''builtin'' (jbool (Builtin o1)))"

definition subject_json :: "role_subject \<Rightarrow> json" where
  "subject_json s = JObj (
     field ''kind'' (jstr (sub_Kind s)) @ field ''name'' (jstr (sub_Name s)) @
     field_unless (sub_Namespace s = []) ''namespace'' (jstr (sub_Namespace s)))"

definition binding_json :: "role_binding \<Rightarrow> json" where
  "binding_json b = JObj (
     field ''name'' (jstr (rb_Name b)) @ field ''roleRef'' (jstr (rb_RoleRef b)) @
     field ''subjects'' (jslice (map subject_json (rb_Subjects b))))"

record sa_observation =
  TotalServiceAccounts :: nat
  sa_Namespaces :: nat
  PerNamespace :: "(string \<times> nat) list"

definition sa_json :: "sa_observation \<Rightarrow> json" where
  "sa_json o1 = JObj (
     field ''totalServiceAccounts'' (jint (int (TotalServiceAccounts o1))) @
     field ''namespaces'' (jint (int (sa_Namespaces o1))) @
     field ''perNamespace'' (JObj (map (\<lambda>(k, n). (json_escape k, jint (int n))) (PerNamespace o1))))"

section \<open>Rules\<close>

fun reading_verb :: "string list \<Rightarrow> bool" where
  "reading_verb [] = False"
| "reading_verb (v # vs) = (v = ''get'' \<or> v = ''list'' \<or> v = ''watch'' \<or> v = ''*'' \<or> reading_verb vs)"

definition readsSecrets :: "policy_rule \<Rightarrow> bool" where
  "readsSecrets pr =
     (if \<not> (''secrets'' \<in> set (Resources pr) \<or> ''*'' \<in> set (Resources pr)) then False
      else reading_verb (Verbs pr))"

definition analyze_rule :: "policy_rule \<Rightarrow> role_observation \<Rightarrow> role_observation" where
  "analyze_rule pr o0 =
     (let o1 = (if ''*'' \<in> set (Verbs pr) then o0\<lparr>WildcardVerbs := True\<rparr> else o0);
          o2 = (if ''*'' \<in> set (Resources pr) then o1\<lparr>WildcardResources := True\<rparr> else o1);
          o3 = (if ''*'' \<in> set (APIGroups pr) then o2\<lparr>WildcardAPIGroups := True\<rparr> else o2)
      in if readsSecrets pr then o3\<lparr>SecretsRead := True\<rparr> else o3)"

definition analyzeRole :: "cluster_role \<Rightarrow> role_observation" where
  "analyzeRole cr =
     fold analyze_rule (role_Rules cr)
       \<lparr>ro_Name = role_Name cr, ro_Rules = int (length (role_Rules cr)),
        WildcardVerbs = False, WildcardResources = False, WildcardAPIGroups = False, SecretsRead = False,
        Builtin = (length (role_Name cr) > 7 \<and> take 7 (role_Name cr) = ''system:'')\<rparr>"

definition privileged :: "role_observation \<Rightarrow> bool" where
  "privileged o1 \<longleftrightarrow> WildcardVerbs o1 \<or> WildcardResources o1 \<or> WildcardAPIGroups o1 \<or> SecretsRead o1"

section \<open>Service accounts\<close>

definition count_account :: "service_account \<Rightarrow> sa_observation \<Rightarrow> sa_observation" where
  "count_account a o1 = o1\<lparr>TotalServiceAccounts := TotalServiceAccounts o1 + 1,
     PerNamespace := put (sa_Namespace a)
       ((case map_of (PerNamespace o1) (sa_Namespace a) of None \<Rightarrow> 0 | Some n \<Rightarrow> n) + 1) (PerNamespace o1)\<rparr>"

definition sa_summary :: "service_account list \<Rightarrow> sa_observation" where
  "sa_summary as =
     (let o1 = fold count_account as \<lparr>TotalServiceAccounts = 0, sa_Namespaces = 0, PerNamespace = []\<rparr>
      in o1\<lparr>sa_Namespaces := length (PerNamespace o1)\<rparr>)"

section \<open>Collecting\<close>

definition rbac_record :: "string \<Rightarrow> string \<Rightarrow> (string \<times> string) list \<Rightarrow> gotime \<Rightarrow> json \<Rightarrow> evidence_record" where
  "rbac_record ttype name attrs now obs =
     emit rbac_collectorID rbac_collectorVersion ttype name attrs now (Inr obs)"

definition role_record :: "(nat \<Rightarrow> gotime) \<Rightarrow> cluster_role \<Rightarrow> nat \<Rightarrow> evidence_record \<times> nat" where
  "role_record clk cr n =
     (rbac_record TargetTypeClusterRole (role_Name cr) [] (clk n) (role_json (analyzeRole cr)), Suc n)"

definition binding_record :: "(nat \<Rightarrow> gotime) \<Rightarrow> role_binding \<Rightarrow> nat \<Rightarrow> evidence_record \<times> nat" where
  "binding_record clk b n =
     (rbac_record TargetTypeBinding (rb_Name b) [(''roleRef'', rb_RoleRef b)] (clk n) (binding_json b), Suc n)"

definition rbac_Collect :: "rbac_env \<Rightarrow> evidence_record list result" where
  "rbac_Collect env =
     bindr (wrap ''list clusterroles: %w'' [] (re_roles env)) (\<lambda>roles.
       case thread (role_record (re_clock env)) (filter (\<lambda>cr. privileged (analyzeRole cr)) roles) 0
         of (rs1, n1) \<Rightarrow>
     bindr (wrap ''list clusterrolebindings: %w'' [] (re_bindings env)) (\<lambda>bs.
       case thread (binding_record (re_clock env)) (filter (\<lambda>b. rb_RoleRef b = ''cluster-admin'') bs) n1
         of (rs2, n2) \<Rightarrow>
     bindr (wrap ''list serviceaccounts: %w'' [] (re_accounts env)) (\<lambda>sas.
       Inr (rs1 @ rs2 @ [rbac_record TargetTypeServiceAccount ''cluster-wide'' [] (re_clock env n2)
              (sa_json (sa_summary sas))]))))"

definition rbac_collector :: "rbac_env collector" where
  "rbac_collector = \<lparr>col_ID = rbac_collectorID, col_Version = rbac_collectorVersion, col_Description = rbac_description,
     col_RequiredAccess = rbac_access,
     col_Collect = rbac_Collect\<rparr>"

definition rbac_types :: "string set" where
  "rbac_types = {TargetTypeClusterRole, TargetTypeBinding, TargetTypeServiceAccount}"

section \<open>What the analysis finds\<close>

lemma reading_verb_iff: "reading_verb vs \<longleftrightarrow> (\<exists>v\<in>{''get'', ''list'', ''watch'', ''*''}. v \<in> set vs)"
  by (induction vs) auto

lemma analyze_fold:
  "privileged (fold analyze_rule prs o1) \<longleftrightarrow> privileged o1 \<or>
     (\<exists>pr\<in>set prs. ''*'' \<in> set (Verbs pr) \<or> ''*'' \<in> set (Resources pr) \<or> ''*'' \<in> set (APIGroups pr) \<or> readsSecrets pr)"
  "SecretsRead (fold analyze_rule prs o1) \<longleftrightarrow> SecretsRead o1 \<or> (\<exists>pr\<in>set prs. readsSecrets pr)"
  "WildcardVerbs (fold analyze_rule prs o1) \<longleftrightarrow> WildcardVerbs o1 \<or> (\<exists>pr\<in>set prs. ''*'' \<in> set (Verbs pr))"
  by (induction prs arbitrary: o1) (auto simp: analyze_rule_def privileged_def Let_def)

text \<open>
  The authorizer of Kubernetes: a rule allows a request when its verb, API group and resource are
  each listed or covered by \<open>*\<close>.
\<close>

definition allows :: "policy_rule \<Rightarrow> string \<Rightarrow> string \<Rightarrow> string \<Rightarrow> bool" where
  "allows pr verb grp resource \<longleftrightarrow> (verb \<in> set (Verbs pr) \<or> ''*'' \<in> set (Verbs pr))
     \<and> (grp \<in> set (APIGroups pr) \<or> ''*'' \<in> set (APIGroups pr))
     \<and> (resource \<in> set (Resources pr) \<or> ''*'' \<in> set (Resources pr))"

definition role_allows :: "cluster_role \<Rightarrow> string \<Rightarrow> string \<Rightarrow> string \<Rightarrow> bool" where
  "role_allows cr verb grp resource \<longleftrightarrow> (\<exists>pr\<in>set (role_Rules cr). allows pr verb grp resource)"

lemma reads_iff: "readsSecrets pr \<longleftrightarrow> (\<exists>verb\<in>{''get'', ''list'', ''watch''}. verb \<in> set (Verbs pr) \<or> ''*'' \<in> set (Verbs pr))
    \<and> (''secrets'' \<in> set (Resources pr) \<or> ''*'' \<in> set (Resources pr))"
  by (auto simp: readsSecrets_def reading_verb_iff)

lemma secrets_reader:
  assumes "verb \<in> {''get'', ''list'', ''watch''}" "role_allows cr verb grp ''secrets''"
  shows "SecretsRead (analyzeRole cr)" "privileged (analyzeRole cr)"
  using assms by (auto simp: role_allows_def allows_def analyzeRole_def analyze_fold reads_iff)

lemma reader_exact:
  assumes "SecretsRead (analyzeRole cr)" "\<forall>pr\<in>set (role_Rules cr). APIGroups pr \<noteq> []"
  shows "\<exists>verb\<in>{''get'', ''list'', ''watch''}. \<exists>grp. role_allows cr verb grp ''secrets''"
proof -
  obtain pr where pr: "pr \<in> set (role_Rules cr)" "readsSecrets pr"
    using assms(1) by (auto simp: analyzeRole_def analyze_fold)
  then obtain g where "g \<in> set (APIGroups pr)" using assms(2) by (cases "APIGroups pr") auto
  with pr show ?thesis unfolding role_allows_def allows_def reads_iff by blast
qed

text \<open>Every cluster role that lets its subjects read secrets has its record.\<close>

lemma secret_reader_recorded:
  assumes "rbac_Collect env = Inr rs" "re_roles env = Inr roles" "cr \<in> set roles"
    "verb \<in> {''get'', ''list'', ''watch''}" "role_allows cr verb grp ''secrets''"
  shows "\<exists>r\<in>set rs. TType (Target r) = TargetTypeClusterRole \<and> TName (Target r) = role_Name cr
    \<and> Outcome r = OutcomeObserved \<and> Observation r = render (role_json (analyzeRole cr)) \<and> SecretsRead (analyzeRole cr)"
proof -
  have p: "cr \<in> set (filter (\<lambda>cr. privileged (analyzeRole cr)) roles)"
    using assms(3) secrets_reader(2) [OF assms(4,5)] by simp
  from thread_member [OF p, of "role_record (re_clock env)" 0] obtain m where
    m: "fst (role_record (re_clock env) cr m) \<in> set (fst (thread (role_record (re_clock env))
          (filter (\<lambda>cr. privileged (analyzeRole cr)) roles) 0))" by blast
  then have "fst (role_record (re_clock env) cr m) \<in> set rs"
    using assms(1,2) by (auto simp: rbac_Collect_def bindr_eq_Inr split_beta)
  then show ?thesis using secrets_reader(1) [OF assms(4,5)]
    by (intro bexI) (auto simp: role_record_def rbac_record_def emit_def zero_record_def Let_def simp del: render.simps)
qed

text \<open>The summary counts the accounts of each namespace.\<close>

lemma count_fold:
  assumes "ordered (PerNamespace o1)"
  shows "ordered (PerNamespace (fold count_account as o1))"
    "TotalServiceAccounts (fold count_account as o1) = TotalServiceAccounts o1 + length as"
    "map_of (PerNamespace (fold count_account as o1)) ns =
       (let k = length (filter (\<lambda>a. sa_Namespace a = ns) as) in
        if k = 0 then map_of (PerNamespace o1) ns
        else Some ((case map_of (PerNamespace o1) ns of None \<Rightarrow> 0 | Some n \<Rightarrow> n) + k))"
  using assms
  by (induction as arbitrary: o1) (auto simp: count_account_def Let_def split: option.split)

lemma sa_summary_counts:
  "ordered (PerNamespace (sa_summary as))"
  "TotalServiceAccounts (sa_summary as) = length as"
  "map_of (PerNamespace (sa_summary as)) ns =
     (let k = length (filter (\<lambda>a. sa_Namespace a = ns) as) in if k = 0 then None else Some k)"
  "sa_Namespaces (sa_summary as) = length (PerNamespace (sa_summary as))"
  by (simp_all add: sa_summary_def count_fold Let_def)

lemma put_sum: "ordered m \<Longrightarrow>
    sum_list (map snd (put k ((case map_of m k of None \<Rightarrow> 0 | Some n \<Rightarrow> n) + 1) m)) = sum_list (map snd m) + (1::nat)"
proof (induction m)
  case (Cons p m)
  have "map_of m k = None" if "k < fst p"
    using that Cons.prems by (auto simp: map_of_eq_None_iff keys_def)
  with Cons show ?case by (cases p) (auto split: option.split)
qed simp

lemma sa_summary_sum: "sum_list (map snd (PerNamespace (sa_summary as))) = length as"
proof -
  have "ordered (PerNamespace o1) \<Longrightarrow> sum_list (map snd (PerNamespace (fold count_account as o1)))
      = sum_list (map snd (PerNamespace o1)) + length as" for o1
  proof (induction as arbitrary: o1)
    case (Cons a as)
    have "PerNamespace (count_account a o1) = put (sa_Namespace a)
       ((case map_of (PerNamespace o1) (sa_Namespace a) of None \<Rightarrow> 0 | Some n \<Rightarrow> n) + 1) (PerNamespace o1)"
      by (simp add: count_account_def)
    moreover have "ordered (PerNamespace (count_account a o1))"
      using Cons.prems by (simp add: count_account_def)
    ultimately show ?case using Cons put_sum [of "PerNamespace o1" "sa_Namespace a"] by simp
  qed simp
  then show ?thesis by (simp add: sa_summary_def Let_def)
qed

text \<open>No more namespaces than accounts.\<close>

lemma sa_summary_bound: "sa_Namespaces (sa_summary as) \<le> TotalServiceAccounts (sa_summary as)"
proof -
  let ?m = "PerNamespace (sa_summary as)"
  have pos: "0 < n" if "(k, n) \<in> set ?m" for k n
  proof -
    have "map_of ?m k = Some n" using that sa_summary_counts(1) [of as]
      by (intro map_of_is_SomeI) (auto simp: ordered_def keys_def strict_sorted_iff)
    then show ?thesis by (auto simp: sa_summary_counts Let_def split: if_splits)
  qed
  have "(\<And>k n. (k, n) \<in> set m \<Longrightarrow> 0 < n) \<Longrightarrow> length m \<le> sum_list (map snd m)" for m :: "(string \<times> nat) list"
  proof (induction m)
    case (Cons p m)
    have "length m \<le> sum_list (map snd m)" using Cons by auto
    moreover have "0 < snd p" using Cons.prems [of "fst p" "snd p"] by simp
    ultimately show ?case by simp
  qed simp
  with pos have "length ?m \<le> sum_list (map snd ?m)" by blast
  then show ?thesis by (simp add: sa_summary_sum sa_summary_counts)
qed

section \<open>The contract\<close>

lemma rbac_plain [simp]:
  "plain_key ''name''" "plain_key ''rules''" "plain_key ''wildcardVerbs''" "plain_key ''wildcardResources''"
  "plain_key ''wildcardApiGroups''" "plain_key ''secretsRead''" "plain_key ''builtin''" "plain_key ''kind''"
  "plain_key ''namespace''" "plain_key ''roleRef''" "plain_key ''subjects''" "plain_key ''totalServiceAccounts''"
  "plain_key ''namespaces''" "plain_key ''perNamespace''"
  by (simp_all add: plain_key_def plain_char_def code_def)

lemma rbac_enc: "enc (Suc n) (role_json o1)" "enc (Suc (Suc (Suc n))) (binding_json b)"
    "enc (Suc (Suc n)) (sa_json o2)"
  by (simp_all add: role_json_def binding_json_def subject_json_def sa_json_def)

lemma rbac_Collect_records:
  assumes "rbac_Collect env = Inr rs" "r \<in> set rs"
  shows "collected_by rbac_collectorID rbac_collectorVersion rbac_types r"
proof -
  let ?ok = "collected_by rbac_collectorID rbac_collectorVersion rbac_types"
  have ok: "?ok (rbac_record t name attrs now obs)" if "enc 9999 obs" "t \<in> rbac_types" for t name attrs now obs
    using that unfolding rbac_record_def by (intro emit_collected) simp_all
  have "enc 9999 (role_json o1)" "enc 9999 (binding_json b)" "enc 9999 (sa_json o2)" for o1 b o2
    using rbac_enc(1) [of 9998 o1] rbac_enc(2) [of 9996 b] rbac_enc(3) [of 9997 o2] by simp_all
  note oks = this [THEN ok]
  have ty: "TargetTypeClusterRole \<in> rbac_types" "TargetTypeBinding \<in> rbac_types" "TargetTypeServiceAccount \<in> rbac_types"
    by (simp_all add: rbac_types_def)
  have c: "r \<in> set (fst (thread (role_record clk) xs m)) \<Longrightarrow> ?ok r" for clk xs m
    by (rule thread_all [where P = ?ok]) (simp_all add: role_record_def oks ty)
  have i: "r \<in> set (fst (thread (binding_record clk) xs m)) \<Longrightarrow> ?ok r" for clk xs m
    by (rule thread_all [where P = ?ok]) (simp_all add: binding_record_def oks ty)
  have s: "?ok (rbac_record TargetTypeServiceAccount ''cluster-wide'' [] now (sa_json o1))" for now o1
    by (rule oks ty)+
  show ?thesis using assms
    by (auto simp: rbac_Collect_def bindr_eq_Inr split_beta intro: c i s)
qed

interpretation rbacposture: collector_contract rbac_collector rbac_types
  by unfold_locales (simp add: rbac_collector_def rbac_Collect_records)

end
