(* ===== verification/Provenance.thy ===== *)
theory Provenance
  imports Collector_Kit "HOL-Library.Sublist"
begin

text \<open>
  The provenance collector (\<open>internal/collectors/provenance/provenance.go\<close>): where the
  images of the workloads come from, whether they are pinned by digest, and the admission webhooks.
  The lists the API server answers are what a run sees; \<open>low\<close> is \<open>unicode.ToLower\<close> on the
  bytes of a rune outside ASCII.
\<close>

section \<open>Texts\<close>

text \<open>\<open>strings.Contains\<close>, \<open>strings.HasPrefix\<close> and \<open>strings.ToLower\<close>.\<close>

fun contains_text :: "string \<Rightarrow> string \<Rightarrow> bool" where
  "contains_text [] t \<longleftrightarrow> t = []"
| "contains_text (c # s) t \<longleftrightarrow> take (length t) (c # s) = t \<or> contains_text s t"

lemma contains_text_sublist: "contains_text s t \<longleftrightarrow> sublist t s"
proof (induction s)
  case (Cons c s)
  have "take (length t) (c # s) = t \<longleftrightarrow> prefix t (c # s)"
    by (metis append_eq_conv_conj prefix_def)
  with Cons show ?case by (simp add: sublist_Cons_right)
qed simp

definition lower_ascii :: "char \<Rightarrow> char" where
  "lower_ascii c = (if 65 \<le> code c \<and> code c \<le> 90 then byte (code c + 32) else c)"

fun lower_runes :: "(bytes \<Rightarrow> bytes) \<Rightarrow> string \<Rightarrow> string" where
  "lower_runes low [] = []"
| "lower_runes low (c # s) =
     (if rune_len (c # s) = 0 then replacement @ lower_runes low s
      else (if code c < 0x80 then [lower_ascii c] else low (take (rune_len (c # s)) (c # s)))
           @ lower_runes low (drop (rune_len (c # s) - 1) s))"

definition ToLower :: "(bytes \<Rightarrow> bytes) \<Rightarrow> string \<Rightarrow> string" where
  "ToLower low s = (if list_all (\<lambda>c. code c < 0x80) s then map lower_ascii s else lower_runes low s)"

section \<open>Objects of the cluster\<close>

record pod_container =
  ct_Name :: string
  ct_Image :: string
  ct_ImagePullPolicy :: string

record workload =
  wl_Namespace :: string
  wl_Name :: string
  wl_Containers :: "pod_container list"

text \<open>The lists by namespace; the empty name stands for all of them.\<close>

record prov_env =
  pe_deployments :: "string \<Rightarrow> workload list result"
  pe_statefulsets :: "string \<Rightarrow> workload list result"
  pe_daemonsets :: "string \<Rightarrow> workload list result"
  pe_webhooks :: "string list result"
  pe_clock :: "nat \<Rightarrow> gotime"

record prov_config =
  pc_Namespaces :: "string list"

definition prov_collectorID :: string where "prov_collectorID = ''provenance''"
definition prov_collectorVersion :: string where "prov_collectorVersion = ''0.1.0''"
definition TargetTypeWorkloadImage :: string where "TargetTypeWorkloadImage = ''workload/image''"
definition TargetTypeAdmissionPolicy :: string where "TargetTypeAdmissionPolicy = ''admission/policy''"

definition prov_description :: string where
  "prov_description = ''workload image provenance and admission policy posture''"

definition prov_access :: "access_requirement list" where
  "prov_access =
     [\<lparr>arSystem = ''kubernetes'', arResource = ''apps/deployments,statefulsets,daemonsets'',
       arAccess = ''get,list,watch'', arDescription = ''observes container image sources and digest pinning''\<rparr>,
      \<lparr>arSystem = ''kubernetes'', arResource = ''admissionregistration.k8s.io/validatingwebhookconfigurations'',
       arAccess = ''get,list,watch'', arDescription = ''observes which admission control policies gate workloads''\<rparr>]"

section \<open>Observations\<close>

record container_image =
  ci_Container :: string
  ci_Image :: string
  ci_Registry :: string
  DigestPinned :: bool
  ci_PullPolicy :: string

record workload_observation =
  wo_Kind :: string
  wo_Namespace :: string
  wo_Name :: string
  wo_Images :: "container_image list"
  AllDigestPinned :: bool

record admission_observation =
  ao_Webhooks :: "string list"
  SignatureVerificationDetected :: bool
  DetectedEngines :: "string list"

definition image_json :: "container_image \<Rightarrow> json" where
  "image_json i = JObj (
     field ''container'' (jstr (ci_Container i)) @ field ''image'' (jstr (ci_Image i)) @
     field ''registry'' (jstr (ci_Registry i)) @ field ''digestPinned'' (jbool (DigestPinned i)) @
     field_unless (ci_PullPolicy i = []) ''pullPolicy'' (jstr (ci_PullPolicy i)))"

definition workload_json :: "workload_observation \<Rightarrow> json" where
  "workload_json o1 = JObj (
     field ''kind'' (jstr (wo_Kind o1)) @ field ''namespace'' (jstr (wo_Namespace o1)) @
     field ''name'' (jstr (wo_Name o1)) @ field ''images'' (jslice (map image_json (wo_Images o1))) @
     field ''allDigestPinned'' (jbool (AllDigestPinned o1)))"

text \<open>The list of webhooks is made empty, not nil, so it is never \<open>null\<close>.\<close>

definition admission_json :: "admission_observation \<Rightarrow> json" where
  "admission_json o1 = JObj (
     field ''validatingWebhookConfigurations'' (JArr (map jstr (ao_Webhooks o1))) @
     field ''signatureVerificationDetected'' (jbool (SignatureVerificationDetected o1)) @
     field_unless (DetectedEngines o1 = []) ''detectedEngines'' (JArr (map jstr (DetectedEngines o1))))"

definition signatureEngines :: "string list" where
  "signatureEngines = [''kyverno'', ''cosign'', ''policy-controller'', ''sigstore'', ''connaisseur'', ''notation'', ''ratify'']"

section \<open>Images\<close>

definition registryOf :: "string \<Rightarrow> string" where
  "registryOf img =
     (let first = takeWhile (\<lambda>c. c \<noteq> CHR ''/'') img in
      if CHR ''/'' \<notin> set img then ''docker.io''
      else if CHR ''.'' \<in> set first \<or> CHR '':'' \<in> set first \<or> first = ''localhost'' then first
      else ''docker.io'')"

definition image_of :: "pod_container \<Rightarrow> container_image" where
  "image_of ct = \<lparr>ci_Container = ct_Name ct, ci_Image = ct_Image ct, ci_Registry = registryOf (ct_Image ct),
     DigestPinned = contains_text (ct_Image ct) ''@sha256:'', ci_PullPolicy = ct_ImagePullPolicy ct\<rparr>"

definition add_image :: "pod_container \<Rightarrow> workload_observation \<Rightarrow> workload_observation" where
  "add_image ct o1 =
     (let img = image_of ct;
          o2 = (if \<not> DigestPinned img then o1\<lparr>AllDigestPinned := False\<rparr> else o1)
      in o2\<lparr>wo_Images := wo_Images o2 @ [img]\<rparr>)"

definition workload_obs :: "string \<Rightarrow> workload \<Rightarrow> workload_observation" where
  "workload_obs kind w = fold add_image (wl_Containers w)
     \<lparr>wo_Kind = kind, wo_Namespace = wl_Namespace w, wo_Name = wl_Name w, wo_Images = [], AllDigestPinned = True\<rparr>"

section \<open>Webhooks\<close>

definition see_engine :: "string \<Rightarrow> string \<Rightarrow> admission_observation \<Rightarrow> admission_observation" where
  "see_engine lower engine o1 =
     (if contains_text lower engine \<and> engine \<notin> set (DetectedEngines o1)
      then o1\<lparr>DetectedEngines := DetectedEngines o1 @ [engine]\<rparr> else o1)"

definition see_webhook :: "(bytes \<Rightarrow> bytes) \<Rightarrow> string \<Rightarrow> admission_observation \<Rightarrow> admission_observation" where
  "see_webhook low name o1 =
     fold (see_engine (ToLower low name)) signatureEngines (o1\<lparr>ao_Webhooks := ao_Webhooks o1 @ [name]\<rparr>)"

definition admission_obs :: "(bytes \<Rightarrow> bytes) \<Rightarrow> string list \<Rightarrow> admission_observation" where
  "admission_obs low hooks =
     (let o1 = fold (see_webhook low) hooks
            \<lparr>ao_Webhooks = [], SignatureVerificationDetected = False, DetectedEngines = []\<rparr>
      in o1\<lparr>SignatureVerificationDetected := (0 < length (DetectedEngines o1))\<rparr>)"

section \<open>Collecting\<close>

definition prov_record :: "string \<Rightarrow> string \<Rightarrow> (string \<times> string) list \<Rightarrow> gotime \<Rightarrow> json \<Rightarrow> evidence_record" where
  "prov_record ttype name attrs now obs =
     emit prov_collectorID prov_collectorVersion ttype name attrs now (Inr obs)"

definition workloadRecord :: "(nat \<Rightarrow> gotime) \<Rightarrow> string \<Rightarrow> workload \<Rightarrow> nat \<Rightarrow> evidence_record \<times> nat" where
  "workloadRecord clk kind w n =
     (prov_record TargetTypeWorkloadImage (wl_Namespace w @ ''/'' @ wl_Name w)
        [(''kind'', kind), (''namespace'', wl_Namespace w)] (clk n) (workload_json (workload_obs kind w)), Suc n)"

definition admissionRecord :: "(bytes \<Rightarrow> bytes) \<Rightarrow> prov_env \<Rightarrow> nat \<Rightarrow> evidence_record result" where
  "admissionRecord low env n =
     bindr (wrap ''list validatingwebhookconfigurations: %w'' [] (pe_webhooks env)) (\<lambda>hooks.
       Inr (prov_record TargetTypeAdmissionPolicy ''cluster-wide'' [] (pe_clock env n)
              (admission_json (admission_obs low hooks))))"

fun collect_workloads :: "prov_env \<Rightarrow> string list \<Rightarrow> nat \<Rightarrow> (evidence_record list \<times> nat) result" where
  "collect_workloads env [] n = Inr ([], n)"
| "collect_workloads env (ns # nss) n =
     bindr (wrap ''list deployments: %w'' [] (pe_deployments env ns)) (\<lambda>deps.
       case thread (workloadRecord (pe_clock env) ''Deployment'') deps n of (rs1, n1) \<Rightarrow>
     bindr (wrap ''list statefulsets: %w'' [] (pe_statefulsets env ns)) (\<lambda>stss.
       case thread (workloadRecord (pe_clock env) ''StatefulSet'') stss n1 of (rs2, n2) \<Rightarrow>
     bindr (wrap ''list daemonsets: %w'' [] (pe_daemonsets env ns)) (\<lambda>dss.
       case thread (workloadRecord (pe_clock env) ''DaemonSet'') dss n2 of (rs3, n3) \<Rightarrow>
     bindr (collect_workloads env nss n3) (\<lambda>(rs, n4). Inr (rs1 @ rs2 @ rs3 @ rs, n4)))))"

definition prov_namespaces :: "prov_config \<Rightarrow> string list" where
  "prov_namespaces cfg = (if pc_Namespaces cfg = [] then [[]] else pc_Namespaces cfg)"

definition prov_Collect :: "(bytes \<Rightarrow> bytes) \<Rightarrow> prov_config \<Rightarrow> prov_env \<Rightarrow> evidence_record list result" where
  "prov_Collect low cfg env =
     bindr (collect_workloads env (prov_namespaces cfg) 0) (\<lambda>(rs, n).
     bindr (admissionRecord low env n) (\<lambda>adm. Inr (rs @ [adm])))"

definition prov_collector :: "(bytes \<Rightarrow> bytes) \<Rightarrow> prov_config \<Rightarrow> prov_env collector" where
  "prov_collector low cfg = \<lparr>col_ID = prov_collectorID, col_Version = prov_collectorVersion, col_Description = prov_description,
     col_RequiredAccess = prov_access,
     col_Collect = prov_Collect low cfg\<rparr>"

definition prov_types :: "string set" where
  "prov_types = {TargetTypeWorkloadImage, TargetTypeAdmissionPolicy}"

section \<open>What the observations say\<close>

lemma add_images:
  "wo_Images (fold add_image cts o1) = wo_Images o1 @ map image_of cts"
  "AllDigestPinned (fold add_image cts o1) \<longleftrightarrow> AllDigestPinned o1 \<and> (\<forall>ct\<in>set cts. DigestPinned (image_of ct))"
  "wo_Kind (fold add_image cts o1) = wo_Kind o1" "wo_Namespace (fold add_image cts o1) = wo_Namespace o1"
  "wo_Name (fold add_image cts o1) = wo_Name o1"
  by (induction cts arbitrary: o1) (auto simp: add_image_def Let_def)

lemma pinned_iff: "DigestPinned (image_of ct) \<longleftrightarrow> sublist ''@sha256:'' (ct_Image ct)"
  by (simp add: image_of_def contains_text_sublist)

lemma workload_obs_facts:
  "wo_Images (workload_obs kind w) = map image_of (wl_Containers w)"
  "AllDigestPinned (workload_obs kind w) \<longleftrightarrow> (\<forall>ct\<in>set (wl_Containers w). sublist ''@sha256:'' (ct_Image ct))"
  by (simp_all add: workload_obs_def add_images pinned_iff)

lemma registryOf_host:
  assumes "CHR ''/'' \<notin> set host"
  shows "registryOf (host @ CHR ''/'' # rest) =
    (if CHR ''.'' \<in> set host \<or> CHR '':'' \<in> set host \<or> host = ''localhost'' then host else ''docker.io'')"
proof -
  have "takeWhile (\<lambda>c. c \<noteq> CHR ''/'') (host @ CHR ''/'' # rest) = host"
    using assms by (subst takeWhile_append2) auto
  then show ?thesis by (simp add: registryOf_def)
qed

lemma engines_fold:
  assumes "distinct (DetectedEngines o1)"
  shows "set (DetectedEngines (fold (see_engine lower) es o1)) =
      set (DetectedEngines o1) \<union> {e \<in> set es. contains_text lower e}"
    "distinct (DetectedEngines (fold (see_engine lower) es o1))"
    "ao_Webhooks (fold (see_engine lower) es o1) = ao_Webhooks o1"
  using assms by (induction es arbitrary: o1) (auto simp: see_engine_def)

lemma webhooks_fold:
  assumes "distinct (DetectedEngines o1)"
  shows "set (DetectedEngines (fold (see_webhook low) hs o1)) = set (DetectedEngines o1) \<union>
      {e \<in> set signatureEngines. \<exists>h\<in>set hs. contains_text (ToLower low h) e}
    \<and> distinct (DetectedEngines (fold (see_webhook low) hs o1))
    \<and> ao_Webhooks (fold (see_webhook low) hs o1) = ao_Webhooks o1 @ hs"
  using assms
proof (induction hs arbitrary: o1)
  case (Cons h hs)
  let ?o2 = "see_webhook low h o1"
  have o2: "distinct (DetectedEngines ?o2)"
      "set (DetectedEngines ?o2) = set (DetectedEngines o1) \<union> {e \<in> set signatureEngines. contains_text (ToLower low h) e}"
      "ao_Webhooks ?o2 = ao_Webhooks o1 @ [h]"
    using Cons.prems by (simp_all add: see_webhook_def engines_fold)
  show ?case using Cons.IH [OF o2(1)] o2 by auto
qed simp

lemma admission_obs_facts:
  "ao_Webhooks (admission_obs low hs) = hs"
  "distinct (DetectedEngines (admission_obs low hs))"
  "set (DetectedEngines (admission_obs low hs)) =
     {e \<in> set signatureEngines. \<exists>h\<in>set hs. sublist e (ToLower low h)}"
  "SignatureVerificationDetected (admission_obs low hs) \<longleftrightarrow>
     (\<exists>h\<in>set hs. \<exists>e\<in>set signatureEngines. sublist e (ToLower low h))"
proof -
  let ?o0 = "\<lparr>ao_Webhooks = [], SignatureVerificationDetected = False, DetectedEngines = []\<rparr>"
  note f = webhooks_fold [of ?o0 low hs]
  show "ao_Webhooks (admission_obs low hs) = hs" "distinct (DetectedEngines (admission_obs low hs))"
    using f by (simp_all add: admission_obs_def Let_def)
  show s: "set (DetectedEngines (admission_obs low hs)) =
     {e \<in> set signatureEngines. \<exists>h\<in>set hs. sublist e (ToLower low h)}"
    using f by (simp add: admission_obs_def Let_def contains_text_sublist)
  have "SignatureVerificationDetected (admission_obs low hs) \<longleftrightarrow> set (DetectedEngines (admission_obs low hs)) \<noteq> {}"
    by (simp add: admission_obs_def Let_def)
  then show "SignatureVerificationDetected (admission_obs low hs) \<longleftrightarrow>
     (\<exists>h\<in>set hs. \<exists>e\<in>set signatureEngines. sublist e (ToLower low h))"
    unfolding s by blast
qed

section \<open>The contract\<close>

lemma prov_plain [simp]:
  "plain_key ''container''" "plain_key ''image''" "plain_key ''registry''" "plain_key ''digestPinned''"
  "plain_key ''pullPolicy''" "plain_key ''kind''" "plain_key ''namespace''" "plain_key ''name''"
  "plain_key ''images''" "plain_key ''allDigestPinned''" "plain_key ''validatingWebhookConfigurations''"
  "plain_key ''signatureVerificationDetected''" "plain_key ''detectedEngines''"
  by (simp_all add: plain_key_def plain_char_def code_def)

lemma prov_enc: "enc (Suc (Suc (Suc n))) (workload_json o1)" "enc (Suc (Suc n)) (admission_json o2)"
  by (simp_all add: workload_json_def image_json_def admission_json_def)

lemma prov_record_ok:
  "collected_by prov_collectorID prov_collectorVersion prov_types
     (prov_record TargetTypeWorkloadImage name attrs now (workload_json o1))"
  "collected_by prov_collectorID prov_collectorVersion prov_types
     (prov_record TargetTypeAdmissionPolicy name attrs now (admission_json o2))"
  using prov_enc(1) [of 9996 o1] prov_enc(2) [of 9997 o2] unfolding prov_record_def
  by (intro emit_collected; simp add: prov_types_def)+

lemma collect_workloads_records:
  assumes "collect_workloads env nss n = Inr (rs, m)" "r \<in> set rs"
  shows "collected_by prov_collectorID prov_collectorVersion prov_types r"
  using assms
proof (induction nss arbitrary: n rs)
  case (Cons ns nss)
  let ?ok = "collected_by prov_collectorID prov_collectorVersion prov_types"
  have c: "r \<in> set (fst (thread (workloadRecord clk kind) xs m)) \<Longrightarrow> ?ok r" for clk kind xs m
    by (rule thread_all [where P = ?ok]) (simp_all add: workloadRecord_def prov_record_ok)
  show ?case using Cons.prems
    by (auto simp: bindr_eq_Inr split_beta intro: c dest: Cons.IH)
qed simp

interpretation provenance: collector_contract "prov_collector low cfg" prov_types for low cfg
  by unfold_locales
    (auto simp: prov_collector_def prov_Collect_def admissionRecord_def bindr_eq_Inr prov_record_ok
      dest: collect_workloads_records)

text \<open>One record per workload, in the order of the lists, and the one of the webhooks at the end.\<close>

definition workloads_of :: "prov_env \<Rightarrow> string \<Rightarrow> nat option" where
  "workloads_of env ns = (case (pe_deployments env ns, pe_statefulsets env ns, pe_daemonsets env ns) of
     (Inr ds, Inr ss, Inr ms) \<Rightarrow> Some (length ds + length ss + length ms) | _ \<Rightarrow> None)"

lemma collect_workloads_count:
  "collect_workloads env nss n = Inr (rs, m) \<Longrightarrow>
     length rs = (\<Sum>ns\<leftarrow>nss. the (workloads_of env ns)) \<and> (\<forall>ns\<in>set nss. workloads_of env ns \<noteq> None)"
  by (induction nss arbitrary: n rs)
    (fastforce simp: bindr_eq_Inr split_beta workloads_of_def split: sum.splits)+

lemma prov_Collect_count:
  "prov_Collect low cfg env = Inr rs \<Longrightarrow>
     length rs = Suc (\<Sum>ns\<leftarrow>prov_namespaces cfg. the (workloads_of env ns))"
  by (auto simp: prov_Collect_def bindr_eq_Inr dest: collect_workloads_count)

end
