(* ===== verification/Tls_Scan.thy ===== *)
theory Tls_Scan
  imports Collector_Kit Go_Float
begin

text \<open>
  The TLS scanner (\<open>internal/collectors/tlsscan/tlsscan.go\<close>). What a connection gives, the
  certificate's own methods and the names of cipher suites come from the Go library's TLS and X.509
  packages: they are part of what a run sees. \<open>net.SplitHostPort\<close> and \<open>tls.VersionName\<close> are
  modelled.
\<close>

section \<open>Addresses\<close>

definition index_of :: "char \<Rightarrow> string \<Rightarrow> nat option" where
  "index_of c s = (if c \<in> set s then Some (length (takeWhile (\<lambda>x. x \<noteq> c) s)) else None)"

definition last_index_of :: "char \<Rightarrow> string \<Rightarrow> nat option" where
  "last_index_of c s =
     (if c \<in> set s then Some (length s - Suc (length (takeWhile (\<lambda>x. x \<noteq> c) (rev s)))) else None)"

text \<open>The text of a \<open>net.AddrError\<close>.\<close>

definition addr_error :: "string \<Rightarrow> string \<Rightarrow> error" where
  "addr_error addr why = External (if addr = [] then why else ''address '' @ addr @ '': '' @ why)"

text \<open>The host, and from where on no bracket may come: \<open>host, j, k\<close> of the code.\<close>

definition split_host :: "string \<Rightarrow> nat \<Rightarrow> (string \<times> nat \<times> nat) result" where
  "split_host s i =
     (if take 1 s = ''['' then
        (case index_of (CHR '']'') s of
          None \<Rightarrow> Inl (addr_error s (''missing '' @ [CHR 0x27] @ '']'' @ [CHR 0x27] @ '' in address''))
        | Some e \<Rightarrow>
            if e + 1 = length s then Inl (addr_error s ''missing port in address'')
            else if e + 1 = i then Inr (drop 1 (take e s), 1, e + 1)
            else if s ! (e + 1) = CHR '':'' then Inl (addr_error s ''too many colons in address'')
            else Inl (addr_error s ''missing port in address''))
      else if CHR '':'' \<in> set (take i s) then Inl (addr_error s ''too many colons in address'')
      else Inr (take i s, 0, 0))"

definition SplitHostPort :: "string \<Rightarrow> (string \<times> string) result" where
  "SplitHostPort s = (case last_index_of (CHR '':'') s of
     None \<Rightarrow> Inl (addr_error s ''missing port in address'')
   | Some i \<Rightarrow> bindr (split_host s i) (\<lambda>(host, j, k).
       if CHR ''['' \<in> set (drop j s) then Inl (addr_error s (''unexpected '' @ [CHR 0x27] @ ''['' @ [CHR 0x27] @ '' in address''))
       else if CHR '']'' \<in> set (drop k s) then Inl (addr_error s (''unexpected '' @ [CHR 0x27] @ '']'' @ [CHR 0x27] @ '' in address''))
       else Inr (host, drop (i + 1) s)))"

text \<open>\<open>tls.VersionName\<close>.\<close>

definition hex4 :: "nat \<Rightarrow> string" where
  "hex4 n = map (\<lambda>k. ''0123456789ABCDEF'' ! (n div k mod 16)) [4096, 256, 16, 1]"

definition VersionName :: "nat \<Rightarrow> string" where
  "VersionName v =
     (if v = 0x0300 then ''SSLv3'' else if v = 0x0301 then ''TLS 1.0'' else if v = 0x0302 then ''TLS 1.1''
      else if v = 0x0303 then ''TLS 1.2'' else if v = 0x0304 then ''TLS 1.3'' else ''0x'' @ hex4 v)"

section \<open>Connections\<close>

datatype public_key = RSAKey int | ECDSAKey int | Ed25519Key | OtherKey string

text \<open>
  A certificate: its printed fields, its key (the sizes are the modulus' and the curve's), whether
  it is valid for a host, and the error of \<open>Verify\<close> for a host and the intermediates.
\<close>

record certificate =
  crt_Subject :: string
  crt_Issuer :: string
  crt_SerialNumber :: string
  crt_NotBefore :: gotime
  crt_NotAfter :: gotime
  crt_DNSNames :: "string list"
  crt_PublicKey :: public_key
  crt_VerifyHostname :: "string \<Rightarrow> bool"
  crt_Verify :: "string \<Rightarrow> string list \<Rightarrow> error option"
  crt_Raw :: string

record connection_state =
  cn_Version :: nat
  cn_CipherSuiteName :: string
  cn_PeerCertificates :: "certificate list"

text \<open>
  What a run sees: the clock, by the number of its readings so far, and what dialling an endpoint
  for a server name within a time limit gives at that point.
\<close>

record tls_env =
  te_clock :: "nat \<Rightarrow> gotime"
  te_dial :: "nat \<Rightarrow> int \<Rightarrow> string \<Rightarrow> string \<Rightarrow> connection_state result"

record tls_config =
  tc_Endpoints :: "string list"
  tc_Timeout :: int

definition tls_collectorID :: string where "tls_collectorID = ''tlsscan''"
definition tls_collectorVersion :: string where "tls_collectorVersion = ''0.1.0''"
definition TargetTypeEndpoint :: string where "TargetTypeEndpoint = ''tls/endpoint''"

fun bad_endpoint :: "string list \<Rightarrow> error option" where
  "bad_endpoint [] = None"
| "bad_endpoint (e # es) = (case SplitHostPort e of
     Inl err \<Rightarrow> Some (Errorf ''tlsscan: endpoint %q is not host:port: %w'' [Str e] (Some err))
   | Inr _ \<Rightarrow> bad_endpoint es)"

definition tls_New :: "tls_config \<Rightarrow> tls_config result" where
  "tls_New cfg =
     (if tc_Endpoints cfg = [] then Inl (Errorf ''tlsscan: no endpoints configured'' [] None)
      else case bad_endpoint (tc_Endpoints cfg) of
        Some e \<Rightarrow> Inl e
      | None \<Rightarrow> Inr (if tc_Timeout cfg = 0 then cfg\<lparr>tc_Timeout := 10 * second\<rparr> else cfg))"

definition tls_description :: string where
  "tls_description = ''external TLS endpoint posture scanner''"

definition tls_access :: "access_requirement list" where
  "tls_access =
     [\<lparr>arSystem = ''network'', arResource = ''configured TLS endpoints'', arAccess = ''outbound TCP connect'',
       arDescription = ''performs a TLS handshake to observe protocol and certificate posture''\<rparr>]"

section \<open>Observations\<close>

record tls_observation =
  to_Endpoint :: string
  to_TLSVersion :: string
  to_CipherSuite :: string
  to_Subject :: string
  to_Issuer :: string
  to_SerialNumber :: string
  to_NotBefore :: gotime
  to_NotAfter :: gotime
  to_DaysUntilExpiry :: int
  to_KeyAlgorithm :: string
  to_KeyStrengthBits :: int
  to_DNSNames :: "string list"
  to_ChainTrusted :: bool
  to_ChainTrustError :: string
  to_HostnameMatches :: bool
  to_MinTLS12Enforced :: bool

definition time_json :: "gotime \<Rightarrow> json result" where
  "time_json t = (case format_time t of
     None \<Rightarrow> Inl (External ''json: error calling MarshalJSON for type time.Time'') | Some s \<Rightarrow> Inr (JStr s))"

definition tls_json :: "tls_observation \<Rightarrow> json result" where
  "tls_json o1 =
     bindr (time_json (to_NotBefore o1)) (\<lambda>nb.
     bindr (time_json (to_NotAfter o1)) (\<lambda>na.
       Inr (JObj (
         field ''endpoint'' (jstr (to_Endpoint o1)) @ field ''tlsVersion'' (jstr (to_TLSVersion o1)) @
         field ''cipherSuite'' (jstr (to_CipherSuite o1)) @ field ''subject'' (jstr (to_Subject o1)) @
         field ''issuer'' (jstr (to_Issuer o1)) @ field ''serialNumber'' (jstr (to_SerialNumber o1)) @
         field ''notBefore'' nb @ field ''notAfter'' na @
         field ''daysUntilExpiry'' (jint (to_DaysUntilExpiry o1)) @
         field ''keyAlgorithm'' (jstr (to_KeyAlgorithm o1)) @
         field ''keyStrengthBits'' (jint (to_KeyStrengthBits o1)) @
         field_unless (to_DNSNames o1 = []) ''dnsNames'' (JArr (map jstr (to_DNSNames o1))) @
         field ''chainTrusted'' (jbool (to_ChainTrusted o1)) @
         field_unless (to_ChainTrustError o1 = []) ''chainTrustError'' (jstr (to_ChainTrustError o1)) @
         field ''hostnameMatches'' (jbool (to_HostnameMatches o1)) @
         field ''minTls12Enforced'' (jbool (to_MinTLS12Enforced o1))))))"

definition keyInfo :: "certificate \<Rightarrow> string \<times> int" where
  "keyInfo crt = (case crt_PublicKey crt of
     RSAKey n \<Rightarrow> (''RSA'', n) | ECDSAKey n \<Rightarrow> (''ECDSA'', n) | Ed25519Key \<Rightarrow> (''Ed25519'', 256)
   | OtherKey s \<Rightarrow> (s, 0))"

text \<open>The observation of a connection, with the reading of the clock \<open>time.Until\<close> makes.\<close>

definition tls_observe :: "string \<Rightarrow> string \<Rightarrow> connection_state \<Rightarrow> certificate \<Rightarrow> gotime \<Rightarrow> tls_observation" where
  "tls_observe endpoint host st leaf now =
     (let (alg, bits) = keyInfo leaf;
          err = crt_Verify leaf host (map crt_Raw (tl (cn_PeerCertificates st)))
      in \<lparr>to_Endpoint = endpoint, to_TLSVersion = VersionName (cn_Version st),
          to_CipherSuite = cn_CipherSuiteName st, to_Subject = crt_Subject leaf, to_Issuer = crt_Issuer leaf,
          to_SerialNumber = crt_SerialNumber leaf, to_NotBefore = utc (crt_NotBefore leaf),
          to_NotAfter = utc (crt_NotAfter leaf),
          to_DaysUntilExpiry = whole_days (time_sub (crt_NotAfter leaf) now),
          to_KeyAlgorithm = alg, to_KeyStrengthBits = bits, to_DNSNames = crt_DNSNames leaf,
          to_ChainTrusted = (err = None),
          to_ChainTrustError = (case err of None \<Rightarrow> [] | Some e \<Rightarrow> error_text e),
          to_HostnameMatches = crt_VerifyHostname leaf host,
          to_MinTLS12Enforced = (cn_Version st \<ge> 0x0303)\<rparr>)"

definition handshake :: "tls_config \<Rightarrow> tls_env \<Rightarrow> string \<Rightarrow> nat \<Rightarrow> tls_observation result \<times> nat" where
  "handshake cfg env endpoint n = (case SplitHostPort endpoint of
     Inl err \<Rightarrow> (Inl (Errorf ''invalid endpoint %q: %w'' [Str endpoint] (Some err)), n)
   | Inr (host, _) \<Rightarrow> (case te_dial env n (tc_Timeout cfg) host endpoint of
       Inl err \<Rightarrow> (Inl (Errorf ''handshake with %s: %w'' [Str endpoint] (Some err)), n)
     | Inr st \<Rightarrow> (case cn_PeerCertificates st of
         [] \<Rightarrow> (Inl (Errorf ''handshake with %s: no peer certificates'' [Str endpoint] None), n)
       | leaf # _ \<Rightarrow> (Inr (tls_observe endpoint host st leaf (te_clock env n)), Suc n))))"

definition tls_scan :: "tls_config \<Rightarrow> tls_env \<Rightarrow> string \<Rightarrow> nat \<Rightarrow> evidence_record \<times> nat" where
  "tls_scan cfg env endpoint n = (case handshake cfg env endpoint (Suc n) of
     (Inl e, n1) \<Rightarrow> (zero_record\<lparr>CollectorID := tls_collectorID, CollectorVersion := tls_collectorVersion,
         Target := \<lparr>TType = TargetTypeEndpoint, TName = endpoint, TAttributes = []\<rparr>, CollectedAt := te_clock env n,
         Outcome := OutcomeFailed, Error := error_text e\<rparr>, n1)
   | (Inr obs, n1) \<Rightarrow>
       (emit tls_collectorID tls_collectorVersion TargetTypeEndpoint endpoint [] (te_clock env n) (tls_json obs), n1))"

definition tls_Collect :: "tls_config \<Rightarrow> tls_env \<Rightarrow> evidence_record list result" where
  "tls_Collect cfg env = Inr (fst (thread (tls_scan cfg env) (tc_Endpoints cfg) 0))"

definition tls_collector :: "tls_config \<Rightarrow> tls_env collector" where
  "tls_collector cfg = \<lparr>col_ID = tls_collectorID, col_Version = tls_collectorVersion, col_Description = tls_description,
     col_RequiredAccess = tls_access,
     col_Collect = tls_Collect cfg\<rparr>"

definition tls_types :: "string set" where
  "tls_types = {TargetTypeEndpoint}"

section \<open>Addresses that New accepts\<close>

lemma SplitHostPort_plain:
  assumes "set host \<inter> {CHR '':'', CHR ''['', CHR '']''} = {}" "set port \<inter> {CHR '':'', CHR ''['', CHR '']''} = {}"
  shows "SplitHostPort (host @ CHR '':'' # port) = Inr (host, port)"
proof -
  let ?s = "host @ CHR '':'' # port"
  have "takeWhile (\<lambda>x. x \<noteq> CHR '':'') (rev port @ CHR '':'' # rev host) = rev port"
    using assms(2) by (subst takeWhile_append2) auto
  then have i: "last_index_of (CHR '':'') ?s = Some (length host)"
    by (simp add: last_index_of_def)
  have "take 1 ?s \<noteq> ''[''" using assms(1) by (cases host) auto
  moreover have "CHR '':'' \<notin> set (take (length host) ?s)" using assms(1) by auto
  ultimately have "split_host ?s (length host) = Inr (host, 0, 0)"
    by (simp add: split_host_def)
  with i assms show ?thesis by (auto simp: SplitHostPort_def)
qed

text \<open>An address in brackets may have colons in its host.\<close>

lemma SplitHostPort_bracketed:
  assumes "set host \<inter> {CHR ''['', CHR '']''} = {}" "set port \<inter> {CHR '':'', CHR ''['', CHR '']''} = {}"
  shows "SplitHostPort (''['' @ host @ '']:'' @ port) = Inr (host, port)"
proof -
  let ?s = "''['' @ host @ '']:'' @ port"
  have "takeWhile (\<lambda>x. x \<noteq> CHR '':'') (rev port @ CHR '':'' # CHR '']'' # rev host @ ''['') = rev port"
    using assms(2) by (subst takeWhile_append2) auto
  then have i: "last_index_of (CHR '':'') ?s = Some (length host + 2)"
    by (simp add: last_index_of_def)
  have "takeWhile (\<lambda>x. x \<noteq> CHR '']'') (host @ CHR '']'' # CHR '':'' # port) = host"
    using assms(1) by (subst takeWhile_append2) auto
  then have "index_of (CHR '']'') ?s = Some (length host + 1)"
    by (simp add: index_of_def)
  then have "split_host ?s (length host + 2) = Inr (host, 1, length host + 2)"
    by (simp add: split_host_def)
  with i assms show ?thesis by (auto simp: SplitHostPort_def)
qed

lemma bad_endpoint_None: "bad_endpoint es = None \<longleftrightarrow> (\<forall>e\<in>set es. \<exists>hp. SplitHostPort e = Inr hp)"
  by (induction es) (auto split: sum.split)

lemma tls_New_ok:
  assumes "tls_New cfg = Inr cfg'"
  shows "tc_Endpoints cfg' = tc_Endpoints cfg" "tc_Endpoints cfg' \<noteq> []" "tc_Timeout cfg' \<noteq> 0"
    "e \<in> set (tc_Endpoints cfg') \<Longrightarrow> \<exists>hp. SplitHostPort e = Inr hp"
  using assms by (auto simp: tls_New_def bad_endpoint_None split: if_splits option.splits)

section \<open>The contract\<close>

lemma tls_plain [simp]:
  "plain_key ''endpoint''" "plain_key ''tlsVersion''" "plain_key ''cipherSuite''" "plain_key ''subject''"
  "plain_key ''issuer''" "plain_key ''serialNumber''" "plain_key ''notBefore''" "plain_key ''notAfter''"
  "plain_key ''daysUntilExpiry''" "plain_key ''keyAlgorithm''" "plain_key ''keyStrengthBits''" "plain_key ''dnsNames''"
  "plain_key ''chainTrusted''" "plain_key ''chainTrustError''" "plain_key ''hostnameMatches''" "plain_key ''minTls12Enforced''"
  by (simp_all add: plain_key_def plain_char_def code_def)

lemma time_json_enc: "time_json t = Inr v \<Longrightarrow> enc n v"
  by (auto simp: time_json_def split: option.splits)

lemma tls_json_enc: "tls_json o1 = Inr v \<Longrightarrow> enc (Suc (Suc n)) v"
  by (auto simp: tls_json_def bindr_eq_Inr dest!: time_json_enc [where n = "Suc n"])

lemma handshake_error: "handshake cfg env endpoint n = (Inl e, m) \<Longrightarrow> error_text e \<noteq> []"
  by (auto simp: handshake_def split: sum.splits list.splits)

lemma tls_scan_ok: "collected_by tls_collectorID tls_collectorVersion tls_types (fst (tls_scan cfg env endpoint n))"
proof (cases "handshake cfg env endpoint (Suc n)")
  case (Pair h m)
  show ?thesis
  proof (cases h)
    case (Inl e)
    with Pair handshake_error [of cfg env endpoint "Suc n" e m] show ?thesis
      by (simp add: tls_scan_def collected_by_def tls_types_def zero_record_def)
  next
    case (Inr obs)
    have "collected_by tls_collectorID tls_collectorVersion tls_types
       (emit tls_collectorID tls_collectorVersion TargetTypeEndpoint endpoint [] (te_clock env n) (tls_json obs))"
      using tls_json_enc [of obs _ 9997] by (intro emit_collected) (simp_all add: tls_types_def)
    with Pair Inr show ?thesis by (simp add: tls_scan_def)
  qed
qed

lemma tls_Collect_records:
  assumes "tls_Collect cfg env = Inr rs" "r \<in> set rs"
  shows "collected_by tls_collectorID tls_collectorVersion tls_types r"
proof -
  from assms have "r \<in> set (fst (thread (tls_scan cfg env) (tc_Endpoints cfg) 0))"
    by (auto simp: tls_Collect_def)
  then show ?thesis by (rule thread_all [rotated]) (rule tls_scan_ok)
qed

interpretation tlsscan: collector_contract "tls_collector cfg" tls_types for cfg
  by unfold_locales (simp add: tls_collector_def tls_Collect_records)

text \<open>Every one of its records, a failed one too, is mapped by the one rule for endpoints.\<close>

lemma tls_controls:
  assumes "collected_by tls_collectorID v tls_types r"
  shows "ControlIDs (Apply dora r) = [''dora-9.2'']"
proof -
  have "CollectorID r = ''tlsscan''" "TType (Target r) = ''tls/endpoint''"
    using assms by (simp_all add: collected_by_def tls_types_def tls_collectorID_def TargetTypeEndpoint_def)
  then have "ControlIDs (Apply dora r) = ControlIDs (Apply dora (zero_record\<lparr>CollectorID := ''tlsscan'',
      Target := \<lparr>TType = ''tls/endpoint'', TName = [], TAttributes = []\<rparr>\<rparr>))"
    by (simp add: Apply_ids mapped_ids_def rule_matches_def)
  also have "\<dots> = [''dora-9.2'']" by code_simp
  finally show ?thesis .
qed

section \<open>One record for each endpoint\<close>

lemma tls_scan_name: "TName (Target (fst (tls_scan cfg env endpoint n))) = endpoint"
  by (auto simp: tls_scan_def emit_def zero_record_def Let_def split: prod.split sum.split)

lemma thread_map: "(\<And>x n. g (fst (f x n)) = h x) \<Longrightarrow> map g (fst (thread f xs n)) = map h xs"
proof (induction xs arbitrary: n)
  case (Cons x xs)
  show ?case using Cons.IH [OF Cons.prems, of "snd (f x n)"] Cons.prems [of x n] by (simp add: split_beta)
qed simp

lemma tls_Collect_names:
  "\<exists>rs. tls_Collect cfg env = Inr rs \<and> map (TName \<circ> Target) rs = tc_Endpoints cfg"
  using thread_map [where g = "TName \<circ> Target" and h = id and f = "tls_scan cfg env"]
  by (simp add: tls_Collect_def tls_scan_name)

text \<open>After New, the only failed records are those of a connection that failed or a time without text.\<close>

lemma tls_scan_observed:
  assumes "SplitHostPort endpoint = Inr (host, port)"
    "te_dial env (Suc n) (tc_Timeout cfg) host endpoint = Inr st" "cn_PeerCertificates st = leaf # chain"
    "format_time (utc (crt_NotBefore leaf)) \<noteq> None" "format_time (utc (crt_NotAfter leaf)) \<noteq> None"
  shows "Outcome (fst (tls_scan cfg env endpoint n)) = OutcomeObserved"
  using assms
  by (auto simp: tls_scan_def handshake_def tls_json_def time_json_def tls_observe_def emit_def zero_record_def Let_def
      split: prod.split)

lemma tls_scan_failed:
  assumes "SplitHostPort endpoint = Inr (host, port)" "te_dial env (Suc n) (tc_Timeout cfg) host endpoint = Inl e"
  shows "Outcome (fst (tls_scan cfg env endpoint n)) = OutcomeFailed"
    "Error (fst (tls_scan cfg env endpoint n)) = ''handshake with '' @ endpoint @ '': '' @ error_text e"
  using assms by (simp_all add: tls_scan_def handshake_def zero_record_def arg_text_def)

text \<open>A certificate that ended less than a day ago is still given 0 days.\<close>

lemma expired_today: "whole_days (- (23 * hour)) = 0"
  by code_simp

end
