(* ===== verification/Go_Json_Indent.thy ===== *)
theory Go_Json_Indent
  imports Go_Json
begin

text \<open>
  \<open>json.MarshalIndent(v, "", "  ")\<close>: a line per element, two blanks per level. Parsing the
  indented text gives the tree back as parsing the compact one does (\<open>parse_indented\<close>).
\<close>

definition nl :: "nat \<Rightarrow> bytes" where
  "nl d = CHR 0x0A # concat (replicate d ''  '')"

fun separated :: "bytes \<Rightarrow> bytes list \<Rightarrow> bytes" where
  "separated s [] = []"
| "separated s [x] = x"
| "separated s (x # y # xs) = x @ CHR '','' # s @ separated s (y # xs)"

fun indented :: "nat \<Rightarrow> json \<Rightarrow> bytes" where
  "indented d (JLit s) = s"
| "indented d (JStr s) = quoted s"
| "indented d (JArr vs) = (if vs = [] then ''[]''
     else CHR ''['' # nl (Suc d) @ separated (nl (Suc d)) (map (indented (Suc d)) vs) @ nl d @ '']'')"
| "indented d (JObj kvs) = (if kvs = [] then ''{}''
     else CHR ''{'' # nl (Suc d) @ separated (nl (Suc d))
       (map (\<lambda>(k, v). quoted k @ '': '' @ indented (Suc d) v) kvs) @ nl d @ ''}'')"

lemma spelling_indented [simp]: "spelling (spelled_by indented d v) = indented d v"
  by (cases v) simp_all

definition MarshalIndent :: "json \<Rightarrow> bytes" where
  "MarshalIndent v = indented 0 v"

lemma separated_Cons: "separated s (x # xs) = x @ (if xs = [] then [] else CHR '','' # s @ separated s xs)"
  by (cases xs) auto

definition blank :: "bytes \<Rightarrow> bool" where
  "blank s \<longleftrightarrow> (\<forall>c\<in>set s. is_ws c)"

lemma blank_nl [simp]: "blank (nl d)"
  by (auto simp: blank_def nl_def is_ws_def)

lemma skip_blank [simp]: "blank s \<Longrightarrow> skip_ws (s @ t) = skip_ws t"
  by (simp add: skip_ws_def blank_def dropWhile_append2)

lemma nl_delim [simp]: "delim (nl d @ t)"
  by (simp add: nl_def is_ws_def)

text \<open>A value is parsed after any white space.\<close>

definition parses_in :: "bytes \<Rightarrow> spelled \<Rightarrow> bool" where
  "parses_in b v \<longleftrightarrow> (\<forall>s n r. blank s \<longrightarrow> delim r \<longrightarrow> 2 * length (s @ b @ r) < n \<longrightarrow>
     parse_value n (s @ b @ r) = Some (v, r))"

lemma parse_value_blank: "blank s \<Longrightarrow> parse_value (Suc n) (s @ t) = parse_value (Suc n) t"
  by (simp only: parse_value.simps skip_blank)

lemma parses_in_value:
  "parses_in b v \<Longrightarrow> blank s \<Longrightarrow> delim r \<Longrightarrow> 2 * length (s @ b @ r) < n \<Longrightarrow> parse_value n (s @ b @ r) = Some (v, r)"
  by (simp add: parses_in_def)

lemma parse_elems_indented:
  "list_all2 parses_in bs vs \<Longrightarrow> vs \<noteq> [] \<Longrightarrow>
   2 * length (nl d @ separated (nl d) bs @ nl e @ CHR '']'' # r) + 1 < n \<Longrightarrow>
   parse_elems n (nl d @ separated (nl d) bs @ nl e @ CHR '']'' # r) = Some (vs, r)"
proof (induction bs vs arbitrary: n rule: list_all2_induct)
  case (Cons b bs v vs)
  from Cons.prems(2) obtain m where m: "n = Suc m" by (cases n) auto
  show ?case
  proof (cases "vs = []")
    case True
    then have bs: "bs = []" using Cons.hyps by auto
    have "parse_value m (nl d @ b @ nl e @ CHR '']'' # r) = Some (v, nl e @ CHR '']'' # r)"
      using Cons m True bs by (intro parses_in_value) auto
    with True bs m show ?thesis by simp
  next
    case False
    then have bs: "bs \<noteq> []" using Cons.hyps by auto
    let ?t = "nl d @ separated (nl d) bs @ nl e @ CHR '']'' # r"
    have "parse_value m (nl d @ b @ CHR '','' # ?t) = Some (v, CHR '','' # ?t)"
      using Cons m bs by (intro parses_in_value) (auto simp: separated_Cons)
    moreover have "parse_elems m ?t = Some (vs, r)"
      using Cons.prems m bs False by (intro Cons.IH) (auto simp: separated_Cons)
    ultimately show ?thesis using m bs by (simp add: separated_Cons)
  qed
qed simp

definition member_indented :: "nat \<Rightarrow> bytes \<times> json \<Rightarrow> bytes" where
  "member_indented d kv = quoted (fst kv) @ '': '' @ indented d (snd kv)"

lemma member_indented_pair:
  "member_indented d (k, v) = dquote # k @ dquote # CHR '':'' # CHR '' '' # indented d v"
  by (simp add: member_indented_def quoted_def)

lemma parse_members_indented:
  "\<forall>kv\<in>set kvs. str_body (fst kv) \<and> parses_in (indented d (snd kv)) (spelled_by indented d (snd kv)) \<Longrightarrow> kvs \<noteq> [] \<Longrightarrow>
   2 * length (nl d @ separated (nl d) (map (member_indented d) kvs) @ nl e @ CHR ''}'' # r) + 1 < n \<Longrightarrow>
   parse_members n (nl d @ separated (nl d) (map (member_indented d) kvs) @ nl e @ CHR ''}'' # r) = Some (map (\<lambda>(k, v). (k, spelled_by indented d v)) kvs, r)"
proof (induction kvs arbitrary: n)
  case (Cons kv kvs)
  obtain k v where kv: "kv = (k, v)" by fastforce
  from Cons.prems(3) obtain m where m: "n = Suc m" by (cases n) auto
  have k: "scan_string (k @ dquote # t) = Some (k, t)" for t
    using Cons.prems(1) kv by (simp add: str_body_scan)
  have sp: "blank '' ''" by (simp add: blank_def is_ws_def)
  have v: "parse_value m ('' '' @ indented d v @ t) = Some (spelled_by indented d v, t)"
    if "delim t" "2 * length ('' '' @ indented d v @ t) < m" for t
    using Cons.prems(1) kv that sp by (intro parses_in_value) auto
  show ?case
  proof (cases "kvs = []")
    case True
    have "parse_value m ('' '' @ indented d v @ nl e @ CHR ''}'' # r) = Some (spelled_by indented d v, nl e @ CHR ''}'' # r)"
      using Cons.prems m True kv by (intro v) (auto simp: member_indented_pair)
    with True m kv k show ?thesis by (simp add: member_indented_pair)
  next
    case False
    let ?t = "nl d @ separated (nl d) (map (member_indented d) kvs) @ nl e @ CHR ''}'' # r"
    have "parse_value m ('' '' @ indented d v @ CHR '','' # ?t) = Some (spelled_by indented d v, CHR '','' # ?t)"
      using Cons.prems m False kv by (intro v) (auto simp: separated_Cons member_indented_pair)
    moreover have "parse_members m ?t = Some (map (\<lambda>(k, v). (k, spelled_by indented d v)) kvs, r)"
      using Cons.prems m False kv by (intro Cons.IH) (auto simp: separated_Cons member_indented_pair)
    ultimately show ?thesis using m False kv k by (simp add: separated_Cons member_indented_pair)
  qed
qed simp

lemma indented_JObj:
  "kvs \<noteq> [] \<Longrightarrow> indented d (JObj kvs)
     = CHR ''{'' # nl (Suc d) @ separated (nl (Suc d)) (map (member_indented (Suc d)) kvs) @ nl d @ ''}''"
proof -
  have "(\<lambda>(k, v). quoted k @ '': '' @ indented (Suc d) v) = member_indented (Suc d)"
    by (simp add: fun_eq_iff member_indented_def)
  then show "kvs \<noteq> [] \<Longrightarrow> ?thesis" by simp
qed

lemma parses_inI:
  assumes "\<And>n r. delim r \<Longrightarrow> 2 * length (b @ r) < n \<Longrightarrow> parse_value n (b @ r) = Some (v, r)"
  shows "parses_in b v"
  unfolding parses_in_def
proof (intro allI impI)
  fix s n r
  assume s: "blank s" "delim r" "2 * length (s @ b @ r) < n"
  then obtain m where m: "n = Suc m" by (cases n) auto
  have "parse_value n (s @ b @ r) = parse_value n (b @ r)" using parse_value_blank [OF s(1)] m by simp
  with assms [OF s(2), of n] s(3) show "parse_value n (s @ b @ r) = Some (v, r)" by simp
qed

lemma indented_head:
  assumes "wf_json v"
  shows "\<exists>c s. indented d v = c # s \<and> \<not> is_ws c \<and> c \<noteq> CHR '']''"
proof (cases v)
  case (JLit l)
  then show ?thesis using render_head [OF assms] by (metis indented.simps(1) render.simps(1))
qed (auto simp: quoted_def)

lemma parses_indented: "wf_json v \<Longrightarrow> parses_in (indented d v) (spelled_by indented d v)"
proof (induction v arbitrary: d)
  case (JLit s)
  show ?case using parses_value [OF parses_render [OF JLit], of _ _ d] by (intro parses_inI) simp
next
  case (JStr s)
  show ?case using parses_value [OF parses_render [OF JStr], of _ _ d] by (intro parses_inI) simp
next
  case (JArr vs)
  show ?case
  proof (rule parses_inI)
    fix n r assume n: "2 * length (indented d (JArr vs) @ r) < n"
    then obtain m where m: "n = Suc m" by (cases n) auto
    have raw: "consumed (indented d (JArr vs) @ r) r = indented d (JArr vs)" by (rule consumed_append)
    show "parse_value n (indented d (JArr vs) @ r) = Some (spelled_by indented d (JArr vs), r)"
    proof (cases "vs = []")
      case False
      let ?t = "separated (nl (Suc d)) (map (indented (Suc d)) vs) @ nl d @ CHR '']'' # r"
      have "\<exists>c t. ?t = c # t \<and> \<not> is_ws c \<and> c \<noteq> CHR '']''"
        using False JArr.prems indented_head [of "hd vs" "Suc d"]
        by (cases vs) (auto simp: separated_Cons)
      then obtain c t where ct: "?t = c # t" "\<not> is_ws c" "c \<noteq> CHR '']''" by blast
      then have ws: "skip_ws (nl (Suc d) @ ?t) = c # t" by simp
      have "list_all2 parses_in (map (indented (Suc d)) vs) (map (spelled_by indented (Suc d)) vs)"
        using JArr by (simp add: list_all2_map1 list_all2_map2 list_all2_same)
      then have "parse_elems m (nl (Suc d) @ ?t) = Some (map (spelled_by indented (Suc d)) vs, r)"
        using n m False by (intro parse_elems_indented) auto
      with m ws ct False raw show ?thesis by (simp del: skip_blank)
    qed (use m raw in simp)
  qed
next
  case (JObj kvs)
  show ?case
  proof (rule parses_inI)
    fix n r assume n: "2 * length (indented d (JObj kvs) @ r) < n"
    then obtain m where m: "n = Suc m" by (cases n) auto
    have raw: "consumed (indented d (JObj kvs) @ r) r = indented d (JObj kvs)" by (rule consumed_append)
    show "parse_value n (indented d (JObj kvs) @ r) = Some (spelled_by indented d (JObj kvs), r)"
    proof (cases "kvs = []")
      case False
      let ?t = "separated (nl (Suc d)) (map (member_indented (Suc d)) kvs) @ nl d @ CHR ''}'' # r"
      have "\<exists>t. ?t = dquote # t"
        using False by (cases kvs) (auto simp: separated_Cons member_indented_def quoted_def)
      then obtain t where "?t = dquote # t" ..
      then have ws: "skip_ws (nl (Suc d) @ ?t) = dquote # t" by simp
      have "\<forall>kv\<in>set kvs. str_body (fst kv) \<and> parses_in (indented (Suc d) (snd kv)) (spelled_by indented (Suc d) (snd kv))"
        using JObj by (fastforce simp: snds.simps)
      then have "parse_members m (nl (Suc d) @ ?t) = Some (map (\<lambda>(k, v). (k, spelled_by indented (Suc d) v)) kvs, r)"
        using n m False by (intro parse_members_indented) (auto simp: indented_JObj simp del: indented.simps)
      with m ws False raw show ?thesis by (simp add: indented_JObj del: indented.simps skip_blank)
    qed (use m raw in simp)
  qed
qed

theorem spelled_indented:
  assumes "wf_json v" "depth v \<le> 10000"
  shows "json_spelled (indented d v) = Some (spelled_by indented d v)"
proof -
  have "parse_value (2 * length (indented d v) + 1) ([] @ indented d v @ []) = Some (spelled_by indented d v, [])"
    by (rule parses_in_value [OF parses_indented [OF assms(1)]]) (simp_all add: blank_def)
  with assms(2) show ?thesis
    by (simp add: json_spelled_def skip_ws_def del: parse_value.simps)
qed

lemma parse_indented [roundtrip]:
  "wf_json v \<Longrightarrow> depth v \<le> 10000 \<Longrightarrow> json_parse (indented d v) = Some v"
  by (simp add: json_parse_def spelled_indented)

text \<open>The encoder takes an indented text for what it is without the white space.\<close>

lemma compact_indented [roundtrip]:
  "wf_json v \<Longrightarrow> depth v \<le> 10000 \<Longrightarrow> html_safe v \<Longrightarrow> compact (indented d v) = Some v"
  by (simp add: compact_def parse_indented escape_tree_safe)

end
