(* ===== verification/Go_Base64.thy ===== *)
theory Go_Base64
  imports Go_Text
begin

text \<open>
  \<open>base64.StdEncoding\<close>: the encoder with padding, and the decoder, which skips line ends and
  does not look at the bits left over. Decoding what was encoded gives the bytes back.
\<close>

definition b64_alphabet :: string where
  "b64_alphabet = ''ABCDEFGHIJKLMNOPQRSTUVWXYZabcdefghijklmnopqrstuvwxyz0123456789+/''"

definition b64_char :: "nat \<Rightarrow> char" where
  "b64_char n = b64_alphabet ! n"

definition b64_val :: "char \<Rightarrow> nat option" where
  "b64_val c =
     (if 65 \<le> code c \<and> code c \<le> 90 then Some (code c - 65)
      else if 97 \<le> code c \<and> code c \<le> 122 then Some (code c - 71)
      else if 48 \<le> code c \<and> code c \<le> 57 then Some (code c + 4)
      else if c = CHR ''+'' then Some 62 else if c = CHR ''/'' then Some 63 else None)"

fun b64_encode :: "bytes \<Rightarrow> string" where
  "b64_encode [] = []"
| "b64_encode [a] = [b64_char (code a div 4), b64_char (code a mod 4 * 16), CHR ''='', CHR ''='']"
| "b64_encode [a, b] = [b64_char (code a div 4), b64_char (code a mod 4 * 16 + code b div 16),
     b64_char (code b mod 16 * 4), CHR ''='']"
| "b64_encode (a # b # c # s) = b64_char (code a div 4) # b64_char (code a mod 4 * 16 + code b div 16)
     # b64_char (code b mod 16 * 4 + code c div 64) # b64_char (code c mod 64) # b64_encode s"

fun b64_quads :: "string \<Rightarrow> bytes option" where
  "b64_quads [] = Some []"
| "b64_quads (a # b # c # d # s) =
     (case (b64_val a, b64_val b) of
        (Some x, Some y) \<Rightarrow>
          if c = CHR ''='' \<and> d = CHR ''='' \<and> s = [] then Some [byte (x * 4 + y div 16)]
          else (case b64_val c of
            None \<Rightarrow> None
          | Some z \<Rightarrow>
              if d = CHR ''='' \<and> s = [] then Some [byte (x * 4 + y div 16), byte (y mod 16 * 16 + z div 4)]
              else (case (b64_val d, b64_quads s) of
                 (Some u, Some r) \<Rightarrow> Some (byte (x * 4 + y div 16) # byte (y mod 16 * 16 + z div 4)
                    # byte (z mod 4 * 64 + u) # r)
               | _ \<Rightarrow> None))
      | _ \<Rightarrow> None)"
| "b64_quads s = None"

definition b64_decode :: "string \<Rightarrow> bytes option" where
  "b64_decode s = b64_quads (filter (\<lambda>c. c \<noteq> CHR 0x0A \<and> c \<noteq> CHR 0x0D) s)"

section \<open>The round trip\<close>

lemma b64_alphabet_vals: "map b64_val b64_alphabet = map Some [0..<64]"
  by (simp add: b64_alphabet_def b64_val_def code_def upt_rec)

lemma b64_alphabet_plain: "\<forall>c\<in>set b64_alphabet. c \<noteq> CHR ''='' \<and> c \<noteq> CHR 0x0A \<and> c \<noteq> CHR 0x0D"
  by (simp add: b64_alphabet_def)

lemma b64_val_char [simp]:
  assumes "n < 64"
  shows "b64_val (b64_char n) = Some n" "b64_char n \<noteq> CHR ''=''" "b64_char n \<noteq> CHR 0x0A" "b64_char n \<noteq> CHR 0x0D"
proof -
  have len: "length b64_alphabet = 64" by (simp add: b64_alphabet_def)
  have "map b64_val b64_alphabet ! n = map Some [0..<64] ! n" by (simp only: b64_alphabet_vals)
  with assms len show "b64_val (b64_char n) = Some n" by (simp add: b64_char_def)
  have "b64_char n \<in> set b64_alphabet" using assms len by (simp add: b64_char_def)
  then show "b64_char n \<noteq> CHR ''=''" "b64_char n \<noteq> CHR 0x0A" "b64_char n \<noteq> CHR 0x0D"
    using b64_alphabet_plain by blast+
qed

lemma digit_bounds: "code a div 4 < 64" "code a mod 4 < 4" "code b div 16 < 16" "code b mod 16 < 16" "code c div 64 < 4"
  using code_less [of a] code_less [of b] code_less [of c] by (simp_all add: less_mult_imp_div_less)

lemma six_bits [simp]:
  "code a div 4 < 64" "code a mod 4 * 16 < 64" "code a mod 4 * 16 + code b div 16 < 64"
  "code b mod 16 * 4 < 64" "code b mod 16 * 4 + code c div 64 < 64"
  using digit_bounds(1,2) [of a] digit_bounds(3,4) [of b] digit_bounds(5) [of c] by linarith+

lemma carries [simp]:
  "code b div 16 div 16 = 0" "code b div 16 mod 16 = code b div 16"
  "code c div 64 div 4 = 0" "code c div 64 mod 4 = code c div 64"
  using digit_bounds(3) [of b] digit_bounds(5) [of c] by simp_all

theorem b64_decode_encode [roundtrip]: "b64_decode (b64_encode s) = Some s"
proof -
  have "filter (\<lambda>c. c \<noteq> CHR 0x0A \<and> c \<noteq> CHR 0x0D) (b64_encode s) = b64_encode s"
    by (induction s rule: b64_encode.induct) simp_all
  moreover have "b64_quads (b64_encode s) = Some s"
    by (induction s rule: b64_encode.induct) simp_all
  ultimately show ?thesis by (simp add: b64_decode_def)
qed

lemma b64_example: "b64_encode ''Man'' = ''TWFu''" "b64_decode ''TWE='' = Some ''Ma''" "b64_decode ''TWE'' = None"
  by (code_simp, code_simp, code_simp)

end
