(* ===== verification/Go_Path.thy ===== *)
theory Go_Path
  imports Go_Os
begin

text \<open>
  \<open>filepath.Join\<close> and the lexical cleaning it ends with, on a Unix system: empty elements and
  \<open>.\<close> are dropped, \<open>..\<close> takes the element before it with it. At the end, what writing a
  file of a new name does to the world.
\<close>

fun split_slash :: "string \<Rightarrow> string list" where
  "split_slash [] = [[]]"
| "split_slash (c # s) =
     (if c = CHR ''/'' then [] # split_slash s
      else case split_slash s of e # es \<Rightarrow> (c # e) # es | [] \<Rightarrow> [[c]])"

definition is_rooted :: "path \<Rightarrow> bool" where
  "is_rooted p \<longleftrightarrow> (case p of [] \<Rightarrow> False | c # _ \<Rightarrow> c = CHR ''/'')"

lemma is_rooted_append [simp]: "d \<noteq> [] \<Longrightarrow> is_rooted (d @ s) = is_rooted d"
  by (simp add: is_rooted_def split: list.split)

text \<open>The elements kept so far, the last one first.\<close>

definition clean_step :: "bool \<Rightarrow> string \<Rightarrow> string list \<Rightarrow> string list" where
  "clean_step rooted e st =
     (if e = [] \<or> e = ''.'' then st
      else if e = ''..'' then
        (case st of t # ts \<Rightarrow> if t \<noteq> ''..'' then ts else if rooted then st else e # st
                  | [] \<Rightarrow> if rooted then [] else [e])
      else e # st)"

fun join_slash :: "string list \<Rightarrow> string" where
  "join_slash [] = []"
| "join_slash [e] = e"
| "join_slash (e # f # es) = e @ ''/'' @ join_slash (f # es)"

definition filepath_Clean :: "path \<Rightarrow> path" where
  "filepath_Clean p =
     (if p = [] then ''.''
      else let rooted = is_rooted p;
               st = rev (fold (clean_step rooted) (split_slash p) []);
               body = join_slash st
        in if rooted then ''/'' @ body else if st = [] then ''.'' else body)"

definition filepath_Join :: "path \<Rightarrow> path \<Rightarrow> path" where
  "filepath_Join d n =
     (if d \<noteq> [] then filepath_Clean (d @ ''/'' @ n) else if n \<noteq> [] then filepath_Clean n else [])"

section \<open>Joining the name of a file\<close>

definition plain_name :: "string \<Rightarrow> bool" where
  "plain_name n \<longleftrightarrow> n \<noteq> [] \<and> n \<noteq> ''.'' \<and> n \<noteq> ''..'' \<and> CHR ''/'' \<notin> set n"

lemma split_slash_not_Nil [simp]: "split_slash s \<noteq> []"
  by (induction s) (auto split: list.split)

lemma split_slash_plain: "CHR ''/'' \<notin> set n \<Longrightarrow> split_slash n = [n]"
  by (induction n) auto

lemma split_slash_append: "split_slash (d @ CHR ''/'' # n) = split_slash d @ split_slash n"
proof (induction d)
  case (Cons c d)
  then show ?case by (cases "split_slash d") auto
qed simp

lemma join_slash_snoc: "join_slash (es @ [n]) = (if es = [] then n else join_slash es @ ''/'' @ n)"
  by (induction es rule: join_slash.induct) auto

text \<open>What stands before a name joined to \<open>d\<close>.\<close>

definition dir_prefix :: "path \<Rightarrow> path" where
  "dir_prefix d =
     (if d = [] then []
      else let rooted = is_rooted d; st = rev (fold (clean_step rooted) (split_slash d) [])
        in (if rooted then ''/'' else []) @ (if st = [] then [] else join_slash st @ ''/''))"

lemma Join_plain:
  assumes "plain_name n"
  shows "filepath_Join d n = dir_prefix d @ n"
proof -
  have n: "n \<noteq> []" "n \<noteq> ''.''" "n \<noteq> ''..''" "CHR ''/'' \<notin> set n" using assms by (simp_all add: plain_name_def)
  then have first: "\<not> is_rooted n" by (auto simp: is_rooted_def split: list.split)
  have step: "clean_step rooted n st = n # st" for rooted st using n by (simp add: clean_step_def)
  show ?thesis
  proof (cases "d = []")
    case True
    then show ?thesis using n first step by (simp add: filepath_Join_def filepath_Clean_def split_slash_plain dir_prefix_def)
  next
    case False
    have s: "split_slash (d @ CHR ''/'' # n) = split_slash d @ [n]"
      using n split_slash_append [of d n] by (simp add: split_slash_plain)
    show ?thesis using False
      by (simp add: filepath_Join_def filepath_Clean_def dir_prefix_def Let_def s step join_slash_snoc)
  qed
qed

lemma Join_inject: "plain_name n \<Longrightarrow> plain_name m \<Longrightarrow> filepath_Join d n = filepath_Join d m \<longleftrightarrow> n = m"
  by (simp add: Join_plain)

lemma Base_plain: "plain_name n \<Longrightarrow> filepath_Base n = n"
proof -
  assume n: "plain_name n"
  then obtain c s where cs: "rev n = c # s" "c \<noteq> CHR ''/''"
    by (cases "rev n") (auto simp: plain_name_def simp flip: set_rev [of n])
  then have "dropWhile (\<lambda>c. c = CHR ''/'') (rev n) = rev n" by simp
  moreover have "takeWhile (\<lambda>c. c \<noteq> CHR ''/'') (rev n) = rev n"
    using n by (simp add: plain_name_def takeWhile_eq_all_conv) metis
  ultimately show "filepath_Base n = n" using n cs by (simp add: filepath_Base_def plain_name_def Let_def)
qed

lemma Clean_examples:
  "filepath_Clean ''a//b/./../c/'' = ''a/c''" "filepath_Clean ''/../x'' = ''/x''" "filepath_Clean ''../../y'' = ''../../y''"
  "filepath_Join ''reports/'' ''manifest.json'' = ''reports/manifest.json''"
  by (simp_all add: filepath_Clean_def filepath_Join_def clean_step_def is_rooted_def)

section \<open>Writing a file of a new name\<close>

lemma WriteFile_new [os_simps]:
  assumes "calm w" "names w p = None"
  shows "os_WriteFile p b w = (None, w\<lparr>names := (names w)(p \<mapsto> unused w),
      inodes := (inodes w)(unused w := b), unused := Suc (unused w)\<rparr>)"
  using assms by (simp add: os_WriteFile_def calm_calls)

lemma WriteFile_new_facts:
  assumes "calm w" "os_ok w" "names w p = None"
  shows "\<exists>w'. os_WriteFile p b w = (None, w') \<and> calm w' \<and> os_ok w'
    \<and> (\<forall>q. file_at w' q = (if q = p then Some b else file_at w q))
    \<and> (\<forall>q. names w' q = (if q = p then Some (unused w) else names w q))
    \<and> (\<forall>i < unused w. inodes w' i = inodes w i) \<and> entropy w' = entropy w \<and> unused w \<le> unused w'"
proof -
  have "names w q \<noteq> Some (unused w)" for q using assms(2) by (auto simp: os_ok_def)
  then have "map_option ((inodes w)(unused w := b)) (names w q) = map_option (inodes w) (names w q)" for q
    by (cases "names w q") auto
  with assms show ?thesis by (auto simp: WriteFile_new file_at_def os_ok_def less_Suc_eq)
qed

end
