(* ===== verification/Signing.thy ===== *)
theory Signing
  imports Go_Path Go_Fmt
begin

text \<open>
  Signing keys (\<open>evidence/signing.go\<close>) and how the wiring gets one (\<open>loadOrCreateKey\<close> in
  \<open>internal/shells/wiring/wiring.go\<close>). Ed25519, PKCS#8 and PEM are functions of the Go library
  and stand as parameters, in one record; \<open>key_lib_ok\<close> states what their documentation says.
\<close>

datatype 'k private_key = Ed25519Private 'k | OtherPrivate

record 'k key_lib =
  kl_GenerateKey :: "bytes \<Rightarrow> 'k result"
  kl_MarshalPKCS8 :: "'k \<Rightarrow> bytes result"
  kl_ParsePKCS8 :: "bytes \<Rightarrow> 'k private_key result"
  kl_pem_Encode :: "bytes \<Rightarrow> bytes"
  kl_pem_Decode :: "bytes \<Rightarrow> bytes option"
  kl_Sign :: "'k \<Rightarrow> bytes \<Rightarrow> bytes"
  kl_Public :: "'k \<Rightarrow> bytes"
  kl_Verify :: "bytes \<Rightarrow> bytes \<Rightarrow> bytes \<Rightarrow> bool"

text \<open>A key written can be read, and a signature verifies with the key's public half of 32 bytes.\<close>

definition key_lib_ok :: "'k key_lib \<Rightarrow> bool" where
  "key_lib_ok L \<longleftrightarrow>
     (\<forall>k der. kl_MarshalPKCS8 L k = Inr der \<longrightarrow> kl_ParsePKCS8 L der = Inr (Ed25519Private k))
     \<and> (\<forall>der. kl_pem_Decode L (kl_pem_Encode L der) = Some der)
     \<and> (\<forall>k m. kl_Verify L (kl_Public L k) m (kl_Sign L k m)) \<and> (\<forall>k. length (kl_Public L k) = 32)"

section \<open>Operations\<close>

definition GenerateSigningKey :: "'k key_lib \<Rightarrow> path \<Rightarrow> os \<Rightarrow> 'k result \<times> os" where
  "GenerateSigningKey L p w = (case os_Stat p w of
     (None, w1) \<Rightarrow> (Inl (Errorf ''signing key %s already exists'' [Str p] None), w1)
   | (Some _, w1) \<Rightarrow> (case rand_Read w1 of (seed, w2) \<Rightarrow>
       (case kl_GenerateKey L seed of
          Inl e \<Rightarrow> (Inl (Errorf ''generate signing key: %w'' [] (Some e)), w2)
        | Inr k \<Rightarrow> (case kl_MarshalPKCS8 L k of
            Inl e \<Rightarrow> (Inl (Errorf ''encode signing key: %w'' [] (Some e)), w2)
          | Inr der \<Rightarrow> (case os_WriteFile p (kl_pem_Encode L der) w2 of
              (Some e, w3) \<Rightarrow> (Inl (Errorf ''write signing key %s: %w'' [Str p] (Some e)), w3)
            | (None, w3) \<Rightarrow> (Inr k, w3))))))"

definition LoadSigningKey :: "'k key_lib \<Rightarrow> path \<Rightarrow> os \<Rightarrow> 'k result \<times> os" where
  "LoadSigningKey L p w = (case os_ReadFile p w of
     (Inl e, w1) \<Rightarrow> (Inl (Errorf ''read signing key %s: %w'' [Str p] (Some e)), w1)
   | (Inr b, w1) \<Rightarrow> ((case kl_pem_Decode L b of
       None \<Rightarrow> Inl (Errorf ''signing key %s: no PEM block found'' [Str p] None)
     | Some der \<Rightarrow> (case kl_ParsePKCS8 L der of
         Inl e \<Rightarrow> Inl (Errorf ''parse signing key %s: %w'' [Str p] (Some e))
       | Inr OtherPrivate \<Rightarrow> Inl (Errorf ''signing key %s: not an ed25519 key'' [Str p] None)
       | Inr (Ed25519Private k) \<Rightarrow> Inr k)), w1))"

text \<open>No key for an empty path.\<close>

definition loadOrCreateKey :: "'k key_lib \<Rightarrow> path \<Rightarrow> os \<Rightarrow> 'k option result \<times> os" where
  "loadOrCreateKey L p w =
     (if p = [] then (Inr None, w)
      else case LoadSigningKey L p w of
        (Inr k, w1) \<Rightarrow> (Inr (Some k), w1)
      | (Inl e, w1) \<Rightarrow>
          (if \<not> errors_is e ErrNotExist then (Inl e, w1)
           else case GenerateSigningKey L p w1 of
             (Inl e2, w2) \<Rightarrow> (Inl (Errorf ''generate signing key: %w'' [] (Some e2)), w2)
           | (Inr k, w2) \<Rightarrow> (Inr (Some k), w2)))"

section \<open>The life of a key\<close>

lemma GenerateSigningKey_new:
  assumes "calm w" "os_ok w" "names w p = None"
    "kl_GenerateKey L (entropy w (drawn w)) = Inr k" "kl_MarshalPKCS8 L k = Inr der"
  obtains w' where "GenerateSigningKey L p w = (Inr k, w')" "calm w'" "file_at w' p = Some (kl_pem_Encode L der)"
proof -
  let ?w1 = "w\<lparr>drawn := Suc (drawn w)\<rparr>"
  have "calm ?w1" "os_ok ?w1" "names ?w1 p = None" using assms by (simp_all add: os_ok_def)
  from WriteFile_new_facts [OF this, of "kl_pem_Encode L der"] obtain w' where
    "os_WriteFile p (kl_pem_Encode L der) ?w1 = (None, w')" "calm w'" "file_at w' p = Some (kl_pem_Encode L der)"
    by auto
  with assms that show thesis
    by (simp add: GenerateSigningKey_def calm_calls rand_Read_def)
qed

lemma LoadSigningKey_written:
  assumes "calm w" "key_lib_ok L" "kl_MarshalPKCS8 L k = Inr der" "file_at w p = Some (kl_pem_Encode L der)"
  shows "LoadSigningKey L p w = (Inr k, w)"
  using assms by (simp add: LoadSigningKey_def calm_ReadFile key_lib_ok_def)

lemma LoadSigningKey_missing:
  assumes "calm w" "names w p = None"
  shows "LoadSigningKey L p w = (Inl (Errorf ''read signing key %s: %w'' [Str p] (Some not_exist)), w)"
  using assms by (simp add: LoadSigningKey_def calm_ReadFile file_at_def)

text \<open>The first run makes the key, every later one gets the same.\<close>

lemma loadOrCreateKey_stable:
  assumes "calm w" "os_ok w" "names w p = None" "p \<noteq> []" "key_lib_ok L"
    "kl_GenerateKey L (entropy w (drawn w)) = Inr k" "kl_MarshalPKCS8 L k = Inr der"
  shows "\<exists>w'. loadOrCreateKey L p w = (Inr (Some k), w') \<and> calm w'
    \<and> (\<forall>w2. calm w2 \<longrightarrow> file_at w2 p = file_at w' p \<longrightarrow> loadOrCreateKey L p w2 = (Inr (Some k), w2))"
proof -
  obtain w' where g: "GenerateSigningKey L p w = (Inr k, w')" "calm w'" "file_at w' p = Some (kl_pem_Encode L der)"
    using GenerateSigningKey_new [OF assms(1-3,6,7)] by blast
  have "loadOrCreateKey L p w = (Inr (Some k), w')"
    using assms(1,3,4) g(1) by (simp add: loadOrCreateKey_def LoadSigningKey_missing not_exist_def)
  moreover have "loadOrCreateKey L p w2 = (Inr (Some k), w2)" if "calm w2" "file_at w2 p = file_at w' p" for w2
    using LoadSigningKey_written [OF that(1) assms(5,7), of p] that g(3) assms(4)
    by (simp add: loadOrCreateKey_def)
  ultimately show ?thesis using g(2) by blast
qed

text \<open>A key that is there is never written over while no call fails, nor by \<open>loadOrCreateKey\<close> at all.\<close>

lemma GenerateSigningKey_existing:
  "calm w \<Longrightarrow> names w p \<noteq> None \<Longrightarrow>
   GenerateSigningKey L p w = (Inl (Errorf ''signing key %s already exists'' [Str p] None), w)"
  by (auto simp: GenerateSigningKey_def calm_calls)

lemma os_ReadFile_names: "names (snd (os_ReadFile p w)) = names w \<and> inodes (snd (os_ReadFile p w)) = inodes w"
  by (auto simp: os_ReadFile_def os_Open_def os_read_def spend_def split: fault.split option.split prod.split)

text \<open>
  But a call to \<open>os.Stat\<close> that fails for any other reason lets \<open>GenerateSigningKey\<close> write
  over the key it was to protect.
\<close>

lemma GenerateSigningKey_overwrites:
  assumes "faults w = [Fault 0 e]" "names w p = Some i"
    "kl_GenerateKey L (entropy w (drawn w)) = Inr k" "kl_MarshalPKCS8 L k = Inr der"
  shows "\<exists>w'. GenerateSigningKey L p w = (Inr k, w') \<and> file_at w' p = Some (kl_pem_Encode L der)"
  using assms
  by (simp add: GenerateSigningKey_def os_Stat_def next_fault_def spend_def rand_Read_def os_WriteFile_def
      os_OpenAppend_def os_Write_def file_at_def)

text \<open>A key file that was written only in part stays: every later run fails.\<close>

lemma loadOrCreateKey_wedged:
  assumes "calm w" "p \<noteq> []" "file_at w p = Some b" "kl_pem_Decode L b = None"
  shows "loadOrCreateKey L p w = (Inl (Errorf ''signing key %s: no PEM block found'' [Str p] None), w)"
  using assms by (simp add: loadOrCreateKey_def LoadSigningKey_def calm_ReadFile)

end
