(* ===== verification/Bundle.thy ===== *)
theory Bundle
  imports Evidence_Codec Go_Json_Indent Go_Base64 Signing
begin

text \<open>
  Export bundles (\<open>bundle/bundle.go\<close>): the two JSON files' structures, the manifest with its
  checksums and signature, and what a third party checks. A Go map is walked in key order here;
  the code's order is unspecified, which only decides the error reported when several apply.
\<close>

section \<open>Header and manifest\<close>

record header =
  hd_Tool :: string
  hd_Framework :: string
  hd_GeneratedAt :: gotime
  hd_RecordCount :: int
  hd_Records :: "evidence_record list"

text \<open>\<open>Files\<close> is \<open>None\<close> for the nil map.\<close>

record manifest =
  mf_GeneratedAt :: gotime
  mf_Files :: "(string \<times> string) list option"
  mf_PublicKey :: string
  mf_Signature :: string

definition Signed :: "manifest \<Rightarrow> bool" where
  "Signed m \<longleftrightarrow> mf_Signature m \<noteq> []"

definition null_json :: json where
  "null_json = JLit ''null''"

definition files_json :: "(string \<times> string) list option \<Rightarrow> json" where
  "files_json fs = (case fs of None \<Rightarrow> null_json | Some m \<Rightarrow> JObj (map (\<lambda>(k, v). (json_escape k, jstr v)) m))"

fun record_trees :: "evidence_record list \<Rightarrow> json list result" where
  "record_trees [] = Inr []"
| "record_trees (r # rs) = bindr (record_tree r) (\<lambda>t. bindr (record_trees rs) (\<lambda>ts. Inr (t # ts)))"

definition header_tree :: "header \<Rightarrow> json result" where
  "header_tree h = (case format_time (hd_GeneratedAt h) of
     None \<Rightarrow> Inl (External ''json: error calling MarshalJSON for type time.Time'')
   | Some at \<Rightarrow> bindr (record_trees (hd_Records h)) (\<lambda>ts. Inr (JObj (
       field ''tool'' (jstr (hd_Tool h)) @ field ''framework'' (jstr (hd_Framework h)) @
       field ''generatedAt'' (JStr at) @ field ''recordCount'' (JLit (dec_int (hd_RecordCount h))) @
       field ''records'' (if ts = [] then null_json else JArr ts)))))"

definition manifest_tree :: "manifest \<Rightarrow> json result" where
  "manifest_tree m = (case format_time (mf_GeneratedAt m) of
     None \<Rightarrow> Inl (External ''json: error calling MarshalJSON for type time.Time'')
   | Some at \<Rightarrow> Inr (JObj (
       field ''generatedAt'' (JStr at) @ field ''files'' (files_json (mf_Files m)) @
       field_unless (mf_PublicKey m = []) ''publicKey'' (jstr (mf_PublicKey m)) @
       field_unless (mf_Signature m = []) ''signature'' (jstr (mf_Signature m)))))"

section \<open>Decoding\<close>

text \<open>
  The values of the two files. An observation comes back as it stands in \<open>evidence.json\<close>, with the
  white space of the indented file (\<open>record_field\<close>).
\<close>

text \<open>An \<open>int\<close>: an integer literal of 64 bits.\<close>

definition int_value :: "int \<Rightarrow> json \<Rightarrow> int result" where
  "int_value old v = (case v of
     JLit l \<Rightarrow>
       if l = ''null'' then Inr old
       else (case (if take 1 l = ''-'' then map_option (\<lambda>n. - int n) (num_val 0 (drop 1 l))
                   else map_option int (num_val 0 l)) of
         Some i \<Rightarrow> if - (2 ^ 63) \<le> i \<and> i < 2 ^ 63 then Inr i else Inl type_error
       | None \<Rightarrow> Inl type_error)
   | _ \<Rightarrow> Inl type_error)"

definition files_value :: "(string \<times> string) list option \<Rightarrow> json \<Rightarrow> (string \<times> string) list option result" where
  "files_value old v =
     (if v = null_json then Inr None
      else bindr (map_value (case old of None \<Rightarrow> [] | Some m \<Rightarrow> m) v) (\<lambda>m. Inr (Some m)))"

fun record_elems :: "evidence_record list \<Rightarrow> spelled list \<Rightarrow> evidence_record list result" where
  "record_elems old [] = Inr []"
| "record_elems old (v # vs) =
     bindr (record_value (case old of [] \<Rightarrow> zero_record | r # _ \<Rightarrow> r) v) (\<lambda>r.
     bindr (record_elems (tl old) vs) (\<lambda>rs. Inr (r # rs)))"

fun records_value :: "evidence_record list \<Rightarrow> spelled \<Rightarrow> evidence_record list result" where
  "records_value old (SArr b vs) = record_elems old vs"
| "records_value old (SLit l) = (if l = ''null'' then Inr [] else Inl type_error)"
| "records_value old v = Inl type_error"

definition header_names :: "string list" where
  "header_names = [''tool'', ''framework'', ''generatedAt'', ''recordCount'', ''records'']"

definition header_field :: "string \<Rightarrow> spelled \<Rightarrow> header \<Rightarrow> header result" where
  "header_field n v h =
     (if n = ''tool'' then bindr (string_value (hd_Tool h) (strip v)) (\<lambda>s. Inr (h\<lparr>hd_Tool := s\<rparr>))
      else if n = ''framework'' then bindr (string_value (hd_Framework h) (strip v)) (\<lambda>s. Inr (h\<lparr>hd_Framework := s\<rparr>))
      else if n = ''generatedAt'' then bindr (time_value (hd_GeneratedAt h) (strip v)) (\<lambda>t. Inr (h\<lparr>hd_GeneratedAt := t\<rparr>))
      else if n = ''recordCount'' then bindr (int_value (hd_RecordCount h) (strip v)) (\<lambda>i. Inr (h\<lparr>hd_RecordCount := i\<rparr>))
      else bindr (records_value (hd_Records h) v) (\<lambda>rs. Inr (h\<lparr>hd_Records := rs\<rparr>)))"

definition manifest_names :: "string list" where
  "manifest_names = [''generatedAt'', ''files'', ''publicKey'', ''signature'']"

definition manifest_field :: "string \<Rightarrow> spelled \<Rightarrow> manifest \<Rightarrow> manifest result" where
  "manifest_field n v m =
     (if n = ''generatedAt'' then bindr (time_value (mf_GeneratedAt m) (strip v)) (\<lambda>t. Inr (m\<lparr>mf_GeneratedAt := t\<rparr>))
      else if n = ''files'' then bindr (files_value (mf_Files m) (strip v)) (\<lambda>fs. Inr (m\<lparr>mf_Files := fs\<rparr>))
      else if n = ''publicKey'' then bindr (string_value (mf_PublicKey m) (strip v)) (\<lambda>s. Inr (m\<lparr>mf_PublicKey := s\<rparr>))
      else bindr (string_value (mf_Signature m) (strip v)) (\<lambda>s. Inr (m\<lparr>mf_Signature := s\<rparr>)))"

definition zero_header :: header where
  "zero_header = \<lparr>hd_Tool = [], hd_Framework = [], hd_GeneratedAt = zero_time, hd_RecordCount = 0, hd_Records = []\<rparr>"

definition zero_manifest :: manifest where
  "zero_manifest = \<lparr>mf_GeneratedAt = zero_time, mf_Files = None, mf_PublicKey = [], mf_Signature = []\<rparr>"

definition bad_json :: error where
  "bad_json = External ''invalid character or unexpected end of JSON input''"

definition unmarshal_header :: "bytes \<Rightarrow> header result" where
  "unmarshal_header b = (case json_spelled b of
     None \<Rightarrow> Inl bad_json | Some v \<Rightarrow> struct_value header_names header_field zero_header v)"

definition unmarshal_manifest :: "bytes \<Rightarrow> manifest result" where
  "unmarshal_manifest b = (case json_spelled b of
     None \<Rightarrow> Inl bad_json | Some v \<Rightarrow> struct_value manifest_names manifest_field zero_manifest v)"

section \<open>Operations\<close>

definition hex_sum :: "digest \<Rightarrow> bytes \<Rightarrow> string" where
  "hex_sum H b = hex_encode (H b)"

text \<open>The checksum list as it is signed: \<open>json.Marshal(man.Files)\<close>.\<close>

definition signed_text :: "(string \<times> string) list option \<Rightarrow> bytes" where
  "signed_text fs = render (files_json fs)"

definition BuildManifest ::
  "digest \<Rightarrow> 'k key_lib \<Rightarrow> (string \<times> bytes) list \<Rightarrow> 'k option \<Rightarrow> gotime \<Rightarrow> manifest" where
  "BuildManifest H L files key now =
     (let sums = foldl (\<lambda>m (n, b). put n (hex_sum H b) m) [] files;
          man = \<lparr>mf_GeneratedAt = now, mf_Files = Some sums, mf_PublicKey = [], mf_Signature = []\<rparr>
      in case key of
           None \<Rightarrow> man
         | Some k \<Rightarrow> man\<lparr>mf_Signature := b64_encode (kl_Sign L k (signed_text (mf_Files man))),
                         mf_PublicKey := b64_encode (kl_Public L k)\<rparr>)"

definition ReadManifest :: "path \<Rightarrow> os \<Rightarrow> manifest result \<times> os" where
  "ReadManifest dir w = (case os_ReadFile (filepath_Join dir ''manifest.json'') w of
     (Inl e, w1) \<Rightarrow> (Inl (Errorf ''read manifest: %w'' [] (Some e)), w1)
   | (Inr b, w1) \<Rightarrow> (wrap ''parse manifest: %w'' [] (unmarshal_manifest b), w1))"

fun check_files :: "digest \<Rightarrow> path \<Rightarrow> (string \<times> string) list \<Rightarrow> os \<Rightarrow> error option \<times> os" where
  "check_files H dir [] w = (None, w)"
| "check_files H dir ((n, want) # fs) w = (case os_ReadFile (filepath_Join dir (filepath_Base n)) w of
     (Inl e, w1) \<Rightarrow> (Some (Errorf ''read %s: %w'' [Str n] (Some e)), w1)
   | (Inr b, w1) \<Rightarrow>
       if hex_sum H b \<noteq> want then
         (Some (Errorf ''checksum mismatch for %s: manifest %s, file %s'' [Str n, Str want, Str (hex_sum H b)] None), w1)
       else check_files H dir fs w1)"

definition check_signature :: "'k key_lib \<Rightarrow> manifest \<Rightarrow> error option" where
  "check_signature L man =
     (if mf_Signature man = [] then None
      else case b64_decode (mf_PublicKey man) of
        None \<Rightarrow> Some (Errorf ''manifest has invalid public key'' [] None)
      | Some pub \<Rightarrow>
          if length pub \<noteq> 32 then Some (Errorf ''manifest has invalid public key'' [] None)
          else (case b64_decode (mf_Signature man) of
            None \<Rightarrow> Some (Errorf ''manifest has invalid signature encoding'' [] None)
          | Some sig \<Rightarrow>
              if \<not> kl_Verify L pub (signed_text (mf_Files man)) sig
              then Some (Errorf ''manifest signature verification failed'' [] None) else None))"

definition bundle_Verify :: "digest \<Rightarrow> 'k key_lib \<Rightarrow> path \<Rightarrow> os \<Rightarrow> error option \<times> os" where
  "bundle_Verify H L dir w = (case ReadManifest dir w of
     (Inl e, w1) \<Rightarrow> (Some e, w1)
   | (Inr man, w1) \<Rightarrow> (case check_files H dir (case mf_Files man of None \<Rightarrow> [] | Some fs \<Rightarrow> fs) w1 of
       (Some e, w2) \<Rightarrow> (Some e, w2)
     | (None, w2) \<Rightarrow> (check_signature L man, w2)))"

definition bundle_Read :: "digest \<Rightarrow> path \<Rightarrow> os \<Rightarrow> header result \<times> os" where
  "bundle_Read H dir w = (case os_ReadFile (filepath_Join dir ''evidence.json'') w of
     (Inl e, w1) \<Rightarrow> (Inl (Errorf ''read evidence.json: %w'' [] (Some e)), w1)
   | (Inr b, w1) \<Rightarrow> (case unmarshal_header b of
       Inl e \<Rightarrow> (Inl (Errorf ''parse evidence.json: %w'' [] (Some e)), w1)
     | Inr h \<Rightarrow> (case Verify H (hd_Records h) of
         Some e \<Rightarrow> (Inl (Errorf ''evidence chain: %w'' [] (Some e)), w1)
       | None \<Rightarrow> (Inr h, w1))))"

section \<open>Numbers read back\<close>

lemma num_val_dec [simp]: "num_val 0 (dec_digits n) = Some n"
proof (induction n rule: dec_digits.induct)
  case (1 n)
  show ?case
  proof (cases "n < 10")
    case True
    then show ?thesis by (simp add: dec_digits.simps [of n])
  next
    case False
    with 1 have "num_val 0 (dec_digits (n div 10)) = Some (n div 10)" by simp
    with False show ?thesis by (simp add: dec_digits.simps [of n] num_val_append)
  qed
qed

lemma dec_digits_head: "\<exists>c s. dec_digits n = c # s \<and> is_digit c"
  using dec_digits_Cons [of n] dec_digits_are_digits [of _ n] by (metis list.set_intros(1))

lemma int_value_dec:
  assumes "- (2 ^ 63) \<le> i" "i < 2 ^ 63"
  shows "int_value old (JLit (dec_int i)) = Inr i"
proof -
  obtain c s where d: "dec_digits (nat i) = c # s" "is_digit c" using dec_digits_head by blast
  then have "c \<noteq> CHR ''-''" "c \<noteq> CHR ''n''" by (auto simp: is_digit_def code_def)
  with d have "take 1 (dec_digits (nat i)) \<noteq> ''-''" "dec_digits (nat i) \<noteq> ''null''" by auto
  with assms show ?thesis by (cases "i < 0") (simp_all add: int_value_def dec_int_def)
qed

lemma lit_ok_dec_int [simp]: "lit_ok (dec_int i)"
proof (cases "i < 0")
  case True
  obtain c s where cs: "dec_digits (nat (- i)) = c # s" and z: "c = CHR ''0'' \<longrightarrow> s = []"
    using dec_digits_Cons by blast
  have dig: "\<forall>x\<in>set (c # s). is_digit x" using dec_digits_are_digits [of _ "nat (- i)"] cs by auto
  have "scan_literal (CHR ''-'' # (c # s) @ r) = Some (CHR ''-'' # c # s, r)" if "delim r" for r
  proof -
    note stop = delim_stops [OF that]
    have tw: "takeWhile is_digit ((c # s) @ r) = c # s" "dropWhile is_digit ((c # s) @ r) = r"
      using dig stop by (auto simp: takeWhile_append2 dropWhile_append2)
    have "scan_int ((c # s) @ r) = Some (c # s, r)"
      using z tw by (auto simp: scan_int_def scan_digits_def)
    with stop show ?thesis by (simp add: scan_literal_def starts_def scan_number_def Let_def)
  qed
  with cs True show ?thesis by (simp add: lit_ok_def is_ws_def dec_int_def)
qed (simp add: dec_int_def)

lemma lit_ok_null [simp]: "lit_ok ''null''"
  by (auto simp: lit_ok_def is_ws_def scan_literal_def starts_def)

section \<open>What is written is read back\<close>

text \<open>
  A record as it comes back from \<open>evidence.json\<close>: its observation is laid out as the indented file has
  it. The encoder makes the same bytes of it, so its hash is the same.
\<close>

definition reindented :: "nat \<Rightarrow> evidence_record \<Rightarrow> evidence_record" where
  "reindented d r = (case compact (Observation r) of
     None \<Rightarrow> r | Some v \<Rightarrow> r\<lparr>Observation := indented d v\<rparr>)"

lemma compact_empty [simp]: "compact [] = None"
  by (simp add: compact_def json_parse_def json_spelled_def skip_ws_def)

lemma indented_not_Nil: "wf_json v \<Longrightarrow> indented d v \<noteq> []"
  by (drule indented_head [where d = d]) auto

lemma reindented_cases:
  assumes "obs_ok (Observation r)"
  obtains "Observation r = []" "reindented d r = r"
  | v where "Observation r = render v" "wf_json v" "html_safe v" "depth v < 10000"
      "reindented d r = r\<lparr>Observation := indented d v\<rparr>" "Observation r \<noteq> []"
proof (cases "Observation r = []")
  case False
  then obtain v where v: "Observation r = render v" "wf_json v" "html_safe v" "depth v < 10000"
    using assms by (auto simp: obs_ok_def)
  then have "reindented d r = r\<lparr>Observation := indented d v\<rparr>" by (simp add: reindented_def compact_render)
  with v False that(2) show thesis by blast
qed (use that(1) in \<open>simp add: reindented_def\<close>)

lemma reindented_encoding:
  assumes "obs_ok (Observation r)"
  shows "marshal_record (reindented d r) = marshal_record r"
  by (rule reindented_cases [OF assms, of d])
    (simp_all add: marshal_record_def record_tree_def record_fields_def compact_render compact_indented indented_not_Nil
      del: render.simps indented.simps split: option.split)

lemma reindented_Hash: "(reindented d r)\<lparr>Hash := h\<rparr> = reindented d (r\<lparr>Hash := h\<rparr>)"
  by (simp add: reindented_def split: option.split)

lemma reindented_facts [simp]:
  "Hash (reindented d r) = Hash r" "PrevHash (reindented d r) = PrevHash r"
  by (simp_all add: reindented_def split: option.split)

lemma reindented_hash: "obs_ok (Observation r) \<Longrightarrow> computeHash H (reindented d r) = computeHash H r"
  using reindented_encoding [of "r\<lparr>Hash := []\<rparr>" d] by (simp add: computeHash_def reindented_Hash)

lemma reindented_verify:
  "\<forall>r\<in>set rs. wf_record r \<Longrightarrow> verify_from H i prev (map (reindented d) rs) = None \<longleftrightarrow> verify_from H i prev rs = None"
  by (induction rs arbitrary: i prev) (auto simp: reindented_hash wf_record_def split: sum.split)

lemma reindented_intact: "\<forall>r\<in>set rs. wf_record r \<Longrightarrow> intact H (map (reindented d) rs) = intact H rs"
  by (simp add: reindented_verify Verify_def flip: Verify_None_iff)

lemma record_tree_value:
  assumes "record_tree r = Inr t" "wf_record r"
  shows "record_value zero_record (spelled_by indented d t) = Inr (reindented (Suc d) r)" "wf_json t"
proof -
  have obs: "obs_ok (Observation r)" and e: "wf_record (r\<lparr>Error := []\<rparr>)" "to_valid (Error r) = Error r"
    using assms(2) by (simp_all add: wf_record_def to_valid_id)
  obtain at v where t: "t = JObj (record_fields r at v)" "format_time (CollectedAt r) = Some at" "wf_json v" "depth v < 10000"
    and i: "reindented (Suc d) r = r\<lparr>Observation := (if Observation r = [] then [] else indented (Suc d) v)\<rparr>"
  proof (cases rule: reindented_cases [OF obs, of "Suc d"])
    case 1
    with assms(1) that [of _ "JLit ''null''"] show thesis
      by (auto simp: record_tree_def split: option.splits)
  next
    case (2 v)
    with assms(1) that [of _ v] show thesis
      by (auto simp: record_tree_def compact_render split: option.splits)
  qed
  then show "wf_json t" using record_fields_wf [OF t(2-4)] by simp
  show "record_value zero_record (spelled_by indented d t) = Inr (reindented (Suc d) r)"
    unfolding t(1) i using record_value_spelled [OF e(1) t(2), of indented d v] e(2)
    by (simp only: spelling_indented) simp
qed

lemma record_trees_elems:
  assumes "record_trees rs = Inr ts" "\<forall>r\<in>set rs. wf_record r"
  shows "record_elems [] (map (spelled_by indented d) ts) = Inr (map (reindented (Suc d)) rs)"
    "\<forall>t\<in>set ts. wf_json t" "ts = [] \<longleftrightarrow> rs = []"
  using assms by (induction rs arbitrary: ts) (auto simp: bindr_eq_Inr record_tree_value)

lemma bundle_names_plain: "\<forall>n\<in>set (header_names @ manifest_names). \<forall>c\<in>set n. plain_char c"
  by (simp add: header_names_def manifest_names_def plain_char_def code_def)

lemma bundle_names_facts:
  assumes "n \<in> set (header_names @ manifest_names)"
  shows "json_unquote n = Some n" "str_body n"
  using bundle_names_plain assms by (auto intro!: plain_unquote plain_str_body)

definition wf_header :: "header \<Rightarrow> bool" where
  "wf_header h \<longleftrightarrow> valid_utf8 (hd_Tool h) \<and> valid_utf8 (hd_Framework h) \<and> 60 dvd offset (hd_GeneratedAt h)
     \<and> - (2 ^ 63) \<le> hd_RecordCount h \<and> hd_RecordCount h < 2 ^ 63 \<and> (\<forall>r\<in>set (hd_Records h). wf_record r)"

lemma header_roundtrip:
  assumes "wf_header h" "header_tree h = Inr t" "depth t \<le> 10000"
  shows "unmarshal_header (MarshalIndent t) = Inr (h\<lparr>hd_Records := map (reindented 3) (hd_Records h)\<rparr>)"
proof -
  from assms(2) obtain at ts where at: "format_time (hd_GeneratedAt h) = Some at"
    and ts: "record_trees (hd_Records h) = Inr ts"
    and t: "t = JObj (field ''tool'' (jstr (hd_Tool h)) @ field ''framework'' (jstr (hd_Framework h)) @
       field ''generatedAt'' (JStr at) @ field ''recordCount'' (JLit (dec_int (hd_RecordCount h))) @
       field ''records'' (if ts = [] then null_json else JArr ts))"
    by (auto simp: header_tree_def bindr_eq_Inr split: option.splits)
  note recs = record_trees_elems [OF ts] bundle_names_facts [unfolded header_names_def manifest_names_def]
  have wf: "\<forall>r\<in>set (hd_Records h). wf_record r" using assms(1) by (simp add: wf_header_def)
  have "str_body at" using format_time_plain [OF at] by (rule plain_str_body)
  then have "wf_json t"
    using recs(2) [OF wf] by (simp add: t field_def null_json_def recs(5))
  then have p: "json_spelled (MarshalIndent t) = Some (spelled_by indented 0 t)"
    using assms(3) unfolding MarshalIndent_def by (rule spelled_indented)
  have tm: "parse_time at = Some (hd_GeneratedAt h)"
    using assms(1) by (intro parse_format_time [OF at]) (simp add: wf_header_def)
  define rs where "rs = map (reindented 3) (hd_Records h)"
  have rv: "records_value [] (spelled_by indented (Suc 0) (if ts = [] then null_json else JArr ts)) = Inr rs"
    using recs(1) [OF wf, of "Suc (Suc 0)"] recs(3) [OF wf] by (simp add: null_json_def rs_def eval_nat_numeral)
  have "struct_value header_names header_field zero_header (spelled_by indented 0 (JObj (field ''tool'' (jstr (hd_Tool h)) @
       field ''framework'' (jstr (hd_Framework h)) @ field ''generatedAt'' (JStr at) @
       field ''recordCount'' (JLit (dec_int (hd_RecordCount h))) @ field ''records'' v))) = Inr (h\<lparr>hd_Records := rs\<rparr>)"
    if "records_value [] (spelled_by indented (Suc 0) v) = Inr rs" for v
    using assms(1) tm that
    by (simp add: header_names_def header_field_def zero_header_def wf_header_def recs(4) int_value_dec)
  from this [OF rv] have "struct_value header_names header_field zero_header (spelled_by indented 0 t) = Inr (h\<lparr>hd_Records := rs\<rparr>)"
    by (simp only: t)
  then show ?thesis by (simp add: unmarshal_header_def p rs_def)
qed

definition wf_manifest :: "manifest \<Rightarrow> bool" where
  "wf_manifest m \<longleftrightarrow> 60 dvd offset (mf_GeneratedAt m) \<and> valid_utf8 (mf_PublicKey m) \<and> valid_utf8 (mf_Signature m)
     \<and> (case mf_Files m of None \<Rightarrow> True
        | Some fs \<Rightarrow> ordered fs \<and> (\<forall>(k, v)\<in>set fs. valid_utf8 k \<and> valid_utf8 v))"

lemma files_value_json:
  assumes "case fs of None \<Rightarrow> True | Some m \<Rightarrow> ordered m \<and> (\<forall>(k, v)\<in>set m. valid_utf8 k \<and> valid_utf8 v)"
  shows "files_value None (files_json fs) = Inr fs"
proof (cases fs)
  case (Some m)
  then have "map_entries [] (map (\<lambda>(k, v). (json_escape k, jstr v)) m) = Inr m"
    using assms foldl_put [of "[]" m] by (subst map_entries_put) auto
  with Some show ?thesis by (simp add: files_value_def files_json_def null_json_def)
qed (simp add: files_value_def files_json_def)

lemma files_json_facts [simp]: "wf_json (files_json fs)" "depth (files_json fs) \<le> Suc n"
  by (auto simp: files_json_def null_json_def simp del: depth.simps(4) split: option.split)

lemma manifest_roundtrip:
  assumes "wf_manifest m" "manifest_tree m = Inr t"
  shows "unmarshal_manifest (MarshalIndent t) = Inr m"
proof -
  from assms(2) obtain at where at: "format_time (mf_GeneratedAt m) = Some at"
    and t: "t = JObj (field ''generatedAt'' (JStr at) @ field ''files'' (files_json (mf_Files m)) @
       field_unless (mf_PublicKey m = []) ''publicKey'' (jstr (mf_PublicKey m)) @
       field_unless (mf_Signature m = []) ''signature'' (jstr (mf_Signature m)))"
    by (auto simp: manifest_tree_def split: option.splits)
  note nm = bundle_names_facts [unfolded header_names_def manifest_names_def]
  have "str_body at" using format_time_plain [OF at] by (rule plain_str_body)
  then have "wf_json t" by (simp add: t field_def field_unless_def nm)
  moreover have "depth t \<le> 10000"
  proof -
    have "\<forall>kv\<in>set (field ''generatedAt'' (JStr at) @ field ''files'' (files_json (mf_Files m)) @
       field_unless (mf_PublicKey m = []) ''publicKey'' (jstr (mf_PublicKey m)) @
       field_unless (mf_Signature m = []) ''signature'' (jstr (mf_Signature m))). depth (snd kv) \<le> 9999"
      using files_json_facts(2) [of "mf_Files m" 9998] by (simp add: field_def field_unless_def)
    then show ?thesis using depth_le(2) [of _ 9999] t by (simp del: depth.simps depth_le)
  qed
  ultimately have p: "json_spelled (MarshalIndent t) = Some (spelled_by indented 0 t)"
    unfolding MarshalIndent_def by (rule spelled_indented)
  have tm: "parse_time at = Some (mf_GeneratedAt m)"
    using assms(1) by (intro parse_format_time [OF at]) (simp add: wf_manifest_def)
  have fv: "files_value None (files_json (mf_Files m)) = Inr (mf_Files m)"
    using assms(1) by (intro files_value_json) (simp add: wf_manifest_def)
  have "struct_value manifest_names manifest_field zero_manifest (spelled_by indented 0 t) = Inr m"
    using assms(1) tm fv
    by (cases m) (simp add: t manifest_names_def manifest_field_def zero_manifest_def wf_manifest_def nm)
  then show ?thesis by (simp add: unmarshal_manifest_def p)
qed

end
