(* ===== verification/Exporter.thy ===== *)
theory Exporter
  imports Bundle File_Store Control_Mapping Go_Fmt
begin

text \<open>
  The exporter (\<open>internal/core/exporter.go\<close>): it verifies the chain and writes a bundle
  directory named by the time, holding the records, a report and the manifest of both. The order in
  which Go walks a map is an argument where it matters: \<open>wk_records\<close> for the latest records (with
  the unstable sort behind it, any permutation can come out among equal times), \<open>wk_files\<close> for the
  files written.
\<close>

record walks =
  wk_records :: "evidence_record list \<Rightarrow> evidence_record list"
  wk_files :: "(string \<times> bytes) list \<Rightarrow> (string \<times> bytes) list"

text \<open>What a walk may do: put the entries in any order.\<close>

definition walks_ok :: "walks \<Rightarrow> bool" where
  "walks_ok W \<longleftrightarrow> (\<forall>rs. set (wk_records W rs) = set rs \<and> length (wk_records W rs) = length rs)
     \<and> (\<forall>fs. set (wk_files W fs) = set fs \<and> length (wk_files W fs) = length fs)"

record 'k exporter =
  ex_Mapping :: "mapping option"
  ex_Key :: "'k option"

definition frameworkName :: "'k exporter \<Rightarrow> string" where
  "frameworkName e = (case ex_Mapping e of None \<Rightarrow> [] | Some m \<Rightarrow> framework m)"

definition lookupControl :: "'k exporter \<Rightarrow> string \<Rightarrow> control option" where
  "lookupControl e k = (case ex_Mapping e of None \<Rightarrow> None | Some m \<Rightarrow> Control m k)"

section \<open>The latest record of each target\<close>

definition target_key :: "evidence_record \<Rightarrow> string" where
  "target_key r = TType (Target r) @ ''/'' @ TName (Target r)"

fun latest :: "(string \<times> evidence_record) list \<Rightarrow> evidence_record list \<Rightarrow> (string \<times> evidence_record) list" where
  "latest m [] = m"
| "latest m (r # rs) =
     (case map_of m (target_key r) of
        None \<Rightarrow> latest (put (target_key r) r m) rs
      | Some cur \<Rightarrow>
          if after (CollectedAt r) (CollectedAt cur) then latest (put (target_key r) r m) rs else latest m rs)"

definition latestPerTarget :: "walks \<Rightarrow> evidence_record list \<Rightarrow> nat \<Rightarrow> evidence_record list" where
  "latestPerTarget W rs limit =
     take limit (sort_key (\<lambda>r. - inst (CollectedAt r)) (wk_records W (map snd (latest [] rs))))"

section \<open>The report\<close>

definition lf :: string where "lf = [CHR 0x0A]"
definition dash :: string where "dash = [byte 0xE2, byte 0x80, byte 0x94]"

definition Fprintf :: "string \<Rightarrow> arg list \<Rightarrow> string" where
  "Fprintf f args = expand_format f args []"

text \<open>\<open>t.UTC().Format(time.RFC3339)\<close>, without a fraction (for the years of four digits).\<close>

definition rfc3339 :: "gotime \<Rightarrow> string" where
  "rfc3339 t =
     (let c = civil_of (utc t) in
      padi 4 (cyear c) @ ''-'' @ padi 2 (cmonth c) @ ''-'' @ padi 2 (cday c) @ ''T''
        @ padi 2 (chour c) @ '':'' @ padi 2 (cmin c) @ '':'' @ padi 2 (csec c) @ ''Z'')"

fun add_to_controls ::
  "evidence_record \<Rightarrow> string list \<Rightarrow> (string \<times> evidence_record list) list \<Rightarrow> (string \<times> evidence_record list) list" where
  "add_to_controls r [] m = m"
| "add_to_controls r (k # ks) m =
     add_to_controls r ks (put k ((case map_of m k of None \<Rightarrow> [] | Some rs \<Rightarrow> rs) @ [r]) m)"

text \<open>The three groups of the first loop: by control, failures, and the number of unmapped records.\<close>

record grouping =
  gr_byControl :: "(string \<times> evidence_record list) list"
  gr_failures :: "evidence_record list"
  gr_unmapped :: nat

definition group_record :: "evidence_record \<Rightarrow> grouping \<Rightarrow> grouping" where
  "group_record r g = g
     \<lparr>gr_failures := (if Outcome r = OutcomeFailed then gr_failures g @ [r] else gr_failures g),
      gr_unmapped := (if ControlIDs r = [] then gr_unmapped g + 1 else gr_unmapped g),
      gr_byControl := add_to_controls r (ControlIDs r) (gr_byControl g)\<rparr>"

definition group_records :: "evidence_record list \<Rightarrow> grouping" where
  "group_records rs = fold group_record rs \<lparr>gr_byControl = [], gr_failures = [], gr_unmapped = 0\<rparr>"

definition failure_line :: "evidence_record \<Rightarrow> string" where
  "failure_line r = Fprintf (''- %s '' @ dash @ '' collector `%s` failed: %s'' @ lf)
     [Str (rfc3339 (CollectedAt r)), Str (CollectorID r), Str (Error r)]"

definition failures_section :: "evidence_record list \<Rightarrow> string" where
  "failures_section rs =
     (if rs = [] then []
      else Fprintf (''## Collection failures'' @ lf @ lf) []
        @ Fprintf (''Evidence collection did not complete for the items below. '' @
            ''These gaps are part of the record: during the affected windows no evidence was gathered.'' @ lf @ lf) []
        @ concat (map failure_line rs) @ lf)"

definition record_bullet :: "evidence_record \<Rightarrow> string" where
  "record_bullet r = Fprintf (''- %s `%s/%s` (%s) '' @ dash @ '' collector `%s`, record `%s`'' @ lf)
     [Str (rfc3339 (CollectedAt r)), Str (TType (Target r)), Str (TName (Target r)),
      Str (if Outcome r = OutcomeFailed then ''COLLECTION FAILED'' else ''observed''),
      Str (CollectorID r), Str (ID r)]"

definition control_section :: "walks \<Rightarrow> 'k exporter \<Rightarrow> string \<times> evidence_record list \<Rightarrow> string" where
  "control_section W e = (\<lambda>(k, rs).
     (case lookupControl e k of
        Some c \<Rightarrow> Fprintf (''### %s '' @ dash @ '' %s (%s)'' @ lf @ lf @ ''%s'' @ lf @ lf)
          [Str (cid c), Str (title c), Str (article c), Str (summary c)]
      | None \<Rightarrow> Fprintf (''### %s'' @ lf @ lf) [Str k])
     @ Fprintf (''%d evidence record(s). Most recent observations:'' @ lf @ lf) [Num (int (length rs))]
     @ concat (map record_bullet (latestPerTarget W rs 10)) @ lf)"

definition renderReport :: "walks \<Rightarrow> 'k exporter \<Rightarrow> evidence_record list \<Rightarrow> gotime \<Rightarrow> bytes" where
  "renderReport W e rs now =
     (let g = group_records rs in
      Fprintf (''# Compliance evidence report'' @ lf @ lf) []
      @ Fprintf (''- Generated: %s'' @ lf) [Str (rfc3339 now)]
      @ Fprintf (''- Framework: %s'' @ lf) [Str (frameworkName e)]
      @ Fprintf (''- Evidence records: %d'' @ lf @ lf) [Num (int (length rs))]
      @ failures_section (gr_failures g)
      @ Fprintf (''## Evidence by control'' @ lf @ lf) []
      @ (if gr_byControl g = [] then Fprintf (''No evidence is currently mapped to a control.'' @ lf @ lf) [] else [])
      @ concat (map (control_section W e) (gr_byControl g))
      @ (if gr_unmapped g > 0
         then Fprintf (''## Unmapped evidence'' @ lf @ lf @ ''%d record(s) are not mapped to any control; '' @
           ''they are retained in the machine-readable bundle.'' @ lf @ lf) [Num (int (gr_unmapped g))]
         else [])
      @ Fprintf (''---'' @ lf @ lf @ ''Integrity: records form a SHA-256 hash chain; this bundle'' @ [CHR 0x27] @
          ''s manifest lists file checksums%s. Verify with `evidenced verify-bundle <dir>`.'' @ lf)
          [Str (if ex_Key e \<noteq> None then '' and an ed25519 signature'' else [])])"

section \<open>Export\<close>

fun write_files :: "path \<Rightarrow> (string \<times> bytes) list \<Rightarrow> os \<Rightarrow> error option \<times> os" where
  "write_files dir [] w = (None, w)"
| "write_files dir ((n, b) # fs) w = (case os_WriteFile (filepath_Join dir n) b w of
     (Some e, w1) \<Rightarrow> (Some (Errorf ''write %s: %w'' [Str n] (Some e)), w1)
   | (None, w1) \<Rightarrow> write_files dir fs w1)"

definition bundle_dir :: "path \<Rightarrow> gotime \<Rightarrow> path" where
  "bundle_dir dir now = filepath_Join dir (''evidence-'' @ stamp (utc now) @ ''Z'')"

definition export_header :: "'k exporter \<Rightarrow> evidence_record list \<Rightarrow> gotime \<Rightarrow> header" where
  "export_header e rs now = \<lparr>hd_Tool = ''evidenced'', hd_Framework = frameworkName e, hd_GeneratedAt = now,
     hd_RecordCount = int (length rs), hd_Records = rs\<rparr>"

text \<open>What is made of the verified records: the files and their contents.\<close>

definition bundle_files ::
  "digest \<Rightarrow> 'k key_lib \<Rightarrow> walks \<Rightarrow> 'k exporter \<Rightarrow> evidence_record list \<Rightarrow> gotime \<Rightarrow> (string \<times> bytes) list result" where
  "bundle_files H L W e rs now =
     bindr (wrap ''encode evidence.json: %w'' [] (header_tree (export_header e rs now))) (\<lambda>t.
       let files = [(''evidence.json'', MarshalIndent t), (''report.md'', renderReport W e rs now)]
       in bindr (wrap ''encode manifest: %w'' [] (manifest_tree (BuildManifest H L files (ex_Key e) now)))
            (\<lambda>mt. Inr (files @ [(''manifest.json'', MarshalIndent mt)])))"

definition Export ::
  "digest \<Rightarrow> 'k key_lib \<Rightarrow> walks \<Rightarrow> 'k exporter \<Rightarrow> gotime \<Rightarrow> path \<Rightarrow> file_store \<Rightarrow> os \<Rightarrow> path result \<times> os" where
  "Export H L W e now dir s w = (case All s w of
     (Inl err, w1) \<Rightarrow> (Inl (Errorf ''load records: %w'' [] (Some err)), w1)
   | (Inr rs, w1) \<Rightarrow> (case Verify H rs of
       Some err \<Rightarrow> (Inl (Errorf ''refusing to export: %w'' [] (Some err)), w1)
     | None \<Rightarrow> (case os_MkdirAll (bundle_dir dir now) w1 of
         (Some err, w2) \<Rightarrow> (Inl (Errorf ''create bundle directory: %w'' [] (Some err)), w2)
       | (None, w2) \<Rightarrow> (case bundle_files H L W e rs now of
           Inl err \<Rightarrow> (Inl err, w2)
         | Inr files \<Rightarrow> (case write_files (bundle_dir dir now) (wk_files W files) w2 of
             (Some err, w3) \<Rightarrow> (Inl err, w3)
           | (None, w3) \<Rightarrow> (Inr (bundle_dir dir now), w3))))))"

section \<open>The groups of the report\<close>

lemma add_to_controls_facts:
  assumes "ordered m"
  shows "ordered (add_to_controls r ks m)"
    "map_of (add_to_controls r ks m) k =
       (if k \<in> set ks then Some ((case map_of m k of None \<Rightarrow> [] | Some rs \<Rightarrow> rs) @ replicate (count_list ks k) r)
        else map_of m k)"
  using assms
  by (induction r ks m rule: add_to_controls.induct) (auto simp: replicate_append_same [symmetric] split: option.split)

lemma count_list_pos: "count_list ks k = 0 \<longleftrightarrow> k \<notin> set ks"
  by (simp add: count_list_0_iff)

text \<open>Under a control stand the records mapped to it, in the order of the chain.\<close>

lemma group_records_facts:
  "ordered (gr_byControl (group_records rs))"
  "gr_failures (group_records rs) = filter (\<lambda>r. Outcome r = OutcomeFailed) rs"
  "gr_unmapped (group_records rs) = length (filter (\<lambda>r. ControlIDs r = []) rs)"
  "map_of (gr_byControl (group_records rs)) k =
     (let l = concat (map (\<lambda>r. replicate (count_list (ControlIDs r) k) r) rs) in if l = [] then None else Some l)"
proof -
  have "ordered (gr_byControl g) \<Longrightarrow>
      ordered (gr_byControl (fold group_record rs g)) \<and>
      gr_failures (fold group_record rs g) = gr_failures g @ filter (\<lambda>r. Outcome r = OutcomeFailed) rs \<and>
      gr_unmapped (fold group_record rs g) = gr_unmapped g + length (filter (\<lambda>r. ControlIDs r = []) rs) \<and>
      map_of (gr_byControl (fold group_record rs g)) k =
        (let l = concat (map (\<lambda>r. replicate (count_list (ControlIDs r) k) r) rs) in
         if l = [] then map_of (gr_byControl g) k
         else Some ((case map_of (gr_byControl g) k of None \<Rightarrow> [] | Some ss \<Rightarrow> ss) @ l))" for g
  proof (induction rs arbitrary: g)
    case (Cons r rs)
    have "ordered (gr_byControl (group_record r g))"
      using Cons.prems by (simp add: group_record_def add_to_controls_facts)
    note IH = Cons.IH [OF this]
    show ?case
      using Cons.prems IH
      by (auto simp: group_record_def add_to_controls_facts count_list_pos Let_def split: option.splits)
  qed simp
  note f = this [of "\<lparr>gr_byControl = [], gr_failures = [], gr_unmapped = 0\<rparr>"]
  show "ordered (gr_byControl (group_records rs))"
    "gr_failures (group_records rs) = filter (\<lambda>r. Outcome r = OutcomeFailed) rs"
    "gr_unmapped (group_records rs) = length (filter (\<lambda>r. ControlIDs r = []) rs)"
    "map_of (gr_byControl (group_records rs)) k =
     (let l = concat (map (\<lambda>r. replicate (count_list (ControlIDs r) k) r) rs) in if l = [] then None else Some l)"
    using f by (simp_all add: group_records_def)
qed

section \<open>The latest records\<close>

definition newer :: "evidence_record \<Rightarrow> evidence_record option \<Rightarrow> evidence_record option" where
  "newer r cur = (case cur of
     None \<Rightarrow> Some r | Some c \<Rightarrow> if after (CollectedAt r) (CollectedAt c) then Some r else Some c)"

lemma latest_newer:
  assumes "ordered m"
  shows "ordered (latest m rs) \<and>
    map_of (latest m rs) k = fold newer (filter (\<lambda>r. target_key r = k) rs) (map_of m k)"
  using assms
  by (induction m rs rule: latest.induct) (auto simp: newer_def split: option.splits)

lemma fold_newer:
  "(fold newer rs cur = None \<longleftrightarrow> rs = [] \<and> cur = None) \<and>
   (fold newer rs cur = Some r \<longrightarrow> (r \<in> set rs \<or> cur = Some r)
     \<and> (\<forall>x\<in>set rs \<union> set_option cur. inst (CollectedAt x) \<le> inst (CollectedAt r)))"
proof (induction rs arbitrary: cur)
  case (Cons x rs)
  show ?case
    using Cons.IH [of "newer x cur"]
    by (cases cur) (auto simp: newer_def after_def split: if_splits)
qed auto

text \<open>Of each target the newest record, and nothing else.\<close>

lemma latest_facts:
  "map_of (latest [] rs) k = Some r \<Longrightarrow> r \<in> set rs \<and> target_key r = k
     \<and> (\<forall>x\<in>set rs. target_key x = k \<longrightarrow> inst (CollectedAt x) \<le> inst (CollectedAt r))"
  "map_of (latest [] rs) k = None \<longleftrightarrow> k \<notin> target_key ` set rs"
  "ordered (latest [] rs)"
proof -
  let ?xs = "filter (\<lambda>r. target_key r = k) rs"
  have l: "map_of (latest [] rs) k = fold newer ?xs None" and o: "ordered (latest [] rs)"
    using latest_newer [of "[]" rs k] by simp_all
  show "ordered (latest [] rs)" by (rule o)
  show "map_of (latest [] rs) k = None \<longleftrightarrow> k \<notin> target_key ` set rs"
  proof -
    have "fold newer ?xs None = None \<longleftrightarrow> ?xs = []" using fold_newer [of ?xs None r] by simp
    then show ?thesis unfolding l by (auto simp: filter_empty_conv)
  qed
  assume "map_of (latest [] rs) k = Some r"
  then have "r \<in> set ?xs \<and> (\<forall>x\<in>set ?xs. inst (CollectedAt x) \<le> inst (CollectedAt r))"
    using fold_newer [of ?xs None r] unfolding l by simp
  then show "r \<in> set rs \<and> target_key r = k
     \<and> (\<forall>x\<in>set rs. target_key x = k \<longrightarrow> inst (CollectedAt x) \<le> inst (CollectedAt r))" by simp
qed

lemma latest_values:
  "map target_key (map snd (latest [] rs)) = keys (latest [] rs)"
proof -
  have "target_key r = k" if "(k, r) \<in> set (latest [] rs)" for k r
  proof -
    have "distinct (map fst (latest [] rs))"
      using latest_facts(3) [of rs] by (simp add: ordered_def keys_def strict_sorted_iff)
    with that have "map_of (latest [] rs) k = Some r" by (intro map_of_is_SomeI)
    then show ?thesis using latest_facts(1) by blast
  qed
  then show ?thesis by (auto simp: keys_def)
qed

text \<open>
  The list of the report: at most \<open>limit\<close> records, one of each target and the newest of it, the
  newest first; a target that is left out is no newer than any that is listed.
\<close>

lemma latestPerTarget_facts:
  fixes rs :: "evidence_record list" and limit :: nat
  assumes "walks_ok W"
  defines "out \<equiv> latestPerTarget W rs limit"
  shows "length out \<le> limit" "set out \<subseteq> set rs" "distinct (map target_key out)"
    "sorted_wrt (\<lambda>a b. inst (CollectedAt b) \<le> inst (CollectedAt a)) out"
    "r \<in> set out \<Longrightarrow> x \<in> set rs \<Longrightarrow> target_key x = target_key r \<Longrightarrow> inst (CollectedAt x) \<le> inst (CollectedAt r)"
    "x \<in> set rs \<Longrightarrow> target_key x \<notin> target_key ` set out \<Longrightarrow>
      length out = limit \<and> (\<forall>r\<in>set out. inst (CollectedAt x) \<le> inst (CollectedAt r))"
proof -
  let ?all = "map snd (latest [] rs)" and ?f = "\<lambda>r. - inst (CollectedAt r)"
  let ?w = "wk_records W ?all"
  have w: "set ?w = set ?all" "length ?w = length ?all" using assms(1) by (auto simp: walks_ok_def)
  have o: "out = take limit (sort_key ?f ?w)" by (simp add: out_def latestPerTarget_def)
  have dall: "distinct (map target_key ?all)"
    unfolding latest_values using latest_facts(3) [of rs] by (simp add: ordered_def strict_sorted_iff)
  have "card (target_key ` set ?w) = length ?w"
    using w dall distinct_card [of "map target_key ?all"] by (simp del: map_map add: image_image)
  then have "distinct (map target_key ?w)" by (intro card_distinct) simp
  then have "distinct (map target_key (sort_key ?f ?w))"
    by (simp add: distinct_map)
  then show "distinct (map target_key out)" using o by (metis distinct_take take_map)
  show "length out \<le> limit" using o by simp
  have all: "r \<in> set rs \<and> (\<forall>x\<in>set rs. target_key x = target_key r \<longrightarrow> inst (CollectedAt x) \<le> inst (CollectedAt r))"
    if r: "r \<in> set ?all" for r
  proof -
    obtain k where kr: "(k, r) \<in> set (latest [] rs)" using r by auto
    have "distinct (map fst (latest [] rs))"
      using latest_facts(3) [of rs] by (simp add: ordered_def keys_def strict_sorted_iff)
    with kr have "map_of (latest [] rs) k = Some r" by (intro map_of_is_SomeI)
    then show ?thesis using latest_facts(1) [of rs k r] by auto
  qed
  have sub: "set out \<subseteq> set ?all" using w o set_take_subset [of limit "sort_key ?f ?w"] by auto
  then show "set out \<subseteq> set rs" using all by blast
  show "r \<in> set out \<Longrightarrow> x \<in> set rs \<Longrightarrow> target_key x = target_key r \<Longrightarrow> inst (CollectedAt x) \<le> inst (CollectedAt r)"
    using sub all by blast
  have srt: "sorted (map ?f (sort_key ?f ?w))" by simp
  then have "sorted (map ?f out)" using o by (metis sorted_wrt_take take_map)
  then show "sorted_wrt (\<lambda>a b. inst (CollectedAt b) \<le> inst (CollectedAt a)) out"
    by (simp add: sorted_wrt_map)
  assume x: "x \<in> set rs" "target_key x \<notin> target_key ` set out"
  then obtain y where y: "map_of (latest [] rs) (target_key x) = Some y"
    using latest_facts(2) [of rs "target_key x"] by fastforce
  then have yx: "target_key y = target_key x" "inst (CollectedAt x) \<le> inst (CollectedAt y)"
    using latest_facts(1) [OF y] x(1) by auto
  have "y \<in> set ?all" using y by (force dest: map_of_SomeD)
  then have "y \<in> set (sort_key ?f ?w)" using w by simp
  moreover have "y \<notin> set out" using x(2) yx(1) by (metis image_eqI)
  ultimately have d: "y \<in> set (drop limit (sort_key ?f ?w))"
    using o by (metis Un_iff append_take_drop_id set_append)
  have "inst (CollectedAt y) \<le> inst (CollectedAt r)" if "r \<in> set out" for r
  proof -
    have "sorted (map ?f (take limit (sort_key ?f ?w) @ drop limit (sort_key ?f ?w)))"
      by (simp only: append_take_drop_id srt)
    then have "?f r \<le> ?f y" using that d o by (auto simp: sorted_append simp del: append_take_drop_id)
    then show ?thesis by simp
  qed
  moreover have "limit < length (sort_key ?f ?w)" using d by (metis drop_all empty_iff list.set(1) not_less)
  ultimately show "length out = limit \<and> (\<forall>r\<in>set out. inst (CollectedAt x) \<le> inst (CollectedAt r))"
    using o yx(2) by (fastforce intro: order_trans)
qed

end
