(* ===== verification/Bundle_Check.thy ===== *)
theory Bundle_Check
  imports Bundle
begin

text \<open>
  What verifying a bundle establishes: the files the manifest lists are there with their
  checksums, and a signature is by the key the manifest itself names. What it does not: a manifest
  that lists nothing passes, and so does one whose signature was taken out.
\<close>

lemma check_files_calm:
  "calm w \<Longrightarrow> snd (check_files H dir fs w) = w \<and> (fst (check_files H dir fs w) = None \<longleftrightarrow>
     (\<forall>(n, want)\<in>set fs. \<exists>b. file_at w (filepath_Join dir (filepath_Base n)) = Some b \<and> hex_sum H b = want))"
proof (induction fs)
  case (Cons f fs)
  obtain n want where f: "f = (n, want)" by fastforce
  show ?case
    using Cons.IH [OF Cons.prems] Cons.prems f
    by (cases "file_at w (filepath_Join dir (filepath_Base n))") (simp_all add: calm_ReadFile)
qed simp

definition manifest_files :: "manifest \<Rightarrow> (string \<times> string) list" where
  "manifest_files m = (case mf_Files m of None \<Rightarrow> [] | Some fs \<Rightarrow> fs)"

text \<open>The manifest a bundle directory holds.\<close>

definition manifest_at :: "os \<Rightarrow> path \<Rightarrow> manifest option" where
  "manifest_at w dir = (case file_at w (filepath_Join dir ''manifest.json'') of
     None \<Rightarrow> None | Some b \<Rightarrow> (case unmarshal_manifest b of Inl _ \<Rightarrow> None | Inr m \<Rightarrow> Some m))"

lemma ReadManifest_calm:
  assumes "calm w"
  shows "snd (ReadManifest dir w) = w" "fst (ReadManifest dir w) = Inr m \<longleftrightarrow> manifest_at w dir = Some m"
  using assms by (auto simp: ReadManifest_def calm_ReadFile manifest_at_def wrap_def split: option.split sum.split)

text \<open>Verification as a condition on the files.\<close>

definition bundle_valid :: "digest \<Rightarrow> 'k key_lib \<Rightarrow> path \<Rightarrow> os \<Rightarrow> manifest \<Rightarrow> bool" where
  "bundle_valid H L dir w m \<longleftrightarrow> manifest_at w dir = Some m
     \<and> (\<forall>(n, want)\<in>set (manifest_files m). \<exists>b. file_at w (filepath_Join dir (filepath_Base n)) = Some b \<and> hex_sum H b = want)
     \<and> (mf_Signature m \<noteq> [] \<longrightarrow> (\<exists>pub sig. b64_decode (mf_PublicKey m) = Some pub \<and> length pub = 32
          \<and> b64_decode (mf_Signature m) = Some sig \<and> kl_Verify L pub (signed_text (mf_Files m)) sig))"

lemma check_signature_iff:
  "check_signature L m = None \<longleftrightarrow> (mf_Signature m \<noteq> [] \<longrightarrow> (\<exists>pub sig. b64_decode (mf_PublicKey m) = Some pub
     \<and> length pub = 32 \<and> b64_decode (mf_Signature m) = Some sig \<and> kl_Verify L pub (signed_text (mf_Files m)) sig))"
  by (auto simp: check_signature_def split: option.splits)

lemma bundle_Verify_iff:
  assumes "calm w"
  shows "snd (bundle_Verify H L dir w) = w" "fst (bundle_Verify H L dir w) = None \<longleftrightarrow> (\<exists>m. bundle_valid H L dir w m)"
proof -
  obtain r where r: "ReadManifest dir w = (r, w)" using ReadManifest_calm(1) [OF assms, of dir] by (cases "ReadManifest dir w") auto
  have files: "y = w" if "check_files H dir (manifest_files m) w = (x, y)" for m x y
    using check_files_calm [OF assms, of H dir "manifest_files m"] that by simp
  show "snd (bundle_Verify H L dir w) = w"
    using r by (auto simp: bundle_Verify_def simp flip: manifest_files_def dest: files split: sum.split prod.split option.split)
  show "fst (bundle_Verify H L dir w) = None \<longleftrightarrow> (\<exists>m. bundle_valid H L dir w m)"
  proof (cases r)
    case (Inl e)
    with r ReadManifest_calm(2) [OF assms, of dir] show ?thesis
      by (auto simp: bundle_Verify_def bundle_valid_def)
  next
    case (Inr m)
    then have m: "manifest_at w dir = Some m" using r ReadManifest_calm(2) [OF assms, of dir m] by simp
    have "fst (bundle_Verify H L dir w) = None \<longleftrightarrow>
        fst (check_files H dir (manifest_files m) w) = None \<and> check_signature L m = None"
      using r Inr by (auto simp: bundle_Verify_def simp flip: manifest_files_def split: prod.split option.split)
    then show ?thesis
      using m check_files_calm [OF assms, of H dir "manifest_files m"]
      by (auto simp: bundle_valid_def check_signature_iff)
  qed
qed

text \<open>
  Under one manifest a listed file has one content: a changed file is noticed, or the digest has
  a collision.
\<close>

lemma bundle_content_unique:
  assumes "bundle_valid H L dir w m" "bundle_valid H L dir w' m" "(n, want) \<in> set (manifest_files m)"
    "file_at w (filepath_Join dir (filepath_Base n)) = Some b"
    "file_at w' (filepath_Join dir (filepath_Base n)) = Some c"
  shows "b = c \<or> (b \<noteq> c \<and> H b = H c)"
proof -
  have "hex_sum H b = want" "hex_sum H c = want"
    using assms by (fastforce simp: bundle_valid_def)+
  then show ?thesis by (auto simp: hex_sum_def dest: hex_encode_inject [THEN iffD1])
qed

lemma empty_manifest_valid:
  assumes "file_at w (filepath_Join dir ''manifest.json'') = Some ''{}''"
  shows "bundle_valid H L dir w zero_manifest"
proof -
  have "json_spelled ''{}'' = Some (SObj ''{}'' [])" by code_simp
  then have "unmarshal_manifest ''{}'' = Inr zero_manifest" by (simp add: unmarshal_manifest_def)
  with assms show ?thesis
    by (simp add: bundle_valid_def manifest_at_def manifest_files_def) (simp add: zero_manifest_def)
qed

lemma stripped_signature_valid:
  assumes "bundle_valid H L dir w m" "manifest_at w' dir = Some (m\<lparr>mf_Signature := []\<rparr>)"
    "\<And>q. q \<noteq> filepath_Join dir ''manifest.json'' \<Longrightarrow> file_at w' q = file_at w q"
    "\<And>n want. (n, want) \<in> set (manifest_files m) \<Longrightarrow>
       filepath_Join dir (filepath_Base n) \<noteq> filepath_Join dir ''manifest.json''"
  shows "bundle_valid H L dir w' (m\<lparr>mf_Signature := []\<rparr>)"
proof -
  have "\<exists>b. file_at w' (filepath_Join dir (filepath_Base n)) = Some b \<and> hex_sum H b = want"
    if e: "(n, want) \<in> set (manifest_files m)" for n want
    using assms(1) assms(3) [OF assms(4) [OF e]] e by (auto simp: bundle_valid_def)
  then have "\<forall>(n, want)\<in>set (manifest_files (m\<lparr>mf_Signature := []\<rparr>)).
      \<exists>b. file_at w' (filepath_Join dir (filepath_Base n)) = Some b \<and> hex_sum H b = want"
    by (auto simp: manifest_files_def)
  with assms(2) show ?thesis by (simp add: bundle_valid_def)
qed

section \<open>A manifest just built\<close>

lemma foldl_put_hex:
  assumes "ordered acc"
  shows "ordered (foldl (\<lambda>m (n, b). put n (hex_sum H b) m) acc files)"
    "map_of (foldl (\<lambda>m (n, b). put n (hex_sum H b) m) acc files) k =
       (case map_of (rev files) k of Some b \<Rightarrow> Some (hex_sum H b) | None \<Rightarrow> map_of acc k)"
  using assms
proof (induction files arbitrary: acc)
  case (Cons f files)
  obtain n b where f: "f = (n, b)" by fastforce
  { case 1 with Cons.IH(1) f show ?case by simp }
  { case 2 with Cons.IH(2) [of "put n (hex_sum H b) acc"] f show ?case
      by (auto simp: map_add_def split: option.split) }
qed simp_all

lemma BuildManifest_files:
  "mf_Files (BuildManifest H L files key now) = Some (foldl (\<lambda>m (n, b). put n (hex_sum H b) m) [] files)"
  "mf_GeneratedAt (BuildManifest H L files key now) = now"
  by (simp_all add: BuildManifest_def Let_def split: option.split)

lemma BuildManifest_entry:
  assumes "(n, want) \<in> set (manifest_files (BuildManifest H L files key now))"
  obtains b where "map_of (rev files) n = Some b" "hex_sum H b = want"
proof -
  let ?m = "foldl (\<lambda>m (n, b). put n (hex_sum H b) m) [] files"
  have "(n, want) \<in> set ?m" using assms by (simp add: manifest_files_def BuildManifest_files)
  moreover have "distinct (map fst ?m)"
    using foldl_put_hex(1) [of "[]" H files] by (simp add: ordered_def keys_def strict_sorted_iff)
  ultimately have "map_of ?m n = Some want" by (rule map_of_is_SomeI [rotated])
  with foldl_put_hex(2) [of "[]" H files n] that show thesis by (auto split: option.splits)
qed

lemma BuildManifest_signature:
  assumes "key_lib_ok L"
  shows "check_signature L (BuildManifest H L files key now) = None"
  using assms
  by (auto simp: check_signature_iff BuildManifest_def key_lib_ok_def b64_decode_encode Let_def split: option.split)

lemma b64_ascii: "c \<in> set (b64_encode s) \<Longrightarrow> code c < 128"
proof -
  have al: "\<forall>c\<in>set b64_alphabet. code c < 128" by (simp add: b64_alphabet_def code_def)
  have len: "length b64_alphabet = 64" by (simp add: b64_alphabet_def)
  have "code (b64_char n) < 128" if "n < 64" for n
    using al that nth_mem [of n b64_alphabet] by (simp add: b64_char_def len)
  moreover have "code (CHR ''='') < 128" by (simp add: code_def)
  ultimately show "c \<in> set (b64_encode s) \<Longrightarrow> code c < 128"
    by (induction s rule: b64_encode.induct) (auto simp del: code_less)
qed

lemma hex_ascii: "c \<in> set (hex_encode s) \<Longrightarrow> code c < 128"
proof (induction s)
  case (Cons d s)
  have "code (hex_digit n) < 128" if "n < 16" for n
    using hex_digit_plain [OF that] by (auto simp: code_def)
  moreover have "code d div 16 < 16" using code_less [of d] by linarith
  ultimately show ?case using Cons by auto
qed simp

lemma BuildManifest_wf:
  assumes "60 dvd offset now" "\<forall>(n, b)\<in>set files. valid_utf8 n"
  shows "wf_manifest (BuildManifest H L files key now)"
proof -
  let ?m = "foldl (\<lambda>m (n, b). put n (hex_sum H b) m) [] files"
  have "valid_utf8 (b64_encode s)" "valid_utf8 (hex_encode s)" for s
    using b64_ascii hex_ascii by (auto intro!: valid_utf8_ascii)
  moreover have "valid_utf8 n \<and> valid_utf8 want" if e: "(n, want) \<in> set ?m" for n want
  proof -
    obtain b where b: "map_of (rev files) n = Some b" "hex_sum H b = want"
      by (rule BuildManifest_entry [of n want H L files key now]) (use e in \<open>simp add: manifest_files_def BuildManifest_files\<close>)
    then have "(n, b) \<in> set files" using map_of_SomeD by fastforce
    with assms(2) b calculation show ?thesis by (auto simp: hex_sum_def)
  qed
  ultimately show ?thesis
    using assms(1) foldl_put_hex(1) [of "[]" H files]
    by (auto simp: wf_manifest_def BuildManifest_def Let_def split: option.split)
qed

section \<open>Verification whatever fails\<close>

text \<open>Under every schedule of faults, a verification that finds no error found the files valid.\<close>

lemma check_files_reads:
  "check_files H dir fs w = (e, w') \<Longrightarrow> same_files w w' \<and> (e = None \<longrightarrow>
     (\<forall>(n, want)\<in>set fs. \<exists>b. file_at w (filepath_Join dir (filepath_Base n)) = Some b \<and> hex_sum H b = want))"
proof (induction fs arbitrary: w)
  case (Cons f fs)
  obtain n want where f: "f = (n, want)" by fastforce
  obtain x w1 where r: "os_ReadFile (filepath_Join dir (filepath_Base n)) w = (x, w1)" by fastforce
  note rd = ReadFile_reads [OF r]
  show ?case
  proof (cases x)
    case (Inl err)
    with Cons.prems f r rd show ?thesis by auto
  next
    case (Inr b)
    show ?thesis
    proof (cases "hex_sum H b = want")
      case True
      then have "check_files H dir fs w1 = (e, w')" using Cons.prems f r Inr by simp
      from Cons.IH [OF this] True rd Inr f same_files_at [OF rd(1)] show ?thesis by (auto intro: same_files_trans)
    next
      case False
      with Cons.prems f r Inr rd show ?thesis by auto
    qed
  qed
qed simp

lemma bundle_Verify_valid:
  assumes "bundle_Verify H L dir w = (None, w')"
  shows "same_files w w' \<and> (\<exists>m. bundle_valid H L dir w m)"
proof -
  obtain x w1 where r: "os_ReadFile (filepath_Join dir ''manifest.json'') w = (x, w1)" by fastforce
  note rd = ReadFile_reads [OF r]
  obtain b m where b: "x = Inr b" "unmarshal_manifest b = Inr m"
    using assms r by (auto simp: bundle_Verify_def ReadManifest_def wrap_def split: sum.splits prod.splits)
  then have m: "manifest_at w dir = Some m" using rd(2) [of b] by (simp add: manifest_at_def)
  obtain e w2 where c: "check_files H dir (manifest_files m) w1 = (e, w2)" by fastforce
  then have e: "e = None" "check_signature L m = None" "w2 = w'"
    using assms r b by (auto simp: bundle_Verify_def ReadManifest_def wrap_def manifest_files_def split: option.splits)
  note ck = check_files_reads [OF c]
  have "bundle_valid H L dir w m"
    using m ck e(1) check_signature_iff [of L m] e(2) same_files_at [OF rd(1)] unfolding bundle_valid_def by simp
  moreover have "same_files w w'" using ck rd(1) e(3) by (auto intro: same_files_trans)
  ultimately show ?thesis by blast
qed

end
