(* ===== verification/Export_Check.thy ===== *)
theory Export_Check
  imports Exporter Bundle_Check Evidence_Store "HOL-Library.Sublist"
begin

text \<open>
  An export and what becomes of it: the bundle of a store that holds an intact chain passes
  \<open>bundle.Verify\<close>, and \<open>bundle.Read\<close> gives the records of the store; a store that does not verify
  is refused, and nothing is written.
\<close>

section \<open>Writing the files\<close>

lemma write_files_new:
  assumes "calm w" "os_ok w" "distinct (map fst fs)"
    "\<And>n b. (n, b) \<in> set fs \<Longrightarrow> plain_name n \<and> names w (filepath_Join d n) = None"
  shows "\<exists>w'. write_files d fs w = (None, w') \<and> calm w' \<and> os_ok w'
    \<and> (\<forall>(n, b)\<in>set fs. file_at w' (filepath_Join d n) = Some b)
    \<and> (\<forall>q. q \<notin> filepath_Join d ` fst ` set fs \<longrightarrow> file_at w' q = file_at w q \<and> names w' q = names w q)
    \<and> (\<forall>i < unused w. inodes w' i = inodes w i) \<and> unused w \<le> unused w' \<and> entropy w' = entropy w"
  using assms
proof (induction fs arbitrary: w)
  case (Cons f fs)
  obtain n b where f: "f = (n, b)" by fastforce
  have n: "plain_name n" "names w (filepath_Join d n) = None" using Cons.prems(4) [of n b] f by simp_all
  obtain w1 where w1: "os_WriteFile (filepath_Join d n) b w = (None, w1)" "calm w1" "os_ok w1"
    "\<And>q. file_at w1 q = (if q = filepath_Join d n then Some b else file_at w q)"
    "\<And>q. names w1 q = (if q = filepath_Join d n then Some (unused w) else names w q)"
    "\<And>i. i < unused w \<Longrightarrow> inodes w1 i = inodes w i" "unused w \<le> unused w1" "entropy w1 = entropy w"
    using WriteFile_new_facts [OF Cons.prems(1,2) n(2), of b] by auto
  have other: "filepath_Join d m \<noteq> filepath_Join d n" "plain_name m" "names w1 (filepath_Join d m) = None"
    if "(m, c) \<in> set fs" for m c
  proof -
    have m: "plain_name m" "names w (filepath_Join d m) = None" using Cons.prems(4) [of m c] that by auto
    have "m \<noteq> n" using that Cons.prems(3) f by force
    then show "filepath_Join d m \<noteq> filepath_Join d n" using Join_inject [OF m(1) n(1)] by simp
    then show "plain_name m" "names w1 (filepath_Join d m) = None" using m w1(5) by simp_all
  qed
  obtain w' where w': "write_files d fs w1 = (None, w')" "calm w'" "os_ok w'"
    "\<forall>(n, b)\<in>set fs. file_at w' (filepath_Join d n) = Some b"
    "\<And>q. q \<notin> filepath_Join d ` fst ` set fs \<Longrightarrow> file_at w' q = file_at w1 q \<and> names w' q = names w1 q"
    "\<forall>i < unused w1. inodes w' i = inodes w1 i" "unused w1 \<le> unused w'" "entropy w' = entropy w1"
    using Cons.IH [OF w1(2,3)] Cons.prems(3) other(2,3) by auto
  have "filepath_Join d n \<notin> filepath_Join d ` fst ` set fs" using other(1) by force
  then have "file_at w' (filepath_Join d n) = Some b" using w'(5) w1(4) by simp
  moreover have "file_at w' q = file_at w q \<and> names w' q = names w q" if "q \<notin> filepath_Join d ` fst ` set (f # fs)" for q
  proof -
    have "q \<noteq> filepath_Join d n" "q \<notin> filepath_Join d ` fst ` set fs" using that f by auto
    then show ?thesis using w'(5) [of q] w1(4,5) by simp
  qed
  moreover have "\<forall>i < unused w. inodes w' i = inodes w i" using w'(6) w1(6,7) by auto
  ultimately show ?case
    using w' w1(1,7,8) f by (intro exI [of _ w']) auto
qed simp

section \<open>An export succeeds\<close>

lemma record_trees_storable:
  "\<forall>r\<in>set rs. storable r \<Longrightarrow> \<exists>ts. record_trees rs = Inr ts"
proof (induction rs)
  case (Cons r rs)
  obtain t where "record_tree r = Inr t"
    using Cons.prems by (cases "record_tree r") (auto simp: storable_def marshal_record_def)
  with Cons show ?case by auto
qed simp

text \<open>What an export needs besides the store: a time that has a text, a name that is text, and depth to spare.\<close>

definition exportable :: "'k exporter \<Rightarrow> evidence_record list \<Rightarrow> gotime \<Rightarrow> bool" where
  "exportable e rs now \<longleftrightarrow> format_time now \<noteq> None \<and> 60 dvd offset now \<and> valid_utf8 (frameworkName e)
     \<and> length rs < 2 ^ 63 \<and> (\<forall>t. header_tree (export_header e rs now) = Inr t \<longrightarrow> depth t \<le> 10000)"

definition bundle_names :: "string list" where
  "bundle_names = [''evidence.json'', ''report.md'', ''manifest.json'']"

lemma file_names_plain [simp]: "n \<in> set bundle_names \<Longrightarrow> plain_name n" "n \<in> set bundle_names \<Longrightarrow> valid_utf8 n"
  by (auto simp: bundle_names_def plain_name_def plain_valid code_def)

text \<open>The directory of this second does not hold a bundle yet.\<close>

definition fresh_bundle :: "os \<Rightarrow> path \<Rightarrow> bool" where
  "fresh_bundle w d \<longleftrightarrow> (\<forall>n\<in>set bundle_names. names w (filepath_Join d n) = None)"

lemma bundle_files_ok:
  assumes "\<forall>r\<in>set rs. storable r" "exportable e rs now"
  obtains t mt where "header_tree (export_header e rs now) = Inr t"
    "manifest_tree (BuildManifest H L [(''evidence.json'', MarshalIndent t), (''report.md'', renderReport W e rs now)]
        (ex_Key e) now) = Inr mt"
    "bundle_files H L W e rs now = Inr [(''evidence.json'', MarshalIndent t), (''report.md'', renderReport W e rs now),
        (''manifest.json'', MarshalIndent mt)]"
proof -
  obtain at where at: "format_time now = Some at" using assms(2) by (auto simp: exportable_def)
  obtain ts where "record_trees rs = Inr ts" using record_trees_storable [OF assms(1)] by blast
  with at obtain t where t: "header_tree (export_header e rs now) = Inr t"
    by (simp add: header_tree_def export_header_def)
  let ?fs = "[(''evidence.json'', MarshalIndent t), (''report.md'', renderReport W e rs now)]"
  obtain mt where mt: "manifest_tree (BuildManifest H L ?fs (ex_Key e) now) = Inr mt"
    using at by (simp add: manifest_tree_def BuildManifest_files)
  show thesis by (rule that [OF t mt]) (simp add: bundle_files_def t mt Let_def)
qed

lemma same_entries:
  assumes "set xs = set fs" "length xs = length fs" "distinct (map fst fs)"
  shows "distinct (map fst xs)"
proof -
  have "set (map fst xs) = set (map fst fs)" using assms(1) by simp
  then have "card (set (map fst xs)) = length (map fst fs)" using distinct_card [OF assms(3)] by simp
  then show ?thesis using assms(2) by (intro card_distinct) simp
qed

lemma Export_writes:
  assumes w: "calm w" "store_ok H s w rs" and W: "walks_ok W"
    and fresh: "fresh_bundle w (bundle_dir dir now)"
    and files: "bundle_files H L W e rs now = Inr fs" "map fst fs = bundle_names"
  obtains w' where "Export H L W e now dir s w = (Inr (bundle_dir dir now), w')" "calm w'" "store_ok H s w' rs"
    "\<And>n b. (n, b) \<in> set fs \<Longrightarrow> file_at w' (filepath_Join (bundle_dir dir now) n) = Some b"
proof -
  let ?d = "bundle_dir dir now"
  have st: "os_ok w" "Verify H rs = None" using w(2) by (simp_all add: store_ok_def Verify_None_iff)
  have walk: "set (wk_files W fs) = set fs" "length (wk_files W fs) = length fs"
    using W by (simp_all only: walks_ok_def)
  then have nm: "fst ` set (wk_files W fs) = set bundle_names" using files(2) by (metis list.set_map)
  have "distinct bundle_names" by (simp add: bundle_names_def)
  then have "distinct (map fst (wk_files W fs))" using files(2) by (intro same_entries [OF walk]) simp
  moreover have "plain_name n \<and> names w (filepath_Join ?d n) = None" if "(n, b) \<in> set (wk_files W fs)" for n b
  proof -
    have "n \<in> set bundle_names" using that nm by force
    then show ?thesis using fresh by (simp add: fresh_bundle_def)
  qed
  ultimately obtain w' where w': "write_files ?d (wk_files W fs) w = (None, w')" "calm w'" "os_ok w'"
    "\<forall>(n, b)\<in>set (wk_files W fs). file_at w' (filepath_Join ?d n) = Some b"
    "\<forall>q. q \<notin> filepath_Join ?d ` fst ` set (wk_files W fs) \<longrightarrow> file_at w' q = file_at w q \<and> names w' q = names w q"
    "\<forall>i < unused w. inodes w' i = inodes w i"
    using write_files_new [OF w(1) st(1)] by blast
  have "names w (spath s) \<noteq> None" using w(2) by (simp add: store_ok_def)
  then have "spath s \<notin> filepath_Join ?d ` fst ` set (wk_files W fs)"
    using fresh unfolding nm by (auto simp: fresh_bundle_def)
  then have "store_ok H s w' rs"
    using w(2) w'(3,5,6) by (auto simp: store_ok_def os_ok_def)
  moreover have "Export H L W e now dir s w = (Inr ?d, w')"
    using w'(1) store_ok_All [OF w] files(1) w(1) st(2) by (simp add: Export_def calm_calls)
  ultimately show thesis using that w'(2,4) walk(1) by blast
qed

lemma written_manifest_valid:
  assumes L: "key_lib_ok L" and now: "60 dvd offset now" and two: "\<forall>(n, b)\<in>set fs. n \<in> set bundle_names"
    and mt: "manifest_tree (BuildManifest H L fs key now) = Inr mt"
    and files: "\<And>n b. map_of (rev fs) n = Some b \<Longrightarrow> file_at w (filepath_Join d n) = Some b"
      "file_at w (filepath_Join d ''manifest.json'') = Some (MarshalIndent mt)"
  shows "bundle_valid H L d w (BuildManifest H L fs key now)"
proof -
  let ?man = "BuildManifest H L fs key now"
  have "wf_manifest ?man" using two now by (intro BuildManifest_wf) auto
  then have at: "manifest_at w d = Some ?man"
    using files(2) manifest_roundtrip [OF _ mt] by (simp add: manifest_at_def)
  have "\<exists>b. file_at w (filepath_Join d (filepath_Base n)) = Some b \<and> hex_sum H b = want"
    if en: "(n, want) \<in> set (manifest_files ?man)" for n want
  proof -
    obtain b where b: "map_of (rev fs) n = Some b" "hex_sum H b = want" by (rule BuildManifest_entry [OF en])
    then have "n \<in> set bundle_names" using two map_of_SomeD by fastforce
    then have "filepath_Base n = n" by (intro Base_plain file_names_plain)
    with files(1) [OF b(1)] b(2) show ?thesis by simp
  qed
  then show ?thesis
    using at BuildManifest_signature [OF L, of H fs key now]
    unfolding bundle_valid_def check_signature_iff by blast
qed

text \<open>
  What reading the exported header gives: the records with their observations as the indented file has
  them, each with the encoding, and so the hash, of the record that was exported.
\<close>

definition read_header :: "'k exporter \<Rightarrow> evidence_record list \<Rightarrow> gotime \<Rightarrow> header" where
  "read_header e rs now = \<lparr>hd_Tool = ''evidenced'', hd_Framework = frameworkName e, hd_GeneratedAt = now,
     hd_RecordCount = int (length rs), hd_Records = map (reindented 3) rs\<rparr>"

lemma reindented_encodings:
  "\<forall>r\<in>set rs. wf_record r \<Longrightarrow> map marshal_record (map (reindented d) rs) = map marshal_record rs"
  by (simp add: reindented_encoding wf_record_def)

theorem Export_verifies:
  assumes w: "calm w" "store_ok H s w rs" and L: "key_lib_ok L" and W: "walks_ok W"
    and e: "exportable e rs now" and fresh: "fresh_bundle w (bundle_dir dir now)"
  shows "\<exists>w'. Export H L W e now dir s w = (Inr (bundle_dir dir now), w') \<and> calm w' \<and> store_ok H s w' rs
    \<and> bundle_Verify H L (bundle_dir dir now) w' = (None, w')
    \<and> bundle_Read H (bundle_dir dir now) w' = (Inr (read_header e rs now), w')
    \<and> map marshal_record (map (reindented 3) rs) = map marshal_record rs"
proof -
  let ?d = "bundle_dir dir now"
  have st: "\<forall>r\<in>set rs. storable r" "Verify H rs = None" using w(2) by (simp_all add: store_ok_def Verify_None_iff)
  obtain t mt where t: "header_tree (export_header e rs now) = Inr t"
    and mt: "manifest_tree (BuildManifest H L [(''evidence.json'', MarshalIndent t), (''report.md'', renderReport W e rs now)]
        (ex_Key e) now) = Inr mt"
    and files: "bundle_files H L W e rs now = Inr [(''evidence.json'', MarshalIndent t),
        (''report.md'', renderReport W e rs now), (''manifest.json'', MarshalIndent mt)]"
    using bundle_files_ok [OF st(1) e] by blast
  obtain w' where w': "Export H L W e now dir s w = (Inr ?d, w')" "calm w'" "store_ok H s w' rs"
    and fs: "\<And>n b. (n, b) \<in> set [(''evidence.json'', MarshalIndent t), (''report.md'', renderReport W e rs now),
        (''manifest.json'', MarshalIndent mt)] \<Longrightarrow> file_at w' (filepath_Join ?d n) = Some b"
    using Export_writes [OF w W fresh files] by (simp add: bundle_names_def) blast
  have f: "file_at w' (filepath_Join ?d ''evidence.json'') = Some (MarshalIndent t)"
      "file_at w' (filepath_Join ?d ''report.md'') = Some (renderReport W e rs now)"
      "file_at w' (filepath_Join ?d ''manifest.json'') = Some (MarshalIndent mt)"
    by (rule fs; simp)+
  have "bundle_valid H L ?d w' (BuildManifest H L [(''evidence.json'', MarshalIndent t),
      (''report.md'', renderReport W e rs now)] (ex_Key e) now)"
    using e by (intro written_manifest_valid [OF L _ _ mt _ f(3)])
      (auto simp: exportable_def bundle_names_def f split: if_splits)
  then have v: "bundle_Verify H L ?d w' = (None, w')"
    using bundle_Verify_iff [OF w'(2), of H L ?d] by (metis prod.collapse)
  have hd: "wf_header (export_header e rs now)"
    using e st(1) by (auto simp: wf_header_def export_header_def exportable_def plain_valid code_def storable_def)
  have d: "depth t \<le> 10000" using e by (simp add: exportable_def t)
  have "unmarshal_header (MarshalIndent t) = Inr (read_header e rs now)"
    unfolding header_roundtrip [OF hd t d] by (simp add: export_header_def read_header_def)
  moreover have wf: "\<forall>r\<in>set rs. wf_record r" using st(1) by (simp add: storable_def)
  have "Verify H (hd_Records (read_header e rs now)) = None"
    using st(2) reindented_intact [OF wf, of H 3] by (simp add: read_header_def Verify_None_iff)
  ultimately have "bundle_Read H ?d w' = (Inr (read_header e rs now), w')"
    using w'(2) f(1) by (simp add: bundle_Read_def calm_ReadFile)
  with w' v reindented_encodings [OF wf] show ?thesis by blast
qed

text \<open>A store that does not verify is refused before anything is written.\<close>

lemma Export_refuses:
  assumes "All s w = (Inr rs, w1)" "Verify H rs = Some err"
  shows "Export H L W e now dir s w = (Inl (Errorf ''refusing to export: %w'' [] (Some err)), w1)"
  using assms by (simp add: Export_def)

lemma readRecords_same_files: "names (snd (readRecords p w)) = names w \<and> inodes (snd (readRecords p w)) = inodes w"
  by (auto simp: readRecords_def os_Open_def os_read_def spend_def split: fault.split option.split prod.split sum.split)

lemma Export_refuses_untouched:
  assumes "All s w = (Inr rs, w1)" "Verify H rs \<noteq> None"
  shows "(\<exists>err. fst (Export H L W e now dir s w) = Inl err)
    \<and> (\<forall>q. file_at (snd (Export H L W e now dir s w)) q = file_at w q)"
proof -
  obtain err where err: "Verify H rs = Some err" using assms(2) by auto
  have "file_at w1 q = file_at w q" for q
    using readRecords_same_files [of "spath s" w] assms(1) by (simp add: All_def file_at_def)
  then show ?thesis using Export_refuses [OF assms(1) err, of L W e now dir] by simp
qed

section \<open>The report\<close>

text \<open>Every failed record has its line in the report.\<close>

lemma renderReport_failures:
  assumes "r \<in> set rs" "Outcome r = OutcomeFailed"
  shows "\<exists>a b. renderReport W e rs now = a @ failure_line r @ b"
proof -
  let ?fs = "filter (\<lambda>r. Outcome r = OutcomeFailed) rs"
  obtain xs ys where "?fs = xs @ r # ys" using split_list [of r ?fs] assms by auto
  then have "\<exists>a b. failures_section ?fs = a @ failure_line r @ b"
    by (simp add: failures_section_def) (metis append.assoc)
  then obtain a b where ab: "failures_section ?fs = a @ failure_line r @ b" by blast
  show ?thesis
    unfolding renderReport_def Let_def group_records_facts(2) ab
    by (metis append.assoc)
qed

text \<open>Every control with records has a section over exactly these.\<close>

lemma sublist_skip: "sublist x b \<Longrightarrow> sublist x (a @ b)"
  and sublist_stop: "sublist x a \<Longrightarrow> sublist x (a @ b)"
  by (simp_all add: sublist_append)

lemma renderReport_controls:
  assumes "r \<in> set rs" "k \<in> set (ControlIDs r)"
  shows "\<exists>ss. sublist (control_section W e (k, ss)) (renderReport W e rs now)
    \<and> set ss = {x \<in> set rs. k \<in> set (ControlIDs x)}"
proof -
  let ?l = "concat (map (\<lambda>r. replicate (count_list (ControlIDs r) k) r) rs)"
  let ?g = "gr_byControl (group_records rs)"
  have s: "set ?l = {x \<in> set rs. k \<in> set (ControlIDs x)}"
    by (auto simp: count_list_0_iff set_replicate_conv_if split: if_splits)
  then have "r \<in> set ?l" using assms by blast
  then have "?l \<noteq> []" by force
  then have "map_of ?g k = Some ?l" using group_records_facts(4) [of rs k] by (simp add: Let_def)
  then have "(k, ?l) \<in> set ?g" by (rule map_of_SomeD)
  from split_list [OF this] obtain xs ys where g: "?g = xs @ (k, ?l) # ys" by blast
  have sec: "sublist (control_section W e (k, ?l)) (concat (map (control_section W e) ?g))"
    unfolding g by simp
  have "sublist (control_section W e (k, ?l)) (renderReport W e rs now)"
    unfolding renderReport_def Let_def
    by (rule sublist_skip, rule sublist_skip, rule sublist_skip, rule sublist_skip, rule sublist_skip,
        rule sublist_skip, rule sublist_skip, rule sublist_stop, rule sec)
  with s show ?thesis by blast
qed

end
