(* ===== verification/Config.thy ===== *)
theory Config
  imports Go_Os Go_Fmt
begin

text \<open>
  The configuration (\<open>internal/core/config.go\<close>): defaults, the lower bounds of the two
  durations, and loading. The YAML library's decoder and its node type \<open>'y\<close> are parameters;
  a node of kind 0 (no settings block) is \<open>None\<close>.
\<close>

section \<open>Durations as text\<close>

text \<open>\<open>Duration.String\<close>: \<open>fmtFrac\<close> drops the trailing zeros of a fraction.\<close>

definition minute :: int where "minute = 60 * second"

definition fmt_frac :: "nat \<Rightarrow> nat \<Rightarrow> string" where
  "fmt_frac prec u =
     (let s = rev (dropWhile (\<lambda>c. c = CHR ''0'') (rev (pad prec (u mod 10 ^ prec))))
      in if s = [] then [] else CHR ''.'' # s)"

definition fmt_below :: "nat \<Rightarrow> nat \<Rightarrow> string \<Rightarrow> string" where
  "fmt_below u prec unit = dec_digits (u div 10 ^ prec) @ fmt_frac prec u @ unit"

definition Duration_String :: "int \<Rightarrow> string" where
  "Duration_String d =
     (let u = nat \<bar>d\<bar>; s = u div 1000000000; m = s div 60; h = m div 60;
          body = (if u = 0 then ''0s''
            else if u < 1000 then fmt_below u 0 ''ns''
            else if u < 1000000 then fmt_below u 3 ([byte 0xC2, byte 0xB5] @ ''s'')
            else if u < 1000000000 then fmt_below u 6 ''ms''
            else (if h > 0 then dec_digits h @ ''h'' else []) @ (if m > 0 then dec_digits (m mod 60) @ ''m'' else [])
                 @ dec_digits (s mod 60) @ fmt_frac 9 u @ ''s'')
      in if d < 0 then CHR ''-'' # body else body)"

lemma pad_0 [simp]: "pad w 0 = replicate w (CHR ''0'')"
  by (induction w) (simp_all add: hex_digit_def replicate_append_same)

lemma fmt_frac_0 [simp]: "u mod 10 ^ prec = 0 \<Longrightarrow> fmt_frac prec u = []"
  by (simp add: fmt_frac_def)

lemma Duration_String_seconds:
  assumes "0 < s" "s < 60"
  shows "Duration_String (int s * second) = dec_digits s @ ''s''"
proof -
  have u: "nat (int s * second) = s * 1000000000" by simp
  have "fmt_frac 9 (s * 1000000000) = []" by (intro fmt_frac_0) simp
  with assms show ?thesis by (simp add: Duration_String_def Let_def u abs_mult)
qed

section \<open>The schema\<close>

record push_config =
  pu_URL :: string
  pu_TokenEnv :: string
  pu_TokenFile :: string
  pu_Agent :: string
  pu_CAFile :: string

definition Push_Enabled :: "push_config \<Rightarrow> bool" where
  "Push_Enabled p \<longleftrightarrow> pu_URL p \<noteq> []"

definition no_push :: push_config where
  "no_push = \<lparr>pu_URL = [], pu_TokenEnv = [], pu_TokenFile = [], pu_Agent = [], pu_CAFile = []\<rparr>"

record 'y collector_config =
  cl_Enabled :: bool
  cl_Settings :: "'y option"

text \<open>The map of collectors in the order of its names; a nil map is the empty one.\<close>

record 'y config =
  cf_StorePath :: path
  cf_StoreRotateAfter :: int
  cf_Interval :: int
  cf_ExportDir :: path
  cf_KeyPath :: path
  cf_Push :: push_config
  cf_Collectors :: "(string \<times> 'y collector_config) list"

text \<open>Settings are decoded over the zero value \<open>z\<close> of the collector's own configuration.\<close>

definition DecodeSettings :: "('y \<Rightarrow> 'v result) \<Rightarrow> 'v \<Rightarrow> 'y collector_config \<Rightarrow> 'v result" where
  "DecodeSettings dec z c = (case cl_Settings c of
     None \<Rightarrow> Inr z | Some node \<Rightarrow> wrap ''decode collector settings: %w'' [] (dec node))"

section \<open>Parsing\<close>

definition applyDefaults :: "'y config \<Rightarrow> 'y config" where
  "applyDefaults c =
     (let c1 = (if cf_StorePath c = [] then c\<lparr>cf_StorePath := ''evidence.jsonl''\<rparr> else c);
          c2 = (if cf_Interval c1 = 0 then c1\<lparr>cf_Interval := hour\<rparr> else c1);
          c3 = (if cf_StoreRotateAfter c2 = 0 then c2\<lparr>cf_StoreRotateAfter := 720 * hour\<rparr> else c2)
      in if cf_ExportDir c3 = [] then c3\<lparr>cf_ExportDir := ''reports''\<rparr> else c3)"

definition config_validate :: "'y config \<Rightarrow> error option" where
  "config_validate c =
     (if cf_Interval c < minute
        then Some (Errorf ''interval %s is below the 1m minimum'' [Str (Duration_String (cf_Interval c))] None)
      else if cf_StoreRotateAfter c < 24 * hour
        then Some (Errorf ''storeRotateAfter %s is below the 24h minimum''
               [Str (Duration_String (cf_StoreRotateAfter c))] None)
      else None)"

definition ParseConfig :: "(bytes \<Rightarrow> 'y config result) \<Rightarrow> bytes \<Rightarrow> 'y config result" where
  "ParseConfig dec b =
     bindr (wrap ''parse config: %w'' [] (dec b)) (\<lambda>c0.
       let c = applyDefaults c0
       in case config_validate c of Some e \<Rightarrow> Inl e | None \<Rightarrow> Inr c)"

definition LoadConfig :: "(bytes \<Rightarrow> 'y config result) \<Rightarrow> path \<Rightarrow> os \<Rightarrow> 'y config result \<times> os" where
  "LoadConfig dec p w = (case os_ReadFile p w of
     (Inl e, w1) \<Rightarrow> (Inl (Errorf ''read config %s: %w'' [Str p] (Some e)), w1)
   | (Inr b, w1) \<Rightarrow> (ParseConfig dec b, w1))"

definition config_Enabled :: "'y config \<Rightarrow> string \<Rightarrow> bool" where
  "config_Enabled c k = (case map_of (cf_Collectors c) k of None \<Rightarrow> False | Some cc \<Rightarrow> cl_Enabled cc)"

section \<open>What a parsed configuration promises\<close>

text \<open>The bounds every shell may rely on; durations are 64 bits wide.\<close>

definition config_ok :: "'y config \<Rightarrow> bool" where
  "config_ok c \<longleftrightarrow> minute \<le> cf_Interval c \<and> 24 * hour \<le> cf_StoreRotateAfter c
     \<and> cf_StorePath c \<noteq> [] \<and> cf_ExportDir c \<noteq> []"

lemma applyDefaults_paths: "cf_StorePath (applyDefaults c) \<noteq> []" "cf_ExportDir (applyDefaults c) \<noteq> []"
  by (simp_all add: applyDefaults_def Let_def)

lemma validate_ok_iff: "config_validate (applyDefaults c) = None \<longleftrightarrow> config_ok (applyDefaults c)"
  by (auto simp: config_validate_def config_ok_def applyDefaults_paths)

lemma applyDefaults_ok: "config_ok c \<Longrightarrow> applyDefaults c = c"
  by (auto simp: applyDefaults_def config_ok_def Let_def minute_def)

lemma ParseConfig_ok: "ParseConfig dec b = Inr c \<Longrightarrow> config_ok c"
  by (auto simp: ParseConfig_def Let_def bindr_eq_Inr validate_ok_iff split: option.splits)

lemma LoadConfig_ok: "LoadConfig dec p w = (Inr c, w') \<Longrightarrow> config_ok c"
  by (auto simp: LoadConfig_def dest: ParseConfig_ok split: prod.splits sum.splits)

text \<open>What was accepted is accepted again as it stands, and nothing is changed.\<close>

lemma ParseConfig_fixed: "config_ok c \<Longrightarrow> dec b = Inr c \<Longrightarrow> ParseConfig dec b = Inr c"
  using validate_ok_iff [of c] by (simp add: ParseConfig_def applyDefaults_ok Let_def)

lemma applyDefaults_range:
  assumes "\<bar>cf_Interval c\<bar> \<le> max_duration" "\<bar>cf_StoreRotateAfter c\<bar> \<le> max_duration"
  shows "\<bar>cf_Interval (applyDefaults c)\<bar> \<le> max_duration" "\<bar>cf_StoreRotateAfter (applyDefaults c)\<bar> \<le> max_duration"
  using assms by (simp_all add: applyDefaults_def Let_def max_duration_def)

lemma LoadConfig_reads:
  assumes "LoadConfig dec p w = (Inr cfg, w')"
  shows "same_files w w'" "\<exists>b. file_at w p = Some b \<and> ParseConfig dec b = Inr cfg"
  using assms ReadFile_reads [of p w] by (auto simp: LoadConfig_def split: prod.splits sum.splits)

end
