(* ===== verification/Push.thy ===== *)
theory Push
  imports Config Go_Path
begin

text \<open>
  Upload of a bundle to a portal (\<open>internal/push/push.go\<close>). What the code takes from the network
  and archive packages of the Go library and from the process's environment is one record of
  parameters; the requests an upload sends are part of its result. \<open>strings.TrimSpace\<close> is modelled.
\<close>

section \<open>White space\<close>

text \<open>The UTF-8 text of the code points that are white space.\<close>

definition space_runes :: "bytes list" where
  "space_runes = map (\<lambda>n. [byte n]) [9, 10, 11, 12, 13, 32]
     @ [[byte 0xC2, byte 0x85], [byte 0xC2, byte 0xA0], [byte 0xE1, byte 0x9A, byte 0x80]]
     @ map (\<lambda>n. [byte 0xE2, byte 0x80, byte n]) [0x80, 0x81, 0x82, 0x83, 0x84, 0x85, 0x86, 0x87, 0x88, 0x89, 0x8A, 0xA8, 0xA9, 0xAF]
     @ [[byte 0xE2, byte 0x81, byte 0x9F], [byte 0xE3, byte 0x80, byte 0x80]]"

function trim_front :: "bytes list \<Rightarrow> string \<Rightarrow> string" where
  "trim_front ps s = (case find (\<lambda>p. p \<noteq> [] \<and> take (length p) s = p) ps of
     None \<Rightarrow> s | Some p \<Rightarrow> trim_front ps (drop (length p) s))"
  by pat_completeness auto
termination
proof (relation "measure (length \<circ> snd)")
  fix ps :: "bytes list" and s p :: bytes
  assume "find (\<lambda>p. p \<noteq> [] \<and> take (length p) s = p) ps = Some p"
  then have "p \<noteq> []" "take (length p) s = p" by (auto simp: find_Some_iff)
  then have "s \<noteq> []" by auto
  with \<open>p \<noteq> []\<close> show "((ps, drop (length p) s), ps, s) \<in> measure (length \<circ> snd)" by simp
qed simp

declare trim_front.simps [simp del]

lemma trim_front_stop: "\<forall>p\<in>set ps. p = [] \<or> hd p \<noteq> hd s \<Longrightarrow> s \<noteq> [] \<Longrightarrow> trim_front ps s = s"
proof -
  assume "\<forall>p\<in>set ps. p = [] \<or> hd p \<noteq> hd s" "s \<noteq> []"
  then have "\<forall>p\<in>set ps. \<not> (p \<noteq> [] \<and> take (length p) s = p)"
    by (metis hd_take length_greater_0_conv)
  then have "find (\<lambda>p. p \<noteq> [] \<and> take (length p) s = p) ps = None" by (simp add: find_None_iff)
  then show ?thesis by (simp add: trim_front.simps)
qed

definition TrimSpace :: "string \<Rightarrow> string" where
  "TrimSpace s = rev (trim_front (map rev space_runes) (rev (trim_front space_runes s)))"

section \<open>The pusher\<close>

record url =
  u_Scheme :: string
  u_Host :: string
  u_Hostname :: string

record request =
  rq_Endpoint :: string
  rq_Authorization :: string
  rq_Agent :: "string option"
  rq_Body :: bytes

text \<open>
  \<open>url.Parse\<close>, whether a text is the IP address of a loopback, \<open>AppendCertsFromPEM\<close>, the host's
  name, the environment, the tar and gzip writers, whether a request can be built for an endpoint,
  and what the server answers (a status and a body).
\<close>

record net =
  np_Parse :: "string \<Rightarrow> url result"
  np_LoopbackIP :: "string \<Rightarrow> bool"
  np_AppendCerts :: "bytes \<Rightarrow> bool"
  np_Hostname :: "string result"
  np_Getenv :: "string \<Rightarrow> string"
  np_TarGz :: "(string \<times> bytes) list \<Rightarrow> bytes result"
  np_NewRequest :: "string \<Rightarrow> error option"
  np_Do :: "request \<Rightarrow> (int \<times> bytes) result"

text \<open>\<open>pp_Roots\<close> is the private CA's text, if one is set.\<close>

record pusher =
  pp_Config :: push_config
  pp_Agent :: string
  pp_Roots :: "bytes option"

definition isLoopback :: "net \<Rightarrow> string \<Rightarrow> bool" where
  "isLoopback N host \<longleftrightarrow> host = ''localhost'' \<or> np_LoopbackIP N host"

definition push_agent :: "net \<Rightarrow> push_config \<Rightarrow> string" where
  "push_agent N cfg = (if pu_Agent cfg \<noteq> [] then pu_Agent cfg
     else case np_Hostname N of Inr host \<Rightarrow> host | Inl _ \<Rightarrow> [])"

definition check_push :: "net \<Rightarrow> push_config \<Rightarrow> error option" where
  "check_push N cfg = (case np_Parse N (pu_URL cfg) of
     Inl _ \<Rightarrow> Some (Errorf ''push: invalid url %q'' [Str (pu_URL cfg)] None)
   | Inr u \<Rightarrow>
       if u_Host u = [] then Some (Errorf ''push: invalid url %q'' [Str (pu_URL cfg)] None)
       else if u_Scheme u \<noteq> ''https'' \<and> \<not> isLoopback N (u_Hostname u)
         then Some (Errorf ''push: url must be https (plain http is allowed only for loopback)'' [] None)
       else if (pu_TokenEnv cfg = []) = (pu_TokenFile cfg = [])
         then Some (Errorf ''push: exactly one of tokenEnv or tokenFile must be set'' [] None)
       else None)"

definition push_New :: "net \<Rightarrow> push_config \<Rightarrow> os \<Rightarrow> pusher result \<times> os" where
  "push_New N cfg w = (case check_push N cfg of
     Some e \<Rightarrow> (Inl e, w)
   | None \<Rightarrow>
       if pu_CAFile cfg = [] then (Inr \<lparr>pp_Config = cfg, pp_Agent = push_agent N cfg, pp_Roots = None\<rparr>, w)
       else (case os_ReadFile (pu_CAFile cfg) w of
         (Inl e, w1) \<Rightarrow> (Inl (Errorf ''push: read caFile: %w'' [] (Some e)), w1)
       | (Inr pem, w1) \<Rightarrow>
           if \<not> np_AppendCerts N pem
           then (Inl (Errorf ''push: caFile %s contains no certificates'' [Str (pu_CAFile cfg)] None), w1)
           else (Inr \<lparr>pp_Config = cfg, pp_Agent = push_agent N cfg, pp_Roots = Some pem\<rparr>, w1)))"

definition push_token :: "net \<Rightarrow> pusher \<Rightarrow> os \<Rightarrow> string result \<times> os" where
  "push_token N p w =
     (let cfg = pp_Config p in
      if pu_TokenEnv cfg \<noteq> [] then
        (let t = TrimSpace (np_Getenv N (pu_TokenEnv cfg)) in
         ((if t = [] then Inl (Errorf ''push: environment variable %s is empty'' [Str (pu_TokenEnv cfg)] None) else Inr t), w))
      else (case os_ReadFile (pu_TokenFile cfg) w of
        (Inl e, w1) \<Rightarrow> (Inl (Errorf ''push: read token file: %w'' [] (Some e)), w1)
      | (Inr b, w1) \<Rightarrow>
          (let t = TrimSpace b in
           ((if t = [] then Inl (Errorf ''push: token file %s is empty'' [Str (pu_TokenFile cfg)] None) else Inr t), w1))))"

definition bundleFiles :: "string list" where
  "bundleFiles = [''evidence.json'', ''report.md'', ''manifest.json'']"

fun read_files :: "path \<Rightarrow> string list \<Rightarrow> os \<Rightarrow> (string \<times> bytes) list result \<times> os" where
  "read_files dir [] w = (Inr [], w)"
| "read_files dir (n # ns) w = (case os_ReadFile (filepath_Join dir n) w of
     (Inl e, w1) \<Rightarrow> (Inl (Errorf ''push: read %s: %w'' [Str n] (Some e)), w1)
   | (Inr b, w1) \<Rightarrow> (case read_files dir ns w1 of (r, w2) \<Rightarrow> (bindr r (\<lambda>fs. Inr ((n, b) # fs)), w2)))"

text \<open>The archive is made in memory, so its writers see the files as they are all read.\<close>

definition tarGzBundle :: "net \<Rightarrow> path \<Rightarrow> os \<Rightarrow> bytes result \<times> os" where
  "tarGzBundle N dir w = (case read_files dir bundleFiles w of (r, w1) \<Rightarrow> (bindr r (np_TarGz N), w1))"

definition push_endpoint :: "pusher \<Rightarrow> string" where
  "push_endpoint p = TrimSuffix (pu_URL (pp_Config p)) ''/'' @ ''/api/v1/bundles''"

definition pusher_Push :: "net \<Rightarrow> pusher \<Rightarrow> path \<Rightarrow> os \<Rightarrow> error option \<times> request list \<times> os" where
  "pusher_Push N p dir w = (case push_token N p w of
     (Inl e, w1) \<Rightarrow> (Some e, [], w1)
   | (Inr tok, w1) \<Rightarrow> (case tarGzBundle N dir w1 of
       (Inl e, w2) \<Rightarrow> (Some e, [], w2)
     | (Inr arch, w2) \<Rightarrow> (case np_NewRequest N (push_endpoint p) of
         Some e \<Rightarrow> (Some (Errorf ''push: build request: %w'' [] (Some e)), [], w2)
       | None \<Rightarrow>
           (let rq = \<lparr>rq_Endpoint = push_endpoint p, rq_Authorization = ''Bearer '' @ tok,
                  rq_Agent = (if pp_Agent p = [] then None else Some (pp_Agent p)), rq_Body = arch\<rparr>
            in ((case np_Do N rq of
                  Inl e \<Rightarrow> Some (Errorf ''push %s: %w'' [Str (push_endpoint p)] (Some e))
                | Inr (status, body) \<Rightarrow>
                    if status \<noteq> 201 then Some (Errorf ''push %s: portal responded %d: %s''
                      [Str (push_endpoint p), Num status, Str (TrimSpace (take 4096 body))] None)
                    else None), [rq], w2)))))"

section \<open>What is sent, and where\<close>

lemma push_New_ok:
  assumes "push_New N cfg w = (Inr p, w')"
  shows "pp_Config p = cfg" "pp_Agent p = push_agent N cfg" "check_push N cfg = None"
  using assms by (auto simp: push_New_def split: option.splits if_splits prod.splits sum.splits)

lemma check_push_ok:
  assumes "check_push N cfg = None"
  obtains u where "np_Parse N (pu_URL cfg) = Inr u" "u_Host u \<noteq> []"
    "u_Scheme u = ''https'' \<or> isLoopback N (u_Hostname u)" "(pu_TokenEnv cfg = []) \<noteq> (pu_TokenFile cfg = [])"
  using assms by (auto simp: check_push_def split: sum.splits if_splits)

text \<open>At most one request, to the configured URL, with a token; none on an earlier error.\<close>

lemma pusher_Push_requests:
  assumes "pusher_Push N p dir w = (err, rqs, w')" "rq \<in> set rqs"
  shows "rqs = [rq]" "rq_Endpoint rq = push_endpoint p" "\<exists>tok. tok \<noteq> [] \<and> rq_Authorization rq = ''Bearer '' @ tok"
    "\<exists>fs. map fst fs = bundleFiles \<and> np_TarGz N fs = Inr (rq_Body rq)"
proof -
  obtain tok w1 where tok: "push_token N p w = (Inr tok, w1)"
    using assms by (auto simp: pusher_Push_def split: prod.splits sum.splits)
  obtain r w2 where arch: "tarGzBundle N dir w1 = (r, w2)" by fastforce
  obtain body where body: "r = Inr body"
    using assms tok arch by (cases r) (auto simp: pusher_Push_def)
  have rq: "rqs = [rq] \<and> rq_Endpoint rq = push_endpoint p \<and> rq_Authorization rq = ''Bearer '' @ tok \<and> rq_Body rq = body"
    using assms tok arch body by (auto simp: pusher_Push_def Let_def split: option.splits)
  then show "rqs = [rq]" "rq_Endpoint rq = push_endpoint p" by simp_all
  have "tok \<noteq> []" using tok by (auto simp: push_token_def Let_def split: if_splits prod.splits sum.splits)
  with rq show "\<exists>tok. tok \<noteq> [] \<and> rq_Authorization rq = ''Bearer '' @ tok" by blast
  have names: "read_files d ns v = (Inr fs, v') \<Longrightarrow> map fst fs = ns" for d ns v v' fs
    by (induction ns arbitrary: v fs) (auto simp: bindr_eq_Inr split: prod.splits sum.splits)
  show "\<exists>fs. map fst fs = bundleFiles \<and> np_TarGz N fs = Inr (rq_Body rq)"
    using arch body rq by (auto simp: tarGzBundle_def bindr_eq_Inr split: prod.splits dest!: names)
qed

lemma pusher_Push_created:
  "pusher_Push N p dir w = (None, rqs, w') \<Longrightarrow> \<exists>rq body. rqs = [rq] \<and> np_Do N rq = Inr (201, body)"
  by (auto simp: pusher_Push_def Let_def split: prod.splits sum.splits option.splits if_splits)

text \<open>With a loopback address the scheme is not looked at.\<close>

lemma check_push_any_scheme:
  assumes "np_Parse N (pu_URL cfg) = Inr u" "u_Host u \<noteq> []" "isLoopback N (u_Hostname u)"
    "(pu_TokenEnv cfg = []) \<noteq> (pu_TokenFile cfg = [])"
  shows "check_push N cfg = None"
  using assms by (simp add: check_push_def)

text \<open>The archive holds the bundle's files as they are.\<close>

lemma push_New_reads: "push_New N cfg w = (x, w') \<Longrightarrow> same_files w w'"
  by (auto simp: push_New_def split: option.splits if_splits prod.splits sum.splits dest: ReadFile_reads(1))

lemma push_token_reads: "push_token N p w = (x, w') \<Longrightarrow> same_files w w'"
  by (auto simp: push_token_def Let_def split: if_splits prod.splits sum.splits dest: ReadFile_reads(1))

lemma read_files_reads:
  "read_files dir ns w = (Inr fs, w') \<Longrightarrow> map fst fs = ns \<and> (\<forall>(n, b)\<in>set fs. file_at w (filepath_Join dir n) = Some b)"
proof (induction ns arbitrary: w w' fs)
  case (Cons n ns)
  obtain b w1 where r: "os_ReadFile (filepath_Join dir n) w = (Inr b, w1)"
    using Cons.prems by (auto split: prod.splits sum.splits)
  obtain gs w2 where g: "read_files dir ns w1 = (Inr gs, w2)" "fs = (n, b) # gs"
    using Cons.prems r by (auto simp: bindr_eq_Inr split: prod.splits)
  from Cons.IH [OF g(1)] g(2) ReadFile_reads [OF r] same_files_at show ?case by fastforce
qed simp

lemma pusher_Push_archive:
  assumes "pusher_Push N p dir w = (err, rqs, w')" "rq \<in> set rqs"
  shows "\<exists>fs. map fst fs = bundleFiles \<and> (\<forall>(n, b)\<in>set fs. file_at w (filepath_Join dir n) = Some b) \<and> np_TarGz N fs = Inr (rq_Body rq)"
proof -
  obtain tok w1 where tok: "push_token N p w = (Inr tok, w1)"
    using assms by (auto simp: pusher_Push_def split: prod.splits sum.splits)
  obtain r w2 where fs: "read_files dir bundleFiles w1 = (r, w2)" by fastforce
  obtain body where body: "bindr r (np_TarGz N) = Inr body"
    using assms tok fs by (cases "bindr r (np_TarGz N)") (auto simp: pusher_Push_def tarGzBundle_def)
  then obtain gs where gs: "r = Inr gs" "np_TarGz N gs = Inr body" by (auto simp: bindr_eq_Inr)
  have "rq_Body rq = body" using assms tok fs body by (auto simp: pusher_Push_def tarGzBundle_def Let_def split: option.splits)
  with gs read_files_reads [of dir bundleFiles w1 gs w2] fs same_files_at [OF push_token_reads [OF tok]]
  show ?thesis by auto
qed

end
