(* ===== verification/Wiring.thy ===== *)
theory Wiring
  imports Cert_Lifecycle Rbac_Posture Provenance Tls_Scan Scheduler Export_Check Push
begin

text \<open>
  The engine and how it is assembled from a configuration (\<open>internal/shells/wiring/wiring.go\<close>,
  \<open>kube.go\<close>): collectors by the factories of their names, the mapping, the store, the signing key,
  and the upload. Every shell goes through it.
\<close>

section \<open>Factories\<close>

text \<open>What the collectors of an engine see at a moment.\<close>

record env =
  en_cert :: cert_env
  en_rbac :: rbac_env
  en_prov :: prov_env
  en_tls :: tls_env

definition lift_collector :: "(env \<Rightarrow> 'e) \<Rightarrow> 'e collector \<Rightarrow> env collector" where
  "lift_collector part c = \<lparr>col_ID = col_ID c, col_Version = col_Version c, col_Description = col_Description c,
     col_RequiredAccess = col_RequiredAccess c, col_Collect = (\<lambda>e. col_Collect c (part e))\<rparr>"

text \<open>The decoders of the settings, and what the collectors take from the libraries.\<close>

record 'y platform =
  pf_cert :: "'y \<Rightarrow> cert_config result"
  pf_rbac :: "'y \<Rightarrow> unit result"
  pf_prov :: "'y \<Rightarrow> prov_config result"
  pf_tls :: "'y \<Rightarrow> tls_config result"
  pf_accessors :: accessors
  pf_lower :: "bytes \<Rightarrow> bytes"

type_synonym 'y factory = "'y collector_config \<Rightarrow> env collector result"

type_synonym 'y factories = "(string \<times> 'y factory) list"

definition builtin :: "'y platform \<Rightarrow> 'y factories" where
  "builtin P = [(''tlsscan'', \<lambda>cc.
     bindr (DecodeSettings (pf_tls P) \<lparr>tc_Endpoints = [], tc_Timeout = 0\<rparr> cc) (\<lambda>tcfg.
     bindr (tls_New tcfg) (\<lambda>c. Inr (lift_collector en_tls (tls_collector c)))))]"

definition kube_factories :: "'y platform \<Rightarrow> 'y factories" where
  "kube_factories P =
     [(''certlifecycle'', \<lambda>cc. bindr (DecodeSettings (pf_cert P) \<lparr>cc_Namespaces = []\<rparr> cc) (\<lambda>cfg.
         Inr (lift_collector en_cert (cert_collector (pf_accessors P) cfg)))),
      (''provenance'', \<lambda>cc. bindr (DecodeSettings (pf_prov P) \<lparr>pc_Namespaces = []\<rparr> cc) (\<lambda>cfg.
         Inr (lift_collector en_prov (prov_collector (pf_lower P) cfg)))),
      (''rbacposture'', \<lambda>cc. bindr (DecodeSettings (pf_rbac P) () cc) (\<lambda>cfg.
         Inr (lift_collector en_rbac rbac_collector)))]"

text \<open>The two clients of the cluster, each built or not.\<close>

definition KubeFactories :: "('r \<Rightarrow> unit result) \<Rightarrow> ('r \<Rightarrow> unit result) \<Rightarrow> 'y platform \<Rightarrow> 'r \<Rightarrow> 'y factories result" where
  "KubeFactories clientset dyn P rest =
     bindr (wrap ''build kubernetes client: %w'' [] (clientset rest)) (\<lambda>_.
     bindr (wrap ''build dynamic client: %w'' [] (dyn rest)) (\<lambda>_. Inr (kube_factories P)))"

definition ResolveKubeFactories ::
  "('r \<Rightarrow> unit result) \<Rightarrow> ('r \<Rightarrow> unit result) \<Rightarrow> 'y platform \<Rightarrow> 'r result \<Rightarrow> 'r result \<Rightarrow> 'y factories result" where
  "ResolveKubeFactories clientset dyn P kubeconfig incluster = (case kubeconfig of
     Inr rest \<Rightarrow> KubeFactories clientset dyn P rest
   | Inl _ \<Rightarrow> (case incluster of Inr rest \<Rightarrow> KubeFactories clientset dyn P rest | Inl _ \<Rightarrow> Inr []))"

section \<open>The engine\<close>

text \<open>The store's state is threaded through the operations, so it is no field here.\<close>

record ('y, 'k) engine =
  eg_Config :: "'y config"
  eg_Scheduler :: "(file_state, env) scheduler"
  eg_Exporter :: "'k exporter"
  eg_Pusher :: "pusher option"

text \<open>What an engine takes from the libraries and the machine.\<close>

record ('y, 'k) libs =
  lb_digest :: digest
  lb_keys :: "'k key_lib"
  lb_net :: net
  lb_walks :: walks
  lb_clock :: clock
  lb_platform :: "'y platform"

fun register_collectors ::
  "'y factories \<Rightarrow> (string \<times> 'y collector_config) list \<Rightarrow> env registry \<Rightarrow> env registry result" where
  "register_collectors fs [] g = Inr g"
| "register_collectors fs ((k, cc) # ccs) g =
     (if \<not> cl_Enabled cc then register_collectors fs ccs g
      else case map_of fs k of
        None \<Rightarrow> Inl (Errorf ''collector %q is enabled but not available in this shell'' [Str k] None)
      | Some f \<Rightarrow> (case f cc of
          Inl e \<Rightarrow> Inl (Errorf ''configure collector %q: %w'' [Str k] (Some e))
        | Inr c \<Rightarrow> (case Register c g of
            (Some e, _) \<Rightarrow> Inl e | (None, g') \<Rightarrow> register_collectors fs ccs g')))"

text \<open>\<open>dora.Load\<close>: the embedded file, whose decoded form is \<open>dora\<close>.\<close>

definition dora_Load :: "mapping result" where
  "dora_Load = Load (\<lambda>_. Inr dora) []"

definition push_part :: "net \<Rightarrow> push_config \<Rightarrow> os \<Rightarrow> pusher option result \<times> os" where
  "push_part N cfg w =
     (if Push_Enabled cfg
      then (case push_New N cfg w of (Inl e, w1) \<Rightarrow> (Inl e, w1) | (Inr p, w1) \<Rightarrow> (Inr (Some p), w1))
      else (Inr None, w))"

definition Build ::
  "('y, 'k) libs \<Rightarrow> 'y config \<Rightarrow> 'y factories \<Rightarrow> os \<Rightarrow> (('y, 'k) engine \<times> file_store) result \<times> os" where
  "Build B cfg extra w =
     (let factories = extra @ builtin (lb_platform B) in
      case register_collectors factories (cf_Collectors cfg) NewRegistry of
        Inl e \<Rightarrow> (Inl e, w)
      | Inr reg \<Rightarrow> (case wrap ''load DORA mapping: %w'' [] dora_Load of
          Inl e \<Rightarrow> (Inl e, w)
        | Inr mp \<Rightarrow> (case OpenFileStore (lb_digest B) (cf_StorePath cfg) w of
            (Inl e, w1) \<Rightarrow> (Inl e, w1)
          | (Inr s, w1) \<Rightarrow> (case loadOrCreateKey (lb_keys B) (cf_KeyPath cfg) w1 of
              (Inl e, w2) \<Rightarrow> (case Close s w2 of (_, _, w3) \<Rightarrow> (Inl e, w3))
            | (Inr key, w2) \<Rightarrow> (case push_part (lb_net B) (cf_Push cfg) w2 of
                (Inl e, w3) \<Rightarrow> (case Close s w3 of (_, _, w4) \<Rightarrow> (Inl e, w4))
              | (Inr pusher, w3) \<Rightarrow>
                  (Inr (\<lparr>eg_Config = cfg,
                     eg_Scheduler = \<lparr>Registry = reg, Store = file_store_ops (lb_digest B), Mapping = Some mp,
                       RotateAfter = cf_StoreRotateAfter cfg, Clock = lb_clock B\<rparr>,
                     eg_Exporter = \<lparr>ex_Mapping = Some mp, ex_Key = key\<rparr>, eg_Pusher = pusher\<rparr>, s), w3))))))"

definition engine_Close :: "file_store \<Rightarrow> os \<Rightarrow> error option \<times> file_store \<times> os" where
  "engine_Close s w = Close s w"

text \<open>The bundle's directory (empty if there is none), the error, and the requests sent.\<close>

definition ExportAndPush ::
  "('y, 'k) libs \<Rightarrow> ('y, 'k) engine \<Rightarrow> gotime \<Rightarrow> file_store \<Rightarrow> os \<Rightarrow> path \<times> error option \<times> request list \<times> os" where
  "ExportAndPush B e now s w =
     (case Export (lb_digest B) (lb_keys B) (lb_walks B) (eg_Exporter e) now (cf_ExportDir (eg_Config e)) s w of
        (Inl err, w1) \<Rightarrow> ([], Some err, [], w1)
      | (Inr dir, w1) \<Rightarrow> (case eg_Pusher e of
          None \<Rightarrow> (dir, None, [], w1)
        | Some p \<Rightarrow> (case pusher_Push (lb_net B) p dir w1 of
            (Some err, rqs, w2) \<Rightarrow> (dir, Some (Errorf ''bundle exported to %s but upload failed: %w'' [Str dir] (Some err)), rqs, w2)
          | (None, rqs, w2) \<Rightarrow> (dir, None, rqs, w2))))"

section \<open>The registry of an engine\<close>

text \<open>A factory makes a collector of its own name.\<close>

definition names_kept :: "'y factories \<Rightarrow> bool" where
  "names_kept fs \<longleftrightarrow> (\<forall>(k, f)\<in>set fs. \<forall>cc c. f cc = Inr c \<longrightarrow> col_ID c = k)"

lemma standard_names: "names_kept (builtin P)" "names_kept (kube_factories P)"
  by (auto simp: names_kept_def builtin_def kube_factories_def lift_collector_def bindr_eq_Inr cert_collector_def
      prov_collector_def rbac_collector_def tls_collector_def cert_collectorID_def prov_collectorID_def
      rbac_collectorID_def tls_collectorID_def)

lemma names_kept_append: "names_kept (fs @ gs) \<longleftrightarrow> names_kept fs \<and> names_kept gs"
  by (simp add: names_kept_def ball_Un)

definition enabled_names :: "(string \<times> 'y collector_config) list \<Rightarrow> string list" where
  "enabled_names ccs = map fst (filter (cl_Enabled \<circ> snd) ccs)"

lemma register_collectors_names:
  assumes "register_collectors fs ccs g = Inr g'" "registry_ok g" "names_kept fs"
  shows "registry_ok g' \<and> set (keys (collectors g')) = set (keys (collectors g)) \<union> set (enabled_names ccs)"
  using assms
proof (induction ccs arbitrary: g)
  case (Cons x ccs)
  obtain k cc where x: "x = (k, cc)" by fastforce
  show ?case
  proof (cases "cl_Enabled cc")
    case True
    with Cons.prems(1) x obtain f c g1 where f: "map_of fs k = Some f" "f cc = Inr c"
      and r: "Register c g = (None, g1)" "register_collectors fs ccs g1 = Inr g'"
      by (auto split: option.splits sum.splits prod.splits)
    have "(k, f) \<in> set fs" using f(1) by (rule map_of_SomeD)
    then have k: "col_ID c = k" using Cons.prems(3) f(2) by (auto simp: names_kept_def)
    have ok: "registry_ok g1" using Register_ok [OF Cons.prems(2), of c] r(1) by simp
    have "collectors g1 = put k c (collectors g)" using r(1) k by (auto simp: Register_def split: if_splits)
    with Cons.IH [OF r(2) ok Cons.prems(3)] x True show ?thesis by (auto simp: enabled_names_def)
  next
    case False
    with Cons x show ?thesis by (simp add: enabled_names_def)
  qed
qed (simp add: enabled_names_def)

lemma strict_sorted_eq: "sorted_wrt (<) xs \<Longrightarrow> sorted_wrt (<) ys \<Longrightarrow> set xs = set ys \<Longrightarrow> xs = (ys :: 'a::linorder list)"
  using strict_sorted_equal by blast

text \<open>The engine runs exactly the enabled collectors, in the order of their names.\<close>

lemma Build_registry:
  assumes "Build B cfg extra w = (Inr (e, s), w')" "names_kept extra"
  shows "map col_ID (registry_All (Registry (eg_Scheduler e))) = sorted_list_of_set (set (enabled_names (cf_Collectors cfg)))"
    "eg_Config e = cfg"
proof -
  obtain reg where reg: "register_collectors (extra @ builtin (lb_platform B)) (cf_Collectors cfg) NewRegistry = Inr reg"
    and e: "Registry (eg_Scheduler e) = reg" "eg_Config e = cfg"
    using assms(1) by (auto simp: Build_def Let_def split: sum.splits prod.splits)
  have r: "registry_ok reg \<and> set (keys (collectors reg)) = set (enabled_names (cf_Collectors cfg))"
    using register_collectors_names [OF reg] assms(2) by (simp add: names_kept_append standard_names) (simp add: NewRegistry_def)
  then have "map col_ID (registry_All reg) = keys (collectors reg)"
    using registry_All_order(1) registry_values by metis
  moreover have "keys (collectors reg) = sorted_list_of_set (set (enabled_names (cf_Collectors cfg)))"
    using r by (intro strict_sorted_eq) (auto simp: registry_ok_def ordered_def)
  ultimately show "map col_ID (registry_All (Registry (eg_Scheduler e))) = sorted_list_of_set (set (enabled_names (cf_Collectors cfg)))"
    using e(1) by simp
  show "eg_Config e = cfg" by (rule e(2))
qed

text \<open>An unknown collector stops the build before any file is looked at.\<close>

lemma register_unknown:
  "(k, cc) \<in> set ccs \<Longrightarrow> cl_Enabled cc \<Longrightarrow> map_of fs k = None \<Longrightarrow> \<exists>e. register_collectors fs ccs g = Inl e"
  by (induction ccs arbitrary: g) (auto split: option.split sum.split prod.split)

lemma Build_unknown:
  assumes "(k, cc) \<in> set (cf_Collectors cfg)" "cl_Enabled cc" "map_of (extra @ builtin (lb_platform B)) k = None"
  shows "\<exists>e. Build B cfg extra w = (Inl e, w)"
  using register_unknown [OF assms, of NewRegistry] by (auto simp: Build_def Let_def)

text \<open>What a shell passes: the collectors of the cluster, or none when there is no cluster.\<close>

lemma shell_factories:
  "ResolveKubeFactories clientset dyn P kubeconfig incluster = Inr fs \<Longrightarrow> fs = kube_factories P \<or> fs = []"
  "KubeFactories clientset dyn P rest = Inr fs \<Longrightarrow> fs = kube_factories P"
  by (auto simp: ResolveKubeFactories_def KubeFactories_def bindr_eq_Inr split: sum.splits)

lemma shell_names:
  assumes "ResolveKubeFactories clientset dyn P kubeconfig incluster = Inr fs \<or> KubeFactories clientset dyn P rest = Inr fs"
  shows "names_kept fs"
  using assms shell_factories [of clientset dyn P] standard_names(2) [of P] by (fastforce simp: names_kept_def)

text \<open>A build that succeeds knew every enabled collector.\<close>

lemma Build_known:
  assumes "Build B cfg extra w = (Inr es, w')"
  shows "set (enabled_names (cf_Collectors cfg)) \<subseteq> fst ` set (extra @ builtin (lb_platform B))"
proof
  fix k assume "k \<in> set (enabled_names (cf_Collectors cfg))"
  then obtain cc where k: "(k, cc) \<in> set (cf_Collectors cfg)" "cl_Enabled cc" by (auto simp: enabled_names_def)
  have "map_of (extra @ builtin (lb_platform B)) k \<noteq> None"
  proof
    assume "map_of (extra @ builtin (lb_platform B)) k = None"
    from Build_unknown [OF k this, of w] assms show False by simp
  qed
  then show "k \<in> fst ` set (extra @ builtin (lb_platform B))" by (simp only: map_of_eq_None_iff not_not)
qed

section \<open>Placeholders\<close>

text \<open>
  The two reserved collectors only have a constructor that fails
  (\<open>internal/collectors/cloudconfig\<close>, \<open>hostposture\<close>). No shell has a factory for them, so a
  configuration that names one gets the error of an unknown collector, not theirs.
\<close>

definition cloudconfig_New :: "'c result" where
  "cloudconfig_New = Inl (External ''cloudconfig collector is not implemented (out of MVP scope)'')"

definition hostposture_New :: "'c result" where
  "hostposture_New = Inl (External ''hostposture collector is not implemented (out of MVP scope)'')"

lemma placeholders_not_offered:
  assumes "k \<in> {''cloudconfig'', ''hostposture''}" "cf_Collectors cfg = [(k, cc)]" "cl_Enabled cc"
  shows "Build B cfg (kube_factories P) w =
    (Inl (Errorf ''collector %q is enabled but not available in this shell'' [Str k] None), w)"
  using assms by (auto simp: Build_def Let_def kube_factories_def builtin_def)

section \<open>The contract of every factory\<close>

text \<open>Whatever collector a factory makes, its records are its own and count towards a control of DORA.\<close>

lemma lift_contract: "collector_contract c types \<Longrightarrow> collector_contract (lift_collector part c) types"
  by (simp add: collector_contract_def lift_collector_def)

lemma standard_contract:
  assumes "(k, f) \<in> set (kube_factories P @ builtin P)" "f cc = Inr c"
  obtains types where "collector_contract c types" "covers dora k types" "col_ID c = k"
proof -
  note parts = certlifecycle.collector_contract_axioms rbacposture.collector_contract_axioms
    provenance.collector_contract_axioms tlsscan.collector_contract_axioms
  have "covers dora ''certlifecycle'' cert_types" "covers dora ''rbacposture'' rbac_types"
    "covers dora ''provenance'' prov_types" "covers dora ''tlsscan'' tls_types"
    by code_simp+
  moreover have "col_ID c = k"
    using assms standard_names [of P] by (auto simp: names_kept_def)
  moreover have "\<exists>types. collector_contract c types \<and> covers dora k types"
    using assms calculation parts
    by (auto simp: kube_factories_def builtin_def bindr_eq_Inr) (blast intro: lift_contract)+
  ultimately show thesis using that by blast
qed

lemma standard_records:
  assumes "(k, f) \<in> set (kube_factories P @ builtin P)" "f cc = Inr c" "col_Collect c env = Inr rs" "r \<in> set rs"
  shows "CollectorID r = k" "ControlIDs (Apply dora r) \<noteq> []"
    "Outcome r = OutcomeObserved \<and> Error r = [] \<and> Observation r \<noteq> [] \<and> obs_ok (Observation r)
     \<or> Outcome r = OutcomeFailed \<and> Error r \<noteq> [] \<and> Observation r = []"
proof -
  obtain types where t: "collector_contract c types" "covers dora k types" "col_ID c = k"
    using standard_contract [OF assms(1,2)] .
  have "collected_by k (col_Version c) types r"
    using collector_contract.collects [OF t(1) assms(3,4)] t(3) by simp
  then show "CollectorID r = k" "Outcome r = OutcomeObserved \<and> Error r = [] \<and> Observation r \<noteq> [] \<and> obs_ok (Observation r)
     \<or> Outcome r = OutcomeFailed \<and> Error r \<noteq> [] \<and> Observation r = []"
    by (auto simp: collected_by_def)
  show "ControlIDs (Apply dora r) \<noteq> []"
    using collector_contract.covered [OF t(1) _ assms(3,4)] t(2,3) by simp
qed

text \<open>What the collectors declare to need: to read from the cluster, or to connect.\<close>

lemma standard_access:
  assumes "(k, f) \<in> set (kube_factories P @ builtin P)" "f cc = Inr c" "a \<in> set (col_RequiredAccess c)"
  shows "arSystem a = ''kubernetes'' \<and> arAccess a = ''get,list,watch'' \<or> arSystem a = ''network'' \<and> arAccess a = ''outbound TCP connect''"
  using assms
  by (auto simp: kube_factories_def builtin_def bindr_eq_Inr lift_collector_def cert_collector_def rbac_collector_def
      prov_collector_def tls_collector_def cert_access_def rbac_access_def prov_access_def tls_access_def)

section \<open>The store of an engine\<close>

lemma dora_Load_ok: "\<exists>m. dora_Load = Inr m" "dora_Load = Inr m \<Longrightarrow> framework m = ''DORA'' \<and> rules m = dora_rules"
proof -
  show "\<exists>m. dora_Load = Inr m" using validate_ok [of dora] dora_valid by (simp add: dora_Load_def Load_def)
  assume "dora_Load = Inr m"
  then have "validate dora = Inr m" by (simp add: dora_Load_def Load_def)
  then have "framework m = framework dora \<and> rules m = rules dora"
    by (auto simp: validate_def bindr_eq_Inr split: if_splits option.splits)
  then show "framework m = ''DORA'' \<and> rules m = dora_rules" by (simp add: dora_def)
qed

lemma Build_scheduler:
  assumes "Build B cfg extra w = (Inr (e, s), w')"
  shows "Store (eg_Scheduler e) = file_store_ops (lb_digest B)" "RotateAfter (eg_Scheduler e) = cf_StoreRotateAfter cfg"
    "Clock (eg_Scheduler e) = lb_clock B" "ex_Mapping (eg_Exporter e) = Mapping (eg_Scheduler e)"
    "\<exists>m. Mapping (eg_Scheduler e) = Some m \<and> framework m = ''DORA'' \<and> rules m = dora_rules"
  using assms dora_Load_ok(2) by (auto simp: Build_def Let_def split: sum.splits prod.splits)

end
