(* ===== verification/Engine_Cycle.thy ===== *)
theory Engine_Cycle
  imports Wiring Store_Faults
begin

text \<open>
  The components together: an engine built over an intact store runs a cycle and exports it, and
  the bundle gives back what the store held and what the cycle recorded.
\<close>

section \<open>Depth to spare\<close>

text \<open>An observation that leaves room for the record and the header around it.\<close>

definition shallow :: "evidence_record \<Rightarrow> bool" where
  "shallow r \<longleftrightarrow> Observation r = [] \<or>
     (\<exists>v. Observation r = render v \<and> wf_json v \<and> html_safe v \<and> depth v \<le> 9997)"

lemma shallow_stored: "stored_as r r' \<Longrightarrow> shallow r' \<longleftrightarrow> shallow r"
  by (auto simp: stored_as_def shallow_def)

lemma stored_shallow: "list_all2 stored_as ps rs \<Longrightarrow> \<forall>r\<in>set ps. shallow r \<Longrightarrow> \<forall>r\<in>set rs. shallow r"
  by (induction rule: list_all2_induct) (auto simp: shallow_stored)

lemma record_tree_depth:
  assumes "record_tree r = Inr t" "shallow r"
  shows "depth t \<le> 9998"
proof -
  obtain ct v where t: "t = JObj (record_fields r ct v)" "depth v \<le> 9997"
  proof (cases "Observation r = []")
    case True
    with assms(1) that [of _ "JLit ''null''"] show thesis by (auto simp: record_tree_def split: option.splits)
  next
    case False
    then obtain v where v: "Observation r = render v" "wf_json v" "html_safe v" "depth v \<le> 9997"
      using assms(2) by (auto simp: shallow_def)
    with False assms(1) that [of _ v] show thesis
      by (auto simp: record_tree_def compact_render split: option.splits)
  qed
  have "depth (snd kv) \<le> 9997" if "kv \<in> set (record_fields r ct v)" for kv
    using t(2) target_json_facts(2) [of "Target r" 9995] that
    by (auto simp: record_fields_def field_def field_unless_def fold_max_le split: if_splits)
  then show ?thesis using t(1) depth_le(2) [of _ 9997] by (simp del: depth.simps depth_le)
qed

lemma record_trees_depth:
  "record_trees rs = Inr ts \<Longrightarrow> \<forall>r\<in>set rs. shallow r \<Longrightarrow> \<forall>t\<in>set ts. depth t \<le> 9998"
  by (induction rs arbitrary: ts) (auto simp: bindr_eq_Inr dest: record_tree_depth)

lemma header_depth:
  assumes "header_tree h = Inr t" "\<forall>r\<in>set (hd_Records h). shallow r"
  shows "depth t \<le> 10000"
proof -
  from assms(1) obtain ct ts where ts: "record_trees (hd_Records h) = Inr ts"
    and t: "t = JObj (field ''tool'' (jstr (hd_Tool h)) @ field ''framework'' (jstr (hd_Framework h)) @
       field ''generatedAt'' (JStr ct) @ field ''recordCount'' (JLit (dec_int (hd_RecordCount h))) @
       field ''records'' (if ts = [] then null_json else JArr ts))"
    by (auto simp: header_tree_def bindr_eq_Inr split: option.splits)
  have "depth (JArr ts) \<le> 9999"
    using record_trees_depth [OF ts assms(2)] depth_le(1) [of ts 9998] by (simp del: depth.simps depth_le)
  then have "depth (snd kv) \<le> 9999" if "kv \<in> set (field ''tool'' (jstr (hd_Tool h)) @ field ''framework'' (jstr (hd_Framework h)) @
       field ''generatedAt'' (JStr ct) @ field ''recordCount'' (JLit (dec_int (hd_RecordCount h))) @
       field ''records'' (if ts = [] then null_json else JArr ts))" for kv
    using that by (auto simp: field_def null_json_def simp del: depth.simps(3) split: if_splits)
  then show ?thesis unfolding t using depth_le(2) [of _ 9999] by (simp del: depth.simps depth_le)
qed

section \<open>Building over an intact store\<close>

lemma Build_ok:
  assumes w: "calm w" "os_ok w" and st: "stored_at w (cf_StorePath cfg) rs" "intact (lb_digest B) rs"
    and reg: "register_collectors (extra @ builtin (lb_platform B)) (cf_Collectors cfg) NewRegistry = Inr reg"
    and plain: "cf_KeyPath cfg = []" "\<not> Push_Enabled (cf_Push cfg)"
  shows "\<exists>e s w'. Build B cfg extra w = (Inr (e, s), w') \<and> calm w' \<and> store_ok (lb_digest B) s w' rs
    \<and> spath s = cf_StorePath cfg \<and> eg_Pusher e = None \<and> ex_Key (eg_Exporter e) = None"
proof -
  obtain s w' where o: "OpenFileStore (lb_digest B) (cf_StorePath cfg) w = (Inr s, w')" "calm w'"
      "store_ok (lb_digest B) s w' rs" "spath s = cf_StorePath cfg"
    using OpenFileStore_intact [OF w st] by blast
  obtain m where m: "dora_Load = Inr m" using dora_Load_ok(1) by blast
  have "Build B cfg extra w = (Inr (\<lparr>eg_Config = cfg, eg_Scheduler = \<lparr>Registry = reg,
      Store = file_store_ops (lb_digest B), Mapping = Some m, RotateAfter = cf_StoreRotateAfter cfg,
      Clock = lb_clock B\<rparr>, eg_Exporter = \<lparr>ex_Mapping = Some m, ex_Key = None\<rparr>, eg_Pusher = None\<rparr>, s), w')"
    unfolding Build_def Let_def reg sum.case m wrap_simps o(1) prod.case
    using plain by (simp add: loadOrCreateKey_def push_part_def)
  with o(2-4) show ?thesis by auto
qed

section \<open>The names a cycle touches\<close>

lemma append_records_names:
  assumes "append_records (file_store_ops H) clk m k rs (s, w) n = (e, (s', w'), n')"
  shows "names w' = names w \<and> spath s' = spath s"
  using assms
proof (induction rs arbitrary: s w n)
  case (Cons r rs)
  obtain r1 n1 where p: "prepare clk m r n = (r1, n1)" by fastforce
  obtain e1 r2 s1 w1 where a: "Append H r1 s w = (e1, r2, s1, w1)" by (metis prod.collapse)
  then have "names w1 = names w \<and> spath s1 = spath s" using appendLocked_names by (simp add: Append_def)
  with Cons.IH [of s1 w1 n1] Cons.prems p file_ops_simps(1) [OF a] show ?case by (auto split: option.splits)
qed simp

lemma run_collectors_names:
  assumes "run_collectors (file_store_ops H) clk m env cs (s, w) n = (e, (s', w'), n')"
  shows "names w' = names w \<and> spath s' = spath s"
  using assms
proof (induction cs arbitrary: s w n)
  case (Cons c cs)
  obtain rs n1 where p: "collected clk env c n = (rs, n1)" by fastforce
  obtain e1 s1 w1 n2 where a: "append_records (file_store_ops H) clk m (col_ID c) rs (s, w) n1 = (e1, (s1, w1), n2)"
    by (metis prod.collapse)
  with Cons.IH [of s1 w1 n2] Cons.prems p append_records_names [OF a] show ?case by (auto split: option.splits)
qed simp

text \<open>A cycle names no file but the store's and the archive's, whatever fails.\<close>

lemma RunOnce_names:
  assumes "RunOnce sch env (s, w) n = (e, (s', w'), n')" "Store sch = file_store_ops H"
    "q \<noteq> spath s" "q \<noteq> archive_path (spath s) (Clock sch n)"
  shows "names w' q = names w q \<and> spath s' = spath s"
proof -
  obtain e1 s1 w1 n1 where r: "rotate_first sch (s, w) n = (e1, (s1, w1), n1)" by (metis prod.collapse)
  have "names w1 q = names w q \<and> spath s1 = spath s"
  proof (cases "RotateAfter sch > 0")
    case True
    obtain x s2 w2 where m: "MaybeRotate H (RotateAfter sch) (Clock sch n) s w = (x, s2, w2)" by (metis prod.collapse)
    then have "s1 = s2 \<and> w1 = w2"
      using r True assms(2) by (auto simp: rotate_first_def file_store_ops_def file_rotate_def split: sum.splits)
    with MaybeRotate_names [OF m assms(3,4)] show ?thesis by simp
  qed (use r in \<open>simp add: rotate_first_def\<close>)
  with r assms(1,2) show ?thesis
    by (auto simp: RunOnce_def split: option.splits dest!: run_collectors_names)
qed

lemma fresh_after_cycle:
  assumes "RunOnce sch env (s, w) n = (e, (s', w'), n')" "Store sch = file_store_ops H"
    "names w (spath s) \<noteq> None" "fresh_bundle w d"
    "\<forall>k\<in>set bundle_names. filepath_Join d k \<noteq> archive_path (spath s) (Clock sch n)"
  shows "fresh_bundle w' d"
  unfolding fresh_bundle_def
proof
  fix k assume k: "k \<in> set bundle_names"
  then have "names w (filepath_Join d k) = None" using assms(4) by (simp add: fresh_bundle_def)
  then show "names w' (filepath_Join d k) = None"
    using RunOnce_names [OF assms(1,2), of "filepath_Join d k"] assms(3,5) k by fastforce
qed

section \<open>A cycle and its export\<close>

lemma rotation_shallow: "shallow (rotation_record h n a now)"
proof -
  let ?t = "rotation_tree h n a"
  have k: "plain_key ''archivedTo''" "plain_key ''previousChainHead''" "plain_key ''previousChainRecords''"
    by (simp_all add: plain_key_def plain_char_def code_def)
  have "?t = JObj (field ''archivedTo'' (jstr (filepath_Base a)) @ field ''previousChainHead'' (jstr h) @
      field ''previousChainRecords'' (jint (int n)))"
    by (simp add: rotation_tree_def field_def jint_def dec_int_def)
  then have "enc 9997 ?t" using k enc_simps(7) [of 9996] by simp
  then show ?thesis
    by (auto simp: shallow_def rotation_record_def enc_def simp del: render.simps)
qed

lemma exportable_shallow:
  assumes "format_time now \<noteq> None" "60 dvd offset now" "valid_utf8 (frameworkName e)" "length rs < 2 ^ 63"
    "\<forall>r\<in>set rs. shallow r"
  shows "exportable e rs now"
  using assms by (auto simp: exportable_def export_header_def dest!: header_depth)

text \<open>
  After a cycle the export verifies and holds what was kept (all, or the rotation record alone) and
  one record for each the cycle made.
\<close>

lemma engine_cycle:
  assumes built: "Store sch = file_store_ops H" "RotateAfter sch > 0" and L: "key_lib_ok L" and W: "walks_ok W"
    and holds: "file_holds H (s, w) rs" and old: "\<forall>r\<in>set rs. shallow r"
    and rot: "room (file_rotation rs (Clock sch n) (s, w))"
    and cyc: "cycle_records (Clock sch) (Mapping sch) env (registry_All (Registry sch)) (Suc n) = (ps, n')"
      "\<forall>r\<in>set ps. room r \<and> shallow r"
    and now: "format_time now \<noteq> None" "60 dvd offset now" and fw: "valid_utf8 (frameworkName e)"
    and fresh: "fresh_bundle w (bundle_dir dir now)"
      "\<forall>k\<in>set bundle_names. filepath_Join (bundle_dir dir now) k \<noteq> archive_path (spath s) (Clock sch n)"
    and few: "length rs + length ps < 2 ^ 62"
  shows "\<exists>kept added s' w' w''. RunOnce sch env (s, w) n = (None, (s', w'), n')
    \<and> Export H L W e now dir s' w' = (Inr (bundle_dir dir now), w'')
    \<and> bundle_Verify H L (bundle_dir dir now) w'' = (None, w'')
    \<and> bundle_Read H (bundle_dir dir now) w'' = (Inr (read_header e (kept @ added) now), w'')
    \<and> map marshal_record (map (reindented 3) (kept @ added)) = map marshal_record (kept @ added)
    \<and> (kept = rs \<or> (\<exists>g. kept = [g] \<and> stored_as (file_rotation rs (Clock sch n) (s, w)) g))
    \<and> list_all2 stored_as ps added \<and> Count s' = length (kept @ added)"
proof -
  have "\<forall>r\<in>set ps. room r" using cyc(2) by simp
  from frotating.RunOnce_rotating [OF holds built rot cyc(1) this] obtain kept added s' w' where
    r: "RunOnce sch env (s, w) n = (None, (s', w'), n')" "file_holds H (s', w') (kept @ added)" "list_all2 stored_as ps added"
      "kept = rs \<or> (\<exists>g. kept = [g] \<and> stored_as (file_rotation rs (Clock sch n) (s, w)) g)" by (metis prod.collapse)
  have st: "store_ok H s' w' (kept @ added)" "calm w'" using r(2) by (auto simp: file_holds_def)
  have "names w (spath s) \<noteq> None" using holds by (simp add: file_holds_def store_ok_def)
  from fresh_after_cycle [OF r(1) built(1) this fresh] have fresh': "fresh_bundle w' (bundle_dir dir now)" .
  have "\<forall>r\<in>set kept. shallow r"
    using r(4) old rotation_shallow by (auto simp: file_rotation_def dest!: shallow_stored)
  moreover have "\<forall>r\<in>set added. shallow r"
    using stored_shallow [OF r(3)] cyc(2) by blast
  moreover have "length (kept @ added) < 2 ^ 63"
    using few r(3,4) list_all2_lengthD [OF r(3)] by auto
  ultimately have "exportable e (kept @ added) now" by (intro exportable_shallow now fw) auto
  moreover have "Count s' = length (kept @ added)" using st(1) by (simp add: store_ok_def Count_def)
  ultimately show ?thesis using Export_verifies [OF st(2,1) L W _ fresh'] r(1,3,4) by blast
qed

end
