(* ===== verification/Shells.thy ===== *)
theory Shells
  imports Engine_Cycle
begin

text \<open>
  The command line (\<open>internal/shells/cli/cli.go\<close>, \<open>cmd/evidenced/main.go\<close>) and the daemon
  (\<open>internal/shells/daemon/daemon.go\<close>). Go's \<open>flag\<close> package is modelled; logging is left out.
\<close>

section \<open>Flags\<close>

text \<open>A flag of a type of its own refuses a value with an error.\<close>

datatype flag_kind = StringFlag | BoolFlag | VarFlag "string \<Rightarrow> error option"

definition ParseBool :: "string \<Rightarrow> bool option" where
  "ParseBool s =
     (if s \<in> set [''1'', ''t'', ''T'', ''TRUE'', ''true'', ''True''] then Some True
      else if s \<in> set [''0'', ''f'', ''F'', ''FALSE'', ''false'', ''False''] then Some False else None)"

text \<open>
  \<open>FlagSet.Parse\<close>: the flags set, the last one first, and the arguments left over. The text of a
  flag is its name and, after an equals sign that is not its first byte, a value.
\<close>

definition flag_text :: "string \<Rightarrow> string" where
  "flag_text s = drop (if s ! 1 = CHR ''-'' then 2 else 1) s"

definition flag_name :: "string \<Rightarrow> string" where
  "flag_name t = take 1 t @ takeWhile (\<lambda>c. c \<noteq> CHR ''='') (tl t)"

definition flag_value :: "string \<Rightarrow> string option" where
  "flag_value t = (case dropWhile (\<lambda>c. c \<noteq> CHR ''='') (tl t) of [] \<Rightarrow> None | _ # v \<Rightarrow> Some v)"

definition ErrHelp :: error where "ErrHelp = External ''flag: help requested''"

function parse_flags ::
  "(string \<times> flag_kind) list \<Rightarrow> (string \<times> string) list \<Rightarrow> string list \<Rightarrow> ((string \<times> string) list \<times> string list) result" where
  "parse_flags fl vs [] = Inr (vs, [])"
| "parse_flags fl vs (s # args) =
     (if length s < 2 \<or> hd s \<noteq> CHR ''-'' then Inr (vs, s # args)
      else if s = ''--'' then Inr (vs, args)
      else let t = flag_text s; n = flag_name t in
        if t = [] \<or> hd t = CHR ''-'' \<or> hd t = CHR ''='' then Inl (Errorf ''bad flag syntax: %s'' [Str s] None)
        else (case map_of fl n of
          None \<Rightarrow> if n = ''help'' \<or> n = ''h'' then Inl ErrHelp
                  else Inl (Errorf ''flag provided but not defined: -%s'' [Str n] None)
        | Some BoolFlag \<Rightarrow> (case flag_value t of
            None \<Rightarrow> parse_flags fl ((n, ''true'') # vs) args
          | Some v \<Rightarrow> (case ParseBool v of
              None \<Rightarrow> Inl (Errorf ''invalid boolean value %q for -%s: parse error'' [Str v, Str n] None)
            | Some b \<Rightarrow> parse_flags fl ((n, if b then ''true'' else ''false'') # vs) args))
        | Some StringFlag \<Rightarrow> (case flag_value t of
            Some v \<Rightarrow> parse_flags fl ((n, v) # vs) args
          | None \<Rightarrow> (case args of
              [] \<Rightarrow> Inl (Errorf ''flag needs an argument: -%s'' [Str n] None)
            | v # rest \<Rightarrow> parse_flags fl ((n, v) # vs) rest))
        | Some (VarFlag refuse) \<Rightarrow> (case flag_value t of
            Some v \<Rightarrow> (case refuse v of
              Some e \<Rightarrow> Inl (Errorf ''invalid value %q for flag -%s: %s'' [Str v, Str n, Str (error_text e)] None)
            | None \<Rightarrow> parse_flags fl ((n, v) # vs) args)
          | None \<Rightarrow> (case args of
              [] \<Rightarrow> Inl (Errorf ''flag needs an argument: -%s'' [Str n] None)
            | v # rest \<Rightarrow> (case refuse v of
                Some e \<Rightarrow> Inl (Errorf ''invalid value %q for flag -%s: %s'' [Str v, Str n, Str (error_text e)] None)
              | None \<Rightarrow> parse_flags fl ((n, v) # vs) rest)))))"
  by pat_completeness auto
termination by (relation "measure (\<lambda>(fl, vs, args). length args)") auto

definition string_flag :: "string \<Rightarrow> string \<Rightarrow> (string \<times> string) list \<Rightarrow> string" where
  "string_flag n dflt vs = (case map_of vs n of None \<Rightarrow> dflt | Some v \<Rightarrow> v)"

definition bool_flag :: "string \<Rightarrow> (string \<times> string) list \<Rightarrow> bool" where
  "bool_flag n vs = (map_of vs n = Some ''true'')"

definition config_flags :: "(string \<times> flag_kind) list" where
  "config_flags = [(''config'', StringFlag)]"

section \<open>The command line\<close>

text \<open>What a command gives back: its error, what it printed, the requests it sent, the world.\<close>

type_synonym outcome_of = "error option \<times> string \<times> request list \<times> os"

definition bundle_line :: "path \<Rightarrow> string" where
  "bundle_line dir = Fprintf (''bundle: %s'' @ lf) [Str dir]"

text \<open>The engine is closed on every return once it is built.\<close>

definition closing :: "file_store \<Rightarrow> outcome_of \<Rightarrow> outcome_of" where
  "closing s r = (case r of (e, txt, rqs, w) \<Rightarrow> (e, txt, rqs, snd (snd (engine_Close s w))))"

definition report_part ::
  "('y, 'k) libs \<Rightarrow> ('y, 'k) engine \<Rightarrow> gotime \<Rightarrow> string \<Rightarrow> file_store \<Rightarrow> os \<Rightarrow> outcome_of" where
  "report_part B e now txt s w = (case ExportAndPush B e now s w of
     (dir, Some err, rqs, w1) \<Rightarrow> (Some err, (if dir = [] then txt else txt @ bundle_line dir), rqs, w1)
   | (dir, None, rqs, w1) \<Rightarrow> (None, txt @ bundle_line dir @ (case eg_Pusher e of
         None \<Rightarrow> [] | Some p \<Rightarrow> Fprintf (''pushed to portal as agent %q'' @ lf) [Str (pp_Agent p)]), rqs, w1))"

definition cli_Collect ::
  "('y, 'k) libs \<Rightarrow> (bytes \<Rightarrow> 'y config result) \<Rightarrow> 'y factories \<Rightarrow> env \<Rightarrow> string list \<Rightarrow> os \<Rightarrow> outcome_of" where
  "cli_Collect B dec extra env args w = (case parse_flags (config_flags @ [(''report'', BoolFlag)]) [] args of
     Inl e \<Rightarrow> (Some e, [], [], w)
   | Inr (vs, rest) \<Rightarrow> (case LoadConfig dec (string_flag ''config'' ''evidenced.yaml'' vs) w of
       (Inl e, w1) \<Rightarrow> (Some e, [], [], w1)
     | (Inr cfg, w1) \<Rightarrow> (case Build B cfg extra w1 of
         (Inl e, w2) \<Rightarrow> (Some e, [], [], w2)
       | (Inr (eg, s), w2) \<Rightarrow> (case RunOnce (eg_Scheduler eg) env (s, w2) 0 of
           (Some e, (s1, w3), n) \<Rightarrow> closing s1 (Some e, [], [], w3)
         | (None, (s1, w3), n) \<Rightarrow>
             (let txt = Fprintf (''collected: %d records in store %s'' @ lf) [Num (int (Count s1)), Str (cf_StorePath cfg)]
              in closing s1 (if bool_flag ''report'' vs then report_part B eg (lb_clock B n) txt s1 w3
                             else (None, txt, [], w3)))))))"

definition cli_Export ::
  "('y, 'k) libs \<Rightarrow> (bytes \<Rightarrow> 'y config result) \<Rightarrow> 'y factories \<Rightarrow> string list \<Rightarrow> os \<Rightarrow> outcome_of" where
  "cli_Export B dec extra args w = (case parse_flags config_flags [] args of
     Inl e \<Rightarrow> (Some e, [], [], w)
   | Inr (vs, rest) \<Rightarrow> (case LoadConfig dec (string_flag ''config'' ''evidenced.yaml'' vs) w of
       (Inl e, w1) \<Rightarrow> (Some e, [], [], w1)
     | (Inr cfg, w1) \<Rightarrow> (case Build B cfg extra w1 of
         (Inl e, w2) \<Rightarrow> (Some e, [], [], w2)
       | (Inr (eg, s), w2) \<Rightarrow>
           closing s (case Export (lb_digest B) (lb_keys B) (lb_walks B) (eg_Exporter eg) (lb_clock B 0) (cf_ExportDir cfg) s w2 of
             (Inl e, w3) \<Rightarrow> (Some e, [], [], w3)
           | (Inr dir, w3) \<Rightarrow> (None, bundle_line dir, [], w3)))))"

definition cli_Verify ::
  "('y, 'k) libs \<Rightarrow> (bytes \<Rightarrow> 'y config result) \<Rightarrow> string list \<Rightarrow> os \<Rightarrow> outcome_of" where
  "cli_Verify B dec args w = (case parse_flags config_flags [] args of
     Inl e \<Rightarrow> (Some e, [], [], w)
   | Inr (vs, rest) \<Rightarrow> (case LoadConfig dec (string_flag ''config'' ''evidenced.yaml'' vs) w of
       (Inl e, w1) \<Rightarrow> (Some e, [], [], w1)
     | (Inr cfg, w1) \<Rightarrow> (case OpenFileStore (lb_digest B) (cf_StorePath cfg) w1 of
         (Inl e, w2) \<Rightarrow> (Some (Errorf ''store failed verification: %w'' [] (Some e)), [], [], w2)
       | (Inr s, w2) \<Rightarrow> closing s (None, Fprintf (''store %s: %d records, chain intact'' @ lf)
            [Str (cf_StorePath cfg), Num (int (Count s))], [], w2))))"

definition cli_VerifyBundle :: "('y, 'k) libs \<Rightarrow> string list \<Rightarrow> os \<Rightarrow> outcome_of" where
  "cli_VerifyBundle B args w = (case parse_flags [] [] args of
     Inl e \<Rightarrow> (Some e, [], [], w)
   | Inr (vs, rest) \<Rightarrow>
       if length rest \<noteq> 1 then (Some (Errorf ''usage: evidenced verify-bundle <bundle-dir>'' [] None), [], [], w)
       else (case bundle_Verify (lb_digest B) (lb_keys B) (hd rest) w of
         (Some e, w1) \<Rightarrow> (Some e, [], [], w1)
       | (None, w1) \<Rightarrow> (None, Fprintf (''bundle %s: checksums and signature valid'' @ lf) [Str (hd rest)], [], w1)))"

definition cli_Push ::
  "('y, 'k) libs \<Rightarrow> (bytes \<Rightarrow> 'y config result) \<Rightarrow> string list \<Rightarrow> os \<Rightarrow> outcome_of" where
  "cli_Push B dec args w = (case parse_flags config_flags [] args of
     Inl e \<Rightarrow> (Some e, [], [], w)
   | Inr (vs, rest) \<Rightarrow>
       if length rest \<noteq> 1 then (Some (Errorf ''usage: evidenced push [--config file] <bundle-dir>'' [] None), [], [], w)
       else (let path = string_flag ''config'' ''evidenced.yaml'' vs; dir = hd rest in
       case LoadConfig dec path w of
         (Inl e, w1) \<Rightarrow> (Some e, [], [], w1)
       | (Inr cfg, w1) \<Rightarrow>
           if \<not> Push_Enabled (cf_Push cfg) then (Some (Errorf ''no push block configured in %s'' [Str path] None), [], [], w1)
           else (case push_New (lb_net B) (cf_Push cfg) w1 of
             (Inl e, w2) \<Rightarrow> (Some e, [], [], w2)
           | (Inr p, w2) \<Rightarrow> (case bundle_Verify (lb_digest B) (lb_keys B) dir w2 of
               (Some e, w3) \<Rightarrow> (Some (Errorf ''refusing to push: %w'' [] (Some e)), [], [], w3)
             | (None, w3) \<Rightarrow> (case pusher_Push (lb_net B) p dir w3 of
                 (Some e, rqs, w4) \<Rightarrow> (Some e, [], rqs, w4)
               | (None, rqs, w4) \<Rightarrow> (None, Fprintf (''pushed %s as agent %q'' @ lf) [Str dir, Str (pp_Agent p)], rqs, w4))))))"

section \<open>The program\<close>

text \<open>
  \<open>run\<close> of the main package: the Kubernetes factories first, then the command; the status of the
  process is 2 for a wrong use and 1 for an error. The daemon and the operator have definitions of
  their own.
\<close>

datatype command = CollectCmd | ExportCmd | VerifyCmd | VerifyBundleCmd | PushCmd | DaemonCmd | OperatorCmd | VersionCmd

definition command_of :: "string \<Rightarrow> command option" where
  "command_of s = map_of [(''collect'', CollectCmd), (''export'', ExportCmd), (''verify'', VerifyCmd),
     (''verify-bundle'', VerifyBundleCmd), (''push'', PushCmd), (''daemon'', DaemonCmd),
     (''operator'', OperatorCmd), (''version'', VersionCmd)] s"

definition run_command ::
  "('y, 'k) libs \<Rightarrow> (bytes \<Rightarrow> 'y config result) \<Rightarrow> 'y factories \<Rightarrow> env \<Rightarrow> string \<Rightarrow> command \<Rightarrow> string list \<Rightarrow> os \<Rightarrow>
   outcome_of option" where
  "run_command B dec kube env version c args w = (case c of
     CollectCmd \<Rightarrow> Some (cli_Collect B dec kube env args w)
   | ExportCmd \<Rightarrow> Some (cli_Export B dec kube args w)
   | VerifyCmd \<Rightarrow> Some (cli_Verify B dec args w)
   | VerifyBundleCmd \<Rightarrow> Some (cli_VerifyBundle B args w)
   | PushCmd \<Rightarrow> Some (cli_Push B dec args w)
   | VersionCmd \<Rightarrow> Some (None, version @ lf, [], w)
   | _ \<Rightarrow> None)"

definition exit_status :: "error option \<Rightarrow> int" where
  "exit_status e = (if e = None then 0 else 1)"

definition usage_text :: string where
  "usage_text = concat (map (\<lambda>s. s @ lf)
     [''Usage: evidenced <command>'', [], ''Commands:'',
      ''  collect        run one collection cycle (--report to also export a bundle)'',
      ''  export         export an evidence bundle from the existing store'',
      ''  verify         verify the evidence store's hash chain'',
      ''  verify-bundle  verify an exported bundle's checksums and signature'',
      ''  push           upload an existing bundle to the configured portal'',
      ''  daemon         long-running collection on a VM (YAML config)'',
      ''  operator       Kubernetes operator (CRD-driven config)'',
      ''  version        print version''])"

definition error_line :: "error option \<Rightarrow> string" where
  "error_line e = (case e of None \<Rightarrow> [] | Some x \<Rightarrow> ''evidenced: '' @ error_text x @ lf)"

text \<open>
  The status, what was printed on standard output and by \<open>main\<close> on standard error (where the flag
  package and the loggers write too), the requests sent and the world, for the commands that return.
\<close>

definition main_run ::
  "('y, 'k) libs \<Rightarrow> (bytes \<Rightarrow> 'y config result) \<Rightarrow> 'y factories result \<Rightarrow> env \<Rightarrow> string \<Rightarrow> string list \<Rightarrow> os \<Rightarrow>
   (int \<times> string \<times> string \<times> request list \<times> os) option" where
  "main_run B dec kube env version args w = (case args of
     [] \<Rightarrow> Some (2, [], usage_text, [], w)
   | name # rest \<Rightarrow> (case kube of
       Inl e \<Rightarrow> Some (1, [], error_line (Some e), [], w)
     | Inr fs \<Rightarrow> (case command_of name of
         None \<Rightarrow> Some (2, [], Fprintf (''evidenced: unknown command %q'' @ lf) [Str name] @ usage_text, [], w)
       | Some c \<Rightarrow> map_option (\<lambda>(e, txt, rqs, w1). (exit_status e, txt, error_line e, rqs, w1))
           (run_command B dec fs env version c rest w))))"

section \<open>The daemon\<close>

text \<open>One pass of the daemon, with the requests it sends: a failed upload is only logged.\<close>

definition daemon_cycle ::
  "('y, 'k) libs \<Rightarrow> ('y, 'k) engine \<Rightarrow> env \<Rightarrow> file_state \<Rightarrow> nat \<Rightarrow> error option \<times> request list \<times> file_state \<times> nat" where
  "daemon_cycle B e env st n = (case RunOnce (eg_Scheduler e) env st n of
     (Some err, st1, n1) \<Rightarrow> (Some err, [], st1, n1)
   | (None, (s1, w1), n1) \<Rightarrow> (case ExportAndPush B e (lb_clock B n1) s1 w1 of
       (dir, err, rqs, w2) \<Rightarrow> ((if dir = [] then err else None), rqs, (s1, w2), Suc n1)))"

text \<open>Waiting for a tick or a signal, or returned; with all requests sent so far.\<close>

datatype daemon_state = Serving file_state nat "request list" | Stopped "error option" file_state "request list"

datatype daemon_event = Ticked env | Signalled

fun after_cycle :: "request list \<Rightarrow> error option \<times> request list \<times> file_state \<times> nat \<Rightarrow> daemon_state" where
  "after_cycle sent (None, rqs, st, n) = Serving st n (sent @ rqs)"
| "after_cycle sent (Some e, rqs, st, n) = Stopped (Some e) st (sent @ rqs)"

inductive daemon_step :: "('y, 'k) libs \<Rightarrow> ('y, 'k) engine \<Rightarrow> daemon_event \<Rightarrow> daemon_state \<Rightarrow> daemon_state \<Rightarrow> bool"
  for B e where
  tick: "daemon_step B e (Ticked env) (Serving st n sent) (after_cycle sent (daemon_cycle B e env st n))"
| signal: "daemon_step B e Signalled (Serving st n sent) (Stopped None st sent)"

inductive_cases daemon_step_Stopped: "daemon_step B e ev (Stopped err st sent) y"
inductive_simps daemon_step_Serving: "daemon_step B e ev (Serving st n sent) y"

fun daemon_loop :: "('y, 'k) libs \<Rightarrow> ('y, 'k) engine \<Rightarrow> daemon_state \<Rightarrow> daemon_event list \<Rightarrow> daemon_state" where
  "daemon_loop B e x [] = x"
| "daemon_loop B e (Stopped err st sent) evs = Stopped err st sent"
| "daemon_loop B e (Serving st n sent) (Ticked env # evs) =
     daemon_loop B e (after_cycle sent (daemon_cycle B e env st n)) evs"
| "daemon_loop B e (Serving st n sent) (Signalled # evs) = Stopped None st sent"

text \<open>The engine is closed when \<open>Run\<close> returns.\<close>

fun close_stopped :: "daemon_state \<Rightarrow> daemon_state" where
  "close_stopped (Stopped err (s, w) sent) = (case engine_Close s w of (_, s', w') \<Rightarrow> Stopped err (s', w') sent)"
| "close_stopped (Serving st n sent) = Serving st n sent"

text \<open>\<open>Run\<close>: an error before the loop, or the state the events lead to.\<close>

definition daemon_Run ::
  "('y, 'k) libs \<Rightarrow> (bytes \<Rightarrow> 'y config result) \<Rightarrow> 'y factories \<Rightarrow> env \<Rightarrow> daemon_event list \<Rightarrow> string list \<Rightarrow> os \<Rightarrow>
   (error \<times> os) + daemon_state" where
  "daemon_Run B dec extra env evs args w = (case parse_flags config_flags [] args of
     Inl e \<Rightarrow> Inl (e, w)
   | Inr (vs, rest) \<Rightarrow> (case LoadConfig dec (string_flag ''config'' ''/etc/evidenced/config.yaml'' vs) w of
       (Inl e, w1) \<Rightarrow> Inl (e, w1)
     | (Inr cfg, w1) \<Rightarrow> (case Build B cfg extra w1 of
         (Inl e, w2) \<Rightarrow> Inl (e, w2)
       | (Inr (eg, s), w2) \<Rightarrow>
           Inr (close_stopped (daemon_loop B eg (after_cycle [] (daemon_cycle B eg env (s, w2) 0)) evs)))))"

lemma daemon_loop_Stopped [simp]: "daemon_loop B e (Stopped err st sent) evs = Stopped err st sent"
  by (cases evs) auto

lemma daemon_loop_append: "daemon_loop B e x (evs @ evs2) = daemon_loop B e (daemon_loop B e x evs) evs2"
  by (induction B e x evs rule: daemon_loop.induct) auto

text \<open>A signal ends the loop wherever it is.\<close>

lemma daemon_loop_signal: "\<exists>err st sent. daemon_loop B e x (evs @ Signalled # evs2) = Stopped err st sent"
  by (cases "daemon_loop B e x evs") (simp_all add: daemon_loop_append)

text \<open>The loop goes through the step relation.\<close>

lemma daemon_loop_step: "daemon_step B e ev x y \<Longrightarrow> daemon_loop B e x [ev] = y"
  by (auto elim: daemon_step.cases)

text \<open>What an upload does never decides whether the daemon goes on.\<close>

lemma no_slash_digits: "CHR ''/'' \<notin> set (pad k m)"
proof
  assume "CHR ''/'' \<in> set (pad k m)"
  then obtain d where "d < 10" "CHR ''/'' = hex_digit d" using pad_digits by blast
  moreover have "CHR ''/'' \<notin> set ''0123456789abcdef''" by simp
  ultimately show False using hex_digit_plain [of d] by simp
qed

lemma bundle_dir_not_Nil [simp]: "bundle_dir d now \<noteq> []"
proof -
  have "CHR ''/'' \<notin> set (stamp (utc now))" by (simp add: stamp_def Let_def no_slash_digits)
  then have "plain_name (''evidence-'' @ stamp (utc now) @ ''Z'')" by (simp add: plain_name_def)
  then show ?thesis by (simp add: bundle_dir_def Join_plain)
qed

lemma Export_dir: "Export H L W e now dir s w = (Inr d, w') \<Longrightarrow> d = bundle_dir dir now"
  by (auto simp: Export_def split: sum.splits prod.splits option.splits)

lemma ExportAndPush_cases:
  obtains (failed) err w1 where "Export (lb_digest B) (lb_keys B) (lb_walks B) (eg_Exporter e) now (cf_ExportDir (eg_Config e)) s w = (Inl err, w1)"
      "ExportAndPush B e now s w = ([], Some err, [], w1)"
  | (exported) dir w1 err rqs w2 where
      "Export (lb_digest B) (lb_keys B) (lb_walks B) (eg_Exporter e) now (cf_ExportDir (eg_Config e)) s w = (Inr dir, w1)"
      "dir \<noteq> []" "ExportAndPush B e now s w = (dir, err, rqs, w2)"
proof (cases "Export (lb_digest B) (lb_keys B) (lb_walks B) (eg_Exporter e) now (cf_ExportDir (eg_Config e)) s w")
  case (Pair r w1)
  show thesis
  proof (cases r)
    case (Inl err)
    with Pair failed show thesis by (simp add: ExportAndPush_def)
  next
    case (Inr dir)
    have "fst (ExportAndPush B e now s w) = dir"
      using Pair Inr by (simp add: ExportAndPush_def split: option.split prod.split)
    moreover have "dir \<noteq> []" using Export_dir Pair Inr bundle_dir_not_Nil by metis
    ultimately show thesis using Pair Inr exported
      by (cases "ExportAndPush B e now s w") auto
  qed
qed

lemma daemon_cycle_ok:
  assumes "RunOnce (eg_Scheduler e) env st n = (None, (s1, w1), n1)"
    "Export (lb_digest B) (lb_keys B) (lb_walks B) (eg_Exporter e) (lb_clock B n1) (cf_ExportDir (eg_Config e)) s1 w1 = (Inr dir, w2)"
  shows "\<exists>rqs w3. daemon_cycle B e env st n = (None, rqs, (s1, w3), Suc n1)"
proof (cases rule: ExportAndPush_cases [of B e "lb_clock B n1" s1 w1])
  case (exported d w1' err rqs w3)
  with assms(1) show ?thesis by (simp add: daemon_cycle_def)
qed (use assms(2) in simp)

lemma daemon_cycle_stops:
  assumes "daemon_cycle B e env st n = (Some err, rqs, st', n')"
  shows "RunOnce (eg_Scheduler e) env st n = (Some err, st', n') \<or>
    (\<exists>s1 w1 n1 w2. RunOnce (eg_Scheduler e) env st n = (None, (s1, w1), n1) \<and>
      Export (lb_digest B) (lb_keys B) (lb_walks B) (eg_Exporter e) (lb_clock B n1) (cf_ExportDir (eg_Config e)) s1 w1 = (Inl err, w2))"
proof -
  obtain x s1 w1 n1 where r: "RunOnce (eg_Scheduler e) env st n = (x, (s1, w1), n1)" by (metis prod.collapse)
  show ?thesis
  proof (cases x)
    case None
    show ?thesis
      by (cases rule: ExportAndPush_cases [of B e "lb_clock B n1" s1 w1])
        (use assms r None in \<open>auto simp: daemon_cycle_def\<close>)
  qed (use assms r in \<open>simp add: daemon_cycle_def\<close>)
qed

text \<open>How the loop ends: by a signal, or before it with the error of a cycle.\<close>

definition cycle_fails :: "('y, 'k) libs \<Rightarrow> ('y, 'k) engine \<Rightarrow> env \<Rightarrow> error \<Rightarrow> bool" where
  "cycle_fails B e env x \<longleftrightarrow> (\<exists>st1 n1 st2 n2. RunOnce (eg_Scheduler e) env st1 n1 = (Some x, st2, n2)
     \<or> (\<exists>s1 w1 w2. RunOnce (eg_Scheduler e) env st1 n1 = (None, (s1, w1), n2) \<and>
          Export (lb_digest B) (lb_keys B) (lb_walks B) (eg_Exporter e) (lb_clock B n2) (cf_ExportDir (eg_Config e)) s1 w1 = (Inl x, w2)))"

lemma daemon_cycle_requests:
  assumes "daemon_cycle B e env st n = (x, rqs, st', n')"
  shows "length rqs \<le> 1 \<and> (\<forall>rq\<in>set rqs. \<exists>p. eg_Pusher e = Some p \<and> rq_Endpoint rq = push_endpoint p)"
proof (cases rqs)
  case (Cons rq more)
  obtain y s1 w1 n1 where r: "RunOnce (eg_Scheduler e) env st n = (y, (s1, w1), n1)" by (metis prod.collapse)
  have y: "y = None" using assms r Cons by (cases y) (auto simp: daemon_cycle_def)
  obtain dir err w2 where p: "ExportAndPush B e (lb_clock B n1) s1 w1 = (dir, err, rqs, w2)"
    using assms r y by (auto simp: daemon_cycle_def split: prod.splits)
  obtain d w3 q err2 where q: "eg_Pusher e = Some q" "pusher_Push (lb_net B) q d w3 = (err2, rqs, w2)"
    using p Cons by (auto simp: ExportAndPush_def split: sum.splits prod.splits option.splits)
  from pusher_Push_requests(1,2) [OF q(2), of rq] Cons q(1) show ?thesis by simp
qed simp

lemma daemon_loop_end:
  "\<exists>err st' new. daemon_loop B e (Serving st n sent) (evs @ Signalled # rest) = Stopped err st' (sent @ new)
    \<and> daemon_loop B e (Serving st n sent) (evs @ [Signalled]) = Stopped err st' (sent @ new)
    \<and> length new \<le> length evs \<and> (\<forall>rq\<in>set new. \<exists>p. eg_Pusher e = Some p \<and> rq_Endpoint rq = push_endpoint p)
    \<and> (case err of None \<Rightarrow> True | Some x \<Rightarrow> \<exists>env. Ticked env \<in> set evs \<and> cycle_fails B e env x)"
proof (induction evs arbitrary: st n sent)
  case (Cons ev evs)
  show ?case
  proof (cases ev)
    case (Ticked env)
    obtain x rqs st1 n1 where c: "daemon_cycle B e env st n = (x, rqs, st1, n1)" by (metis prod.collapse)
    note rq = daemon_cycle_requests [OF c]
    show ?thesis
    proof (cases x)
      case None
      obtain err st' new where IH: "daemon_loop B e (Serving st1 n1 (sent @ rqs)) (evs @ Signalled # rest) = Stopped err st' ((sent @ rqs) @ new)"
        "daemon_loop B e (Serving st1 n1 (sent @ rqs)) (evs @ [Signalled]) = Stopped err st' ((sent @ rqs) @ new)"
        "length new \<le> length evs" "\<forall>rq\<in>set new. \<exists>p. eg_Pusher e = Some p \<and> rq_Endpoint rq = push_endpoint p"
        "case err of None \<Rightarrow> True | Some x \<Rightarrow> \<exists>env. Ticked env \<in> set evs \<and> cycle_fails B e env x"
        using Cons.IH by blast
      then show ?thesis using c None Ticked rq
        by (intro exI [of _ err] exI [of _ st'] exI [of _ "rqs @ new"]) (auto split: option.splits)
    next
      case (Some y)
      then have "cycle_fails B e env y" using daemon_cycle_stops c unfolding cycle_fails_def by metis
      with c Some Ticked rq show ?thesis by (intro exI [of _ "Some y"] exI [of _ st1] exI [of _ rqs]) auto
    qed
  qed simp
qed simp

section \<open>What the commands establish\<close>

lemma LoadConfig_world: "calm w \<Longrightarrow> LoadConfig dec p w = (r, w1) \<Longrightarrow> w1 = w"
  by (auto simp: LoadConfig_def calm_ReadFile split: option.splits)

lemma closing_fst [simp]: "fst (closing s r) = fst r" "fst (snd (closing s r)) = fst (snd r)"
    "fst (snd (snd (closing s r))) = fst (snd (snd r))"
  by (simp_all add: closing_def split: prod.split)

text \<open>\<open>verify\<close> succeeds on exactly the intact chains, and then says how long they are.\<close>

lemma cli_Verify_iff:
  assumes w: "calm w" "os_ok w" and args: "parse_flags config_flags [] args = Inr (vs, rest)"
    and cfg: "fst (LoadConfig dec (string_flag ''config'' ''evidenced.yaml'' vs) w) = Inr cfg"
    and st: "stored_at w (cf_StorePath cfg) rs"
  shows "fst (cli_Verify B dec args w) = None \<longleftrightarrow> intact (lb_digest B) rs"
    "intact (lb_digest B) rs \<Longrightarrow> fst (snd (cli_Verify B dec args w)) =
       Fprintf (''store %s: %d records, chain intact'' @ lf) [Str (cf_StorePath cfg), Num (int (length rs))]"
proof -
  have l: "LoadConfig dec (string_flag ''config'' ''evidenced.yaml'' vs) w = (Inr cfg, w)"
    using cfg LoadConfig_world [OF w(1)] by (metis prod.collapse)
  have good: "\<exists>s w'. OpenFileStore (lb_digest B) (cf_StorePath cfg) w = (Inr s, w') \<and> Count s = length rs"
    if "intact (lb_digest B) rs"
    using OpenFileStore_intact [OF w st that] by (auto simp: store_ok_def Count_def)
  have bad: "\<exists>e w'. OpenFileStore (lb_digest B) (cf_StorePath cfg) w = (Inl e, w')" if "\<not> intact (lb_digest B) rs"
    using OpenFileStore_refuses [OF w(1) stored_at_read [OF w(1) st] that] by blast
  show "fst (cli_Verify B dec args w) = None \<longleftrightarrow> intact (lb_digest B) rs"
    using good bad by (cases "intact (lb_digest B) rs") (auto simp: cli_Verify_def args l)
  show "intact (lb_digest B) rs \<Longrightarrow> fst (snd (cli_Verify B dec args w)) =
       Fprintf (''store %s: %d records, chain intact'' @ lf) [Str (cf_StorePath cfg), Num (int (length rs))]"
    using good by (auto simp: cli_Verify_def args l)
qed

text \<open>\<open>push\<close> sends nothing but a bundle that passed verification, and only when a URL is configured.\<close>

lemma cli_Push_sends:
  assumes "cli_Push B dec args w = (err, txt, rqs, w')" "rqs \<noteq> []"
  obtains vs dir cfg w1 p w2 w3 where "parse_flags config_flags [] args = Inr (vs, [dir])"
    "LoadConfig dec (string_flag ''config'' ''evidenced.yaml'' vs) w = (Inr cfg, w1)" "Push_Enabled (cf_Push cfg)"
    "push_New (lb_net B) (cf_Push cfg) w1 = (Inr p, w2)"
    "bundle_Verify (lb_digest B) (lb_keys B) dir w2 = (None, w3)" "\<exists>e. pusher_Push (lb_net B) p dir w3 = (e, rqs, w')"
proof -
  obtain vs rest where a: "parse_flags config_flags [] args = Inr (vs, rest)" "length rest = 1"
    using assms by (auto simp: cli_Push_def Let_def split: sum.splits if_splits)
  then obtain dir where rest: "rest = [dir]" by (cases rest) auto
  obtain cfg w1 where l: "LoadConfig dec (string_flag ''config'' ''evidenced.yaml'' vs) w = (Inr cfg, w1)"
    using assms a rest by (auto simp: cli_Push_def Let_def split: prod.splits sum.splits)
  have en: "Push_Enabled (cf_Push cfg)" using assms a rest l by (auto simp: cli_Push_def Let_def split: if_splits)
  obtain p w2 where p: "push_New (lb_net B) (cf_Push cfg) w1 = (Inr p, w2)"
    using assms a rest l en by (auto simp: cli_Push_def Let_def split: prod.splits sum.splits)
  obtain w3 where v: "bundle_Verify (lb_digest B) (lb_keys B) dir w2 = (None, w3)"
    using assms a rest l en p by (auto simp: cli_Push_def Let_def split: prod.splits option.splits)
  have "\<exists>e. pusher_Push (lb_net B) p dir w3 = (e, rqs, w')"
    using assms a rest l en p v by (auto simp: cli_Push_def Let_def split: prod.splits option.splits)
  with that a rest l en p v show thesis by blast
qed

text \<open>What the push command sends, in terms of the files it finds.\<close>

lemma cli_Push_files:
  assumes "cli_Push B dec args w = (err, txt, rqs, w')" "rq \<in> set rqs"
  obtains vs dir b cfg p m fs where "parse_flags config_flags [] args = Inr (vs, [dir])"
    "file_at w (string_flag ''config'' ''evidenced.yaml'' vs) = Some b" "ParseConfig dec b = Inr cfg" "Push_Enabled (cf_Push cfg)"
    "bundle_valid (lb_digest B) (lb_keys B) dir w m" "pp_Config p = cf_Push cfg" "check_push (lb_net B) (cf_Push cfg) = None"
    "rqs = [rq]" "rq_Endpoint rq = push_endpoint p" "\<exists>tok. tok \<noteq> [] \<and> rq_Authorization rq = ''Bearer '' @ tok"
    "map fst fs = bundleFiles" "\<forall>(n, b)\<in>set fs. file_at w (filepath_Join dir n) = Some b" "np_TarGz (lb_net B) fs = Inr (rq_Body rq)"
proof -
  have some: "rqs \<noteq> []" using assms(2) by auto
  obtain vs dir cfg w1 p w2 w3 e where
    s: "parse_flags config_flags [] args = Inr (vs, [dir])"
      "LoadConfig dec (string_flag ''config'' ''evidenced.yaml'' vs) w = (Inr cfg, w1)" "Push_Enabled (cf_Push cfg)"
      "push_New (lb_net B) (cf_Push cfg) w1 = (Inr p, w2)" "bundle_Verify (lb_digest B) (lb_keys B) dir w2 = (None, w3)"
      "pusher_Push (lb_net B) p dir w3 = (e, rqs, w')" using cli_Push_sends [OF assms(1) some] by metis
  note c = LoadConfig_reads [OF s(2)] and v = bundle_Verify_valid [OF s(5)]
  have at: "file_at w1 = file_at w" "file_at w2 = file_at w" "file_at w3 = file_at w"
    using same_files_at [OF c(1)] same_files_at [OF push_New_reads [OF s(4)]] same_files_at v by metis+
  then have valid: "bundle_valid H L d w2 m = bundle_valid H L d w m" for H L d m
    by (simp add: bundle_valid_def manifest_at_def)
  obtain m where "bundle_valid (lb_digest B) (lb_keys B) dir w m" using v valid by blast
  moreover obtain b where "file_at w (string_flag ''config'' ''evidenced.yaml'' vs) = Some b" "ParseConfig dec b = Inr cfg"
    using c(2) by blast
  moreover obtain fs where "map fst fs = bundleFiles" "\<forall>(n, b)\<in>set fs. file_at w (filepath_Join dir n) = Some b"
    "np_TarGz (lb_net B) fs = Inr (rq_Body rq)" using pusher_Push_archive [OF s(6) assms(2)] at(3) by auto
  ultimately show thesis
    using that s(1,3) push_New_ok [OF s(4)] pusher_Push_requests [OF s(6) assms(2)] by metis
qed

lemma flags_example:
  "parse_flags (config_flags @ [(''report'', BoolFlag)]) [] [''-report'', ''--config=c.yaml'', ''x'', ''-y'']
     = Inr ([(''config'', ''c.yaml''), (''report'', ''true'')], [''x'', ''-y''])"
  "parse_flags config_flags [] [''-config''] = Inl (Errorf ''flag needs an argument: -%s'' [Str ''config''] None)"
  by (simp_all add: config_flags_def flag_text_def flag_name_def flag_value_def)

text \<open>
  What verification does not show: a directory whose manifest is an empty object passes, whatever
  else it holds, and the command reports valid checksums and a valid signature though there is neither.
\<close>

lemma unsigned_bundle_passes:
  assumes "calm w" "file_at w (filepath_Join dir ''manifest.json'') = Some ''{}''" "dir \<noteq> []" "hd dir \<noteq> CHR ''-''"
  shows "bundle_Verify (lb_digest B) (lb_keys B) dir w = (None, w)
    \<and> cli_VerifyBundle B [dir] w = (None, ''bundle '' @ dir @ '': checksums and signature valid'' @ lf, [], w)"
proof -
  have v: "bundle_Verify (lb_digest B) (lb_keys B) dir w = (None, w)"
    using empty_manifest_valid [OF assms(2)] bundle_Verify_iff [OF assms(1), of "lb_digest B" "lb_keys B" dir]
    by (metis prod.collapse)
  moreover have "parse_flags [] [] [dir] = Inr ([], [dir])" using assms(3,4) by simp
  ultimately show ?thesis by (simp add: cli_VerifyBundle_def Fprintf_def lf_def arg_text_def)
qed

end
