(* ===== verification/Operator.thy ===== *)
theory Operator
  imports Shells
begin

text \<open>
  The operator (\<open>internal/shells/operator/reconciler.go\<close>, the types of
  \<open>api/v1alpha1/types.go\<close>): a policy becomes a configuration, its engine is cached by generation,
  and every reconcile runs a cycle and asks to be called again. What the API server answers is an
  argument; status patches and reports are part of the result (the code only logs their failure).
\<close>

section \<open>Custom resources\<close>

record collector_spec =
  cs_Name :: string
  cs_Settings :: "bytes option"

record push_spec =
  sp_URL :: string
  sp_TokenEnv :: string
  sp_TokenFile :: string
  sp_Agent :: string
  sp_CAFile :: string

record policy_spec =
  ps_Interval :: "int option"
  ps_Collectors :: "collector_spec list"
  ps_StorePath :: string
  ps_StoreRotateAfter :: "int option"
  ps_ExportDir :: string
  ps_SigningKeyPath :: string
  ps_Push :: "push_spec option"

record policy_status =
  st_ObservedGeneration :: int
  st_LastRunTime :: "gotime option"
  st_Records :: int
  st_LastBundle :: string
  st_LastError :: string

record policy =
  po_Name :: string
  po_Generation :: int
  po_Spec :: policy_spec
  po_Status :: policy_status

record report =
  er_Name :: string
  er_PolicyName :: string
  er_GeneratedAt :: gotime
  er_BundlePath :: string
  er_RecordCount :: int
  er_Framework :: string

section \<open>Translate\<close>

text \<open>What the YAML library makes of a settings block: no node, a document with its contents, another node.\<close>

datatype 'y ynode = NoNode | DocumentNode 'y "'y list" | OtherNode 'y

definition settings_of :: "'y ynode \<Rightarrow> 'y option" where
  "settings_of y = (case y of
     NoNode \<Rightarrow> None | DocumentNode self contents \<Rightarrow> Some (case contents of [] \<Rightarrow> self | c # _ \<Rightarrow> c) | OtherNode self \<Rightarrow> Some self)"

fun translate_collectors ::
  "(bytes \<Rightarrow> 'y ynode result) \<Rightarrow> collector_spec list \<Rightarrow> (string \<times> 'y collector_config) list \<Rightarrow>
   (string \<times> 'y collector_config) list result" where
  "translate_collectors yaml [] raw = Inr raw"
| "translate_collectors yaml (c # cs) raw =
     (if cs_Name c = [] then Inl (Errorf ''collector entry with empty name'' [] None)
      else case cs_Settings c of
        None \<Rightarrow> translate_collectors yaml cs (put (cs_Name c) \<lparr>cl_Enabled = True, cl_Settings = None\<rparr> raw)
      | Some b \<Rightarrow>
          if b = [] then translate_collectors yaml cs (put (cs_Name c) \<lparr>cl_Enabled = True, cl_Settings = None\<rparr> raw)
          else (case yaml b of
            Inl e \<Rightarrow> Inl (Errorf ''collector %s: parse settings: %w'' [Str (cs_Name c)] (Some e))
          | Inr y \<Rightarrow> translate_collectors yaml cs
              (put (cs_Name c) \<lparr>cl_Enabled = True, cl_Settings = settings_of y\<rparr> raw)))"

definition Translate :: "(bytes \<Rightarrow> 'y ynode result) \<Rightarrow> policy_spec \<Rightarrow> 'y config result" where
  "Translate yaml spec =
     bindr (translate_collectors yaml (ps_Collectors spec) []) (\<lambda>raw.
       let rotate = (case ps_StoreRotateAfter spec of None \<Rightarrow> 0 | Some d \<Rightarrow> d);
           interval0 = (case ps_Interval spec of None \<Rightarrow> 0 | Some d \<Rightarrow> d);
           interval = (if interval0 = 0 then hour else interval0);
           cfg = \<lparr>cf_StorePath = (if ps_StorePath spec = [] then ''/var/lib/evidenced/evidence.jsonl'' else ps_StorePath spec),
             cf_StoreRotateAfter = (if rotate = 0 then 720 * hour else rotate),
             cf_Interval = interval,
             cf_ExportDir = (if ps_ExportDir spec = [] then ''/var/lib/evidenced/reports'' else ps_ExportDir spec),
             cf_KeyPath = ps_SigningKeyPath spec,
             cf_Push = (case ps_Push spec of None \<Rightarrow> no_push
               | Some p \<Rightarrow> \<lparr>pu_URL = sp_URL p, pu_TokenEnv = sp_TokenEnv p, pu_TokenFile = sp_TokenFile p,
                   pu_Agent = sp_Agent p, pu_CAFile = sp_CAFile p\<rparr>),
             cf_Collectors = raw\<rparr>
       in if interval < minute
          then Inl (Errorf ''interval %s is below the 1m minimum'' [Str (Duration_String interval)] None)
          else Inr cfg)"

section \<open>Engines\<close>

record ('y, 'k) cached_engine =
  ca_Generation :: int
  ca_Engine :: "('y, 'k) engine"
  ca_Store :: file_store

text \<open>The reconciler's state: its engines by policy name, the world, the readings of the clock.\<close>

record ('y, 'k) reconciler =
  rc_Engines :: "(string \<times> ('y, 'k) cached_engine) list"
  rc_World :: os
  rc_Ticks :: nat

definition delete_key :: "string \<Rightarrow> (string \<times> 'v) list \<Rightarrow> (string \<times> 'v) list" where
  "delete_key k m = filter (\<lambda>(k', _). k' \<noteq> k) m"

definition dropEngine :: "string \<Rightarrow> ('y, 'k) reconciler \<Rightarrow> ('y, 'k) reconciler" where
  "dropEngine name r = (case map_of (rc_Engines r) name of
     None \<Rightarrow> r
   | Some c \<Rightarrow> r\<lparr>rc_World := snd (snd (engine_Close (ca_Store c) (rc_World r))),
                rc_Engines := delete_key name (rc_Engines r)\<rparr>)"

definition buildEngine ::
  "('y, 'k) libs \<Rightarrow> (bytes \<Rightarrow> 'y ynode result) \<Rightarrow> 'y factories \<Rightarrow> policy \<Rightarrow> ('y, 'k) reconciler \<Rightarrow>
   ('y, 'k) cached_engine result \<times> ('y, 'k) reconciler" where
  "buildEngine B yaml fs p r = (case Translate yaml (po_Spec p) of
     Inl e \<Rightarrow> (Inl e, r)
   | Inr cfg \<Rightarrow> (case Build B cfg fs (rc_World r) of
       (Inl e, w) \<Rightarrow> (Inl e, r\<lparr>rc_World := w\<rparr>)
     | (Inr (eg, s), w) \<Rightarrow>
         (let c = \<lparr>ca_Generation = po_Generation p, ca_Engine = eg, ca_Store = s\<rparr>
          in (Inr c, r\<lparr>rc_World := w, rc_Engines := put (po_Name p) c (rc_Engines r)\<rparr>))))"

definition engineFor ::
  "('y, 'k) libs \<Rightarrow> (bytes \<Rightarrow> 'y ynode result) \<Rightarrow> 'y factories \<Rightarrow> policy \<Rightarrow> ('y, 'k) reconciler \<Rightarrow>
   ('y, 'k) cached_engine result \<times> ('y, 'k) reconciler" where
  "engineFor B yaml fs p r = (case map_of (rc_Engines r) (po_Name p) of
     Some c \<Rightarrow> if ca_Generation c = po_Generation p then (Inr c, r)
               else buildEngine B yaml fs p (dropEngine (po_Name p) r)
   | None \<Rightarrow> buildEngine B yaml fs p r)"

section \<open>Reconcile\<close>

datatype got_policy = Found policy | Missing | GetFailed error

datatype action = PatchStatus string policy_status | CreateReport report

datatype requeue = RequeueAfter int | NoRequeue

definition failure_patch :: "policy \<Rightarrow> error \<Rightarrow> action" where
  "failure_patch p e = PatchStatus (po_Name p)
     ((po_Status p)\<lparr>st_LastError := error_text e, st_ObservedGeneration := po_Generation p\<rparr>)"

definition success_patch :: "policy \<Rightarrow> error option \<Rightarrow> gotime \<Rightarrow> nat \<Rightarrow> path \<Rightarrow> action" where
  "success_patch p push_err now k dir = PatchStatus (po_Name p)
     ((po_Status p)\<lparr>st_LastError := (case push_err of None \<Rightarrow> [] | Some e \<Rightarrow> error_text e),
        st_ObservedGeneration := po_Generation p, st_LastRunTime := Some now, st_Records := int k, st_LastBundle := dir\<rparr>)"

text \<open>\<open>owned\<close>: whether the controller reference could be set on the report.\<close>

definition createReport :: "bool \<Rightarrow> policy \<Rightarrow> mapping option \<Rightarrow> nat \<Rightarrow> path \<Rightarrow> gotime \<Rightarrow> action list" where
  "createReport owned p m k dir now =
     (if owned then [CreateReport \<lparr>er_Name = po_Name p @ ''-'' @ stamp now, er_PolicyName = po_Name p,
        er_GeneratedAt = now, er_BundlePath = dir, er_RecordCount = int k,
        er_Framework = (case m of None \<Rightarrow> [] | Some mp \<Rightarrow> framework mp)\<rparr>] else [])"

definition keep_engine ::
  "string \<Rightarrow> ('y, 'k) cached_engine \<Rightarrow> file_state \<Rightarrow> nat \<Rightarrow> ('y, 'k) reconciler \<Rightarrow> ('y, 'k) reconciler" where
  "keep_engine name c st n r =
     r\<lparr>rc_Engines := put name (c\<lparr>ca_Store := fst st\<rparr>) (rc_Engines r), rc_World := snd st, rc_Ticks := n\<rparr>"

definition Reconcile ::
  "('y, 'k) libs \<Rightarrow> (bytes \<Rightarrow> 'y ynode result) \<Rightarrow> 'y factories \<Rightarrow> env \<Rightarrow> bool \<Rightarrow> string \<Rightarrow> got_policy \<Rightarrow>
   ('y, 'k) reconciler \<Rightarrow> requeue \<times> error option \<times> action list \<times> request list \<times> ('y, 'k) reconciler" where
  "Reconcile B yaml fs env owned name got r = (case got of
     Missing \<Rightarrow> (NoRequeue, None, [], [], dropEngine name r)
   | GetFailed e \<Rightarrow> (NoRequeue, Some e, [], [], r)
   | Found p \<Rightarrow> (case engineFor B yaml fs p r of
       (Inl e, r1) \<Rightarrow> (RequeueAfter minute, None, [failure_patch p e], [], r1)
     | (Inr c, r1) \<Rightarrow>
         (case RunOnce (eg_Scheduler (ca_Engine c)) env (ca_Store c, rc_World r1) (rc_Ticks r1) of
           (Some e, st, n) \<Rightarrow>
             (RequeueAfter minute, None, [failure_patch p e], [], keep_engine (po_Name p) c st n r1)
         | (None, (s, w), n) \<Rightarrow> (case ExportAndPush B (ca_Engine c) (lb_clock B n) s w of
             (dir, err, rqs, w2) \<Rightarrow>
               (let now = lb_clock B (Suc n); r2 = keep_engine (po_Name p) c (s, w2) (Suc (Suc n)) r1 in
                if err \<noteq> None \<and> dir = [] then (RequeueAfter minute, None, [failure_patch p (the err)], rqs, r2)
                else (RequeueAfter (cf_Interval (eg_Config (ca_Engine c))), None,
                  createReport owned p (Mapping (eg_Scheduler (ca_Engine c))) (Count s) dir now
                    @ [success_patch p err now (Count s) dir], rqs, r2))))))"

section \<open>What Translate promises, and what not\<close>

lemma Translate_facts:
  assumes "Translate yaml spec = Inr cfg"
  shows "minute \<le> cf_Interval cfg \<and> cf_StorePath cfg \<noteq> [] \<and> cf_ExportDir cfg \<noteq> []
    \<and> cf_StoreRotateAfter cfg = (case ps_StoreRotateAfter spec of
        None \<Rightarrow> 720 * hour | Some d \<Rightarrow> if d = 0 then 720 * hour else d)"
proof -
  obtain raw where "translate_collectors yaml (ps_Collectors spec) [] = Inr raw"
    using assms by (auto simp: Translate_def bindr_eq_Inr)
  note t = assms [unfolded Translate_def this bindr_simps Let_def]
  define i where "i = (if (case ps_Interval spec of None \<Rightarrow> 0 | Some d \<Rightarrow> d) = 0 then hour
    else case ps_Interval spec of None \<Rightarrow> 0 | Some d \<Rightarrow> d)"
  have le: "\<not> i < minute"
  proof
    assume "i < minute"
    with t show False unfolding i_def [symmetric] by simp
  qed
  note cfg = t [unfolded i_def [symmetric], unfolded if_not_P [OF le] sum.inject, symmetric]
  show ?thesis using le unfolding cfg by (simp split: option.split)
qed

lemma Translate_ok:
  assumes "Translate yaml spec = Inr cfg"
  shows "minute \<le> cf_Interval cfg" "cf_StorePath cfg \<noteq> []" "cf_ExportDir cfg \<noteq> []"
    "cf_StoreRotateAfter cfg = (case ps_StoreRotateAfter spec of
        None \<Rightarrow> 720 * hour | Some d \<Rightarrow> if d = 0 then 720 * hour else d)"
  using Translate_facts [OF assms] by simp_all

text \<open>With a rotation age that the other shells accept, the configuration is one they accept.\<close>

lemma Translate_config_ok:
  assumes "Translate yaml spec = Inr cfg" "\<And>d. ps_StoreRotateAfter spec = Some d \<Longrightarrow> d = 0 \<or> 24 * hour \<le> d"
  shows "config_ok cfg"
  using Translate_ok [OF assms(1)] assms(2) by (auto simp: config_ok_def split: option.splits)

text \<open>But any age is accepted: one below a day, which the others refuse, or a negative one.\<close>

lemma Translate_any_rotation:
  assumes "d \<noteq> 0" "d < 24 * hour" "ps_Collectors spec = []" "ps_Interval spec = None" "ps_StoreRotateAfter spec = Some d"
  shows "\<exists>cfg. Translate yaml spec = Inr cfg \<and> cf_StoreRotateAfter cfg = d \<and> \<not> config_ok cfg"
  using assms by (auto simp: Translate_def Let_def minute_def config_ok_def)

lemma translate_collectors_names:
  "translate_collectors yaml cs raw = Inr out \<Longrightarrow> ordered raw \<Longrightarrow>
   ordered out \<and> set (keys out) = set (keys raw) \<union> cs_Name ` set cs"
proof (induction cs arbitrary: raw)
  case (Cons c cs)
  then obtain cc where "translate_collectors yaml cs (put (cs_Name c) cc raw) = Inr out"
    by (auto split: if_splits option.splits sum.splits)
  from Cons.IH [OF this] Cons.prems(2) show ?case by auto
qed simp

section \<open>The schedule\<close>

definition cache_ok :: "('y, 'k) reconciler \<Rightarrow> bool" where
  "cache_ok r \<longleftrightarrow> ordered (rc_Engines r) \<and> (\<forall>(k, c)\<in>set (rc_Engines r). minute \<le> cf_Interval (eg_Config (ca_Engine c)))"

definition new_reconciler :: "os \<Rightarrow> ('y, 'k) reconciler" where
  "new_reconciler w = \<lparr>rc_Engines = [], rc_World = w, rc_Ticks = 0\<rparr>"

lemma delete_key_ordered: "ordered m \<Longrightarrow> ordered (delete_key k m)"
  by (induction m) (auto simp: delete_key_def keys_def)

lemma dropEngine_ok: "cache_ok r \<Longrightarrow> cache_ok (dropEngine name r)"
  using delete_key_ordered [of "rc_Engines r" name]
  by (auto simp: dropEngine_def cache_ok_def delete_key_def split: option.split)

lemma put_cache_ok:
  assumes "cache_ok r" "minute \<le> cf_Interval (eg_Config (ca_Engine c))"
  shows "cache_ok (r\<lparr>rc_Engines := put k c (rc_Engines r)\<rparr>)"
  using assms set_put_subset [of k c "rc_Engines r"] by (auto simp: cache_ok_def)

lemma cache_ok_world [simp]:
  "cache_ok (r\<lparr>rc_World := w\<rparr>) = cache_ok r" "cache_ok (r\<lparr>rc_Ticks := n\<rparr>) = cache_ok r"
  by (simp_all add: cache_ok_def)

lemma buildEngine_ok:
  assumes "cache_ok r" "buildEngine B yaml fs p r = (x, r')"
  shows "cache_ok r'" "x = Inr c \<Longrightarrow> ca_Generation c = po_Generation p
    \<and> Translate yaml (po_Spec p) = Inr (eg_Config (ca_Engine c)) \<and> map_of (rc_Engines r') (po_Name p) = Some c"
proof -
  show "x = Inr c \<Longrightarrow> ca_Generation c = po_Generation p
    \<and> Translate yaml (po_Spec p) = Inr (eg_Config (ca_Engine c)) \<and> map_of (rc_Engines r') (po_Name p) = Some c"
    using assms by (auto simp: buildEngine_def Let_def cache_ok_def Build_def split: sum.splits prod.splits)
  show "cache_ok r'"
  proof (cases "Translate yaml (po_Spec p)")
    case (Inr cfg)
    show ?thesis
    proof (cases "Build B cfg fs (rc_World r)")
      case (Pair y w)
      show ?thesis
      proof (cases y)
        case (Inr es)
        obtain eg s where es: "es = (eg, s)" by fastforce
        have "eg_Config eg = cfg" using Pair Inr es by (auto simp: Build_def Let_def split: sum.splits prod.splits)
        then have "minute \<le> cf_Interval (eg_Config eg)" using Translate_ok(1) [OF \<open>Translate yaml (po_Spec p) = Inr cfg\<close>] by simp
        then have "cache_ok (r\<lparr>rc_World := w\<rparr>\<lparr>rc_Engines := put (po_Name p)
            \<lparr>ca_Generation = po_Generation p, ca_Engine = eg, ca_Store = s\<rparr> (rc_Engines (r\<lparr>rc_World := w\<rparr>))\<rparr>)"
          using assms(1) by (intro put_cache_ok) simp_all
        then show ?thesis
          using assms(2) Pair Inr es \<open>Translate yaml (po_Spec p) = Inr cfg\<close> by (auto simp: buildEngine_def Let_def)
      qed (use assms Pair Inr in \<open>auto simp: buildEngine_def\<close>)
    qed
  qed (use assms in \<open>auto simp: buildEngine_def\<close>)
qed

lemma engineFor_ok:
  assumes "cache_ok r" "engineFor B yaml fs p r = (x, r')"
  shows "cache_ok r'" "x = Inr c \<Longrightarrow> ca_Generation c = po_Generation p \<and> minute \<le> cf_Interval (eg_Config (ca_Engine c))
    \<and> (map_of (rc_Engines r) (po_Name p) = Some c \<or> Translate yaml (po_Spec p) = Inr (eg_Config (ca_Engine c)))"
proof -
  note drop = dropEngine_ok [OF assms(1), of "po_Name p"]
  have b: "cache_ok r' \<and> (x = Inr c \<longrightarrow> ca_Generation c = po_Generation p \<and> Translate yaml (po_Spec p) = Inr (eg_Config (ca_Engine c)))"
    if "buildEngine B yaml fs p q = (x, r')" "cache_ok q" for q
    using buildEngine_ok [OF that(2,1)] by blast
  have cached: "minute \<le> cf_Interval (eg_Config (ca_Engine d))" if "map_of (rc_Engines r) (po_Name p) = Some d" for d
    using assms(1) map_of_SomeD [OF that] by (auto simp: cache_ok_def)
  show "cache_ok r'"
    using assms b drop by (auto simp: engineFor_def split: option.splits if_splits)
  show "x = Inr c \<Longrightarrow> ca_Generation c = po_Generation p \<and> minute \<le> cf_Interval (eg_Config (ca_Engine c))
    \<and> (map_of (rc_Engines r) (po_Name p) = Some c \<or> Translate yaml (po_Spec p) = Inr (eg_Config (ca_Engine c)))"
    using assms b [OF _ drop] b [OF _ assms(1)] cached Translate_ok(1)
    by (auto simp: engineFor_def split: option.splits if_splits)
qed

text \<open>Every reconcile of a policy that exists is asked for again, after a minute at least.\<close>

lemma Reconcile_requeues:
  assumes "cache_ok r" "Reconcile B yaml fs env owned name got r = (q, err, acts, rqs, r')"
  shows "cache_ok r'" "got = Found p \<Longrightarrow> \<exists>d. q = RequeueAfter d \<and> minute \<le> d \<and> err = None"
proof -
  have keep: "cache_ok (keep_engine k c st n r1)" if "cache_ok r1" "minute \<le> cf_Interval (eg_Config (ca_Engine c))" for k c st n r1
    using put_cache_ok [OF that(1), of "c\<lparr>ca_Store := fst st\<rparr>" k] that(2) by (simp add: keep_engine_def)
  have found: "cache_ok r' \<and> (\<exists>d. q = RequeueAfter d \<and> minute \<le> d \<and> err = None)" if "got = Found p" for p
  proof -
    obtain x r1 where ef: "engineFor B yaml fs p r = (x, r1)" by fastforce
    note e = engineFor_ok [OF assms(1) ef]
    show ?thesis
    proof (cases x)
      case (Inl e0)
      with assms(2) that ef e(1) show ?thesis by (auto simp: Reconcile_def)
    next
      case (Inr c)
      note ok = e(2) [OF Inr]
      show ?thesis using assms(2) that ef Inr ok e(1) keep [OF e(1), of c]
        by (auto simp: Reconcile_def Let_def split: prod.splits option.splits if_splits)
    qed
  qed
  then show "got = Found p \<Longrightarrow> \<exists>d. q = RequeueAfter d \<and> minute \<le> d \<and> err = None" by blast
  show "cache_ok r'"
  proof (cases got)
    case (Found p)
    with found show ?thesis by blast
  qed (use assms dropEngine_ok in \<open>auto simp: Reconcile_def\<close>)
qed

text \<open>Its last action is the patch of the status, for the generation it saw.\<close>

lemma Reconcile_patches:
  assumes "Reconcile B yaml fs env owned name (Found p) r = (q, err, acts, rqs, r')"
  shows "\<exists>st. acts \<noteq> [] \<and> last acts = PatchStatus (po_Name p) st \<and> st_ObservedGeneration st = po_Generation p"
proof -
  obtain x r1 where ef: "engineFor B yaml fs p r = (x, r1)" by fastforce
  show ?thesis
  proof (cases x)
    case (Inl e)
    with assms ef show ?thesis by (auto simp: Reconcile_def failure_patch_def)
  next
    case (Inr c)
    obtain y s w n where r: "RunOnce (eg_Scheduler (ca_Engine c)) env (ca_Store c, rc_World r1) (rc_Ticks r1) = (y, (s, w), n)"
      by (metis prod.collapse)
    obtain dir z rqs2 w2 where p: "ExportAndPush B (ca_Engine c) (lb_clock B n) s w = (dir, z, rqs2, w2)"
      by (metis prod.collapse)
    show ?thesis
      using assms ef Inr r p
      by (cases y) (auto simp: Reconcile_def Let_def failure_patch_def success_patch_def split: if_splits)
  qed
qed

text \<open>The states a manager can bring the reconciler to, calling it one request at a time.\<close>

inductive reconciled :: "('y, 'k) libs \<Rightarrow> (bytes \<Rightarrow> 'y ynode result) \<Rightarrow> 'y factories \<Rightarrow> ('y, 'k) reconciler \<Rightarrow> bool"
  for B yaml fs where
  start: "reconciled B yaml fs (new_reconciler w)"
| again: "reconciled B yaml fs r \<Longrightarrow> Reconcile B yaml fs env owned name got r = (q, err, acts, rqs, r')
    \<Longrightarrow> reconciled B yaml fs r'"

lemma reconciled_cache_ok: "reconciled B yaml fs r \<Longrightarrow> cache_ok r"
proof (induction rule: reconciled.induct)
  case (start w)
  then show ?case by (simp add: cache_ok_def new_reconciler_def)
next
  case (again r env owned name got q err acts rqs r')
  then show ?case using Reconcile_requeues(1) by blast
qed

text \<open>A policy that is gone leaves no engine.\<close>

lemma Reconcile_missing:
  "cache_ok r \<Longrightarrow> Reconcile B yaml fs env owned name Missing r = (q, err, acts, rqs, r') \<Longrightarrow>
   map_of (rc_Engines r') name = None \<and> q = NoRequeue \<and> err = None \<and> acts = [] \<and> rqs = []"
  by (auto simp: Reconcile_def dropEngine_def delete_key_def map_of_eq_None_iff split: option.splits)

end
