(* ===== verification/Samples_Engine.thy ===== *)
theory Samples_Engine
  imports Samples Operator
begin

text \<open>
  Concrete inputs for the parts above the store: a key library that keeps its laws, a network, an
  exporter with a key, an engine's libraries, configurations and policies. The witnesses of the
  properties are stated over them.
\<close>

section \<open>Libraries\<close>

definition sample_keys :: "bytes key_lib" where
  "sample_keys = \<lparr>kl_GenerateKey = Inr, kl_MarshalPKCS8 = Inr, kl_ParsePKCS8 = (\<lambda>b. Inr (Ed25519Private b)),
     kl_pem_Encode = (\<lambda>b. CHR ''-'' # b),
     kl_pem_Decode = (\<lambda>b. case b of [] \<Rightarrow> None | c # d \<Rightarrow> if c = CHR ''-'' then Some d else None),
     kl_Sign = (\<lambda>k m. m), kl_Public = (\<lambda>k. replicate 32 (byte 7)), kl_Verify = (\<lambda>p m s. s = m)\<rparr>"

lemma sample_keys_ok [simp]: "key_lib_ok sample_keys"
  by (simp add: key_lib_ok_def sample_keys_def)

definition sample_walks :: walks where
  "sample_walks = \<lparr>wk_records = id, wk_files = rev\<rparr>"

lemma sample_walks_ok [simp]: "walks_ok sample_walks"
  by (simp add: walks_ok_def sample_walks_def)

definition sample_net :: net where
  "sample_net = \<lparr>np_Parse = (\<lambda>s. Inr \<lparr>u_Scheme = ''https'', u_Host = ''portal'', u_Hostname = ''portal''\<rparr>),
     np_LoopbackIP = (\<lambda>s. False), np_AppendCerts = (\<lambda>b. True), np_Hostname = Inr ''host'',
     np_Getenv = (\<lambda>s. ''secret''), np_TarGz = (\<lambda>fs. Inr (concat (map snd fs))), np_NewRequest = (\<lambda>s. None),
     np_Do = (\<lambda>rq. Inr (201, []))\<rparr>"

definition sample_accessors :: accessors where
  "sample_accessors = \<lparr>GetNamespace = (\<lambda>u. ''ns''), GetName = (\<lambda>u. ''n''), NestedString = (\<lambda>u p. ([], False)),
     NestedInt64 = (\<lambda>u p. 0), NestedStringSlice = (\<lambda>u p. []), NestedMap = (\<lambda>u p. ([], False)),
     NestedSlice = (\<lambda>u p. ([], False))\<rparr>"

definition sample_platform :: "unit platform" where
  "sample_platform = \<lparr>pf_cert = (\<lambda>y. Inr \<lparr>cc_Namespaces = []\<rparr>), pf_rbac = (\<lambda>y. Inr ()),
     pf_prov = (\<lambda>y. Inr \<lparr>pc_Namespaces = []\<rparr>), pf_tls = (\<lambda>y. Inr \<lparr>tc_Endpoints = [''a:443''], tc_Timeout = 0\<rparr>),
     pf_accessors = sample_accessors, pf_lower = id\<rparr>"

definition sample_libs :: "(unit, bytes) libs" where
  "sample_libs = \<lparr>lb_digest = Sum256, lb_keys = sample_keys, lb_net = sample_net, lb_walks = sample_walks,
     lb_clock = sample_clock, lb_platform = sample_platform\<rparr>"

section \<open>An export\<close>

definition sample_exporter :: "bytes exporter" where
  "sample_exporter = \<lparr>ex_Mapping = Some dora, ex_Key = Some ''k''\<rparr>"

lemma sample_shallow: "shallow sample_record" "shallow sample_failure" "shallow sample_sealed"
proof -
  let ?v = "JObj [(''n'', JLit (dec_digits 1))]"
  have v: "wf_json ?v" "html_safe ?v" "depth ?v \<le> 9997"
    using plain_str_body [of "''n''"] by (simp_all add: plain_char_def code_def line_separator_def)
  have o1: "Observation sample_record = render ?v" by (simp add: sample_record_def)
  show r: "shallow sample_record" unfolding shallow_def o1 using v by blast
  show "shallow sample_failure" by (simp add: shallow_def sample_failure_def failure_record_def zero_record_def)
  obtain c where "Seal Sum256 sample_draw NewChain sample_record = (None, c, sample_sealed)" by (rule sample_seal)
  then have "Observation sample_sealed = Observation sample_record" by (subst Seal_content) simp_all
  with r show "shallow sample_sealed" by (simp add: shallow_def)
qed

lemma sample_framework: "frameworkName sample_exporter = ''DORA''"
  by (simp add: frameworkName_def sample_exporter_def dora_def)

lemma sample_exportable:
  assumes "\<forall>r\<in>set rs. shallow r" "length rs < 2 ^ 63"
  shows "exportable sample_exporter rs sample_later"
proof -
  have "format_time sample_later \<noteq> None" "60 dvd offset sample_later" by code_simp+
  then show ?thesis
    using assms by (intro exportable_shallow) (simp_all add: sample_framework plain_valid code_def)
qed

lemma sample_bundle_dir: "bundle_dir ''out'' sample_later = ''out/evidence-20260107-000000Z''"
proof -
  have "filepath_Join ''out'' ''evidence-20260107-000000Z'' = ''out/evidence-20260107-000000Z''" by code_simp
  then show ?thesis by (simp add: bundle_dir_def sample_utc sample_stamps)
qed

lemma sample_bundle_paths:
  assumes "k \<in> set bundle_names"
  shows "filepath_Join (bundle_dir ''out'' sample_later) k \<noteq> ''e.jsonl''"
    "filepath_Join (bundle_dir ''out'' sample_later) k \<noteq> archive_path ''e.jsonl'' sample_time"
proof -
  have "\<forall>k\<in>set bundle_names. take 1 (filepath_Join ''out/evidence-20260107-000000Z'' k) = ''o''"
    by code_simp
  then have k: "take 1 (filepath_Join (bundle_dir ''out'' sample_later) k) = ''o''"
    using assms by (simp add: sample_bundle_dir)
  show "filepath_Join (bundle_dir ''out'' sample_later) k \<noteq> ''e.jsonl''" using k by auto
  have "TrimSuffix ''e.jsonl'' (filepath_Ext ''e.jsonl'') = ''e''" by code_simp
  then have "take 1 (archive_path ''e.jsonl'' sample_time) = ''e''" by (simp add: archive_path_def)
  with k show "filepath_Join (bundle_dir ''out'' sample_later) k \<noteq> archive_path ''e.jsonl'' sample_time" by auto
qed

lemma sample_fresh:
  "fresh_bundle sample_world (bundle_dir ''out'' sample_later)" "fresh_bundle sample_world1 (bundle_dir ''out'' sample_later)"
  using sample_bundle_paths(1) by (auto simp: fresh_bundle_def sample_world1_def sample_world_def)

section \<open>What collectors see\<close>

definition sample_tls :: tls_env where
  "sample_tls = \<lparr>te_clock = sample_clock, te_dial = (\<lambda>n t h e. Inl (External ''connection refused''))\<rparr>"

definition sample_role :: cluster_role where
  "sample_role = \<lparr>role_Name = ''reader'', role_Rules = [\<lparr>Verbs = [''get''], APIGroups = [[]], Resources = [''secrets'']\<rparr>]\<rparr>"

definition sample_rbac :: rbac_env where
  "sample_rbac = \<lparr>re_roles = Inr [sample_role], re_bindings = Inr [], re_accounts = Inr [], re_clock = sample_clock\<rparr>"

definition sample_env :: env where
  "sample_env = \<lparr>en_cert = \<lparr>ce_list = (\<lambda>r n. Inr []), ce_clock = sample_clock\<rparr>, en_rbac = sample_rbac,
     en_prov = \<lparr>pe_deployments = (\<lambda>n. Inr []), pe_statefulsets = (\<lambda>n. Inr []), pe_daemonsets = (\<lambda>n. Inr []),
       pe_webhooks = Inr [], pe_clock = sample_clock\<rparr>, en_tls = sample_tls\<rparr>"

section \<open>An engine\<close>

definition sample_config :: "unit config" where
  "sample_config = \<lparr>cf_StorePath = ''e.jsonl'', cf_StoreRotateAfter = 720 * hour, cf_Interval = hour,
     cf_ExportDir = ''out'', cf_KeyPath = [], cf_Push = no_push,
     cf_Collectors = [(''provenance'', \<lparr>cl_Enabled = False, cl_Settings = None\<rparr>),
       (''rbacposture'', \<lparr>cl_Enabled = True, cl_Settings = None\<rparr>),
       (''tlsscan'', \<lparr>cl_Enabled = True, cl_Settings = Some ()\<rparr>)]\<rparr>"

definition sample_push_config :: "unit config" where
  "sample_push_config = sample_config\<lparr>cf_Push := \<lparr>pu_URL = ''https://portal'', pu_TokenEnv = ''TOKEN'',
     pu_TokenFile = [], pu_Agent = ''agent'', pu_CAFile = []\<rparr>\<rparr>"

lemma sample_config_ok: "config_ok sample_config" "config_ok sample_push_config"
  by (simp_all add: config_ok_def sample_push_config_def sample_config_def minute_def)

lemma sample_registers:
  "\<exists>g. register_collectors (kube_factories sample_platform @ builtin (lb_platform sample_libs))
     (cf_Collectors sample_config) NewRegistry = Inr g"
proof -
  have "SplitHostPort ''a:443'' = Inr (''a'', ''443'')" by code_simp
  then show ?thesis
    by (simp add: sample_libs_def sample_config_def kube_factories_def builtin_def sample_platform_def DecodeSettings_def
        tls_New_def lift_collector_def rbac_collector_def tls_collector_def rbac_collectorID_def tls_collectorID_def
        Register_def NewRegistry_def)
qed

lemma sample_build:
  obtains e s w' where "Build sample_libs sample_config (kube_factories sample_platform) sample_world1 = (Inr (e, s), w')"
proof -
  obtain g where g: "register_collectors (kube_factories sample_platform @ builtin (lb_platform sample_libs))
     (cf_Collectors sample_config) NewRegistry = Inr g" using sample_registers by blast
  have d: "lb_digest sample_libs = Sum256" "cf_StorePath sample_config = ''e.jsonl''"
    "cf_KeyPath sample_config = []" "\<not> Push_Enabled (cf_Push sample_config)"
    by (simp_all add: sample_libs_def sample_config_def Push_Enabled_def no_push_def)
  have st: "stored_at sample_world1 ''e.jsonl'' [sample_sealed]"
    using sample_sealed_facts by (simp add: stored_at_def file_at_def sample_world1_def sample_world_def)
  have "\<exists>e s w'. Build sample_libs sample_config (kube_factories sample_platform) sample_world1 = (Inr (e, s), w') \<and> calm w'
    \<and> store_ok (lb_digest sample_libs) s w' [sample_sealed] \<and> spath s = cf_StorePath sample_config
    \<and> eg_Pusher e = None \<and> ex_Key (eg_Exporter e) = None"
    by (rule Build_ok [OF _ _ _ _ g]) (simp_all only: d st sample_sealed_facts(1) sample_world1_facts not_False_eq_True)
  then show thesis using that by blast
qed

text \<open>A world in which every path leads to one file.\<close>

definition one_file :: "bytes \<Rightarrow> os" where
  "one_file b = sample_world\<lparr>names := (\<lambda>p. Some 0), inodes := (\<lambda>i. b)\<rparr>"

lemma one_file_facts [simp]: "calm (one_file b)" "os_ok (one_file b)" "file_at (one_file b) p = Some b"
  by (simp_all add: one_file_def file_at_def) (simp add: sample_world_def os_ok_def)

lemma sample_load: "config_ok c \<Longrightarrow> LoadConfig (\<lambda>b. Inr c) p (one_file b) = (Inr c, one_file b)"
  using ParseConfig_fixed [of c "\<lambda>b. Inr c" b] by (simp add: LoadConfig_def calm_ReadFile)

lemma sample_token: "TrimSpace ''secret'' = ''secret''"
proof -
  have "code (CHR ''s'') = 115" "code (CHR ''t'') = 116" by (simp_all add: code_def)
  then have ne: "byte n \<noteq> CHR ''s''" "byte n \<noteq> CHR ''t''" if "n < 256" "n \<notin> {115, 116}" for n
    using that code_byte [OF that(1)] by (metis insertI1 insertI2)+
  have "trim_front space_runes ''secret'' = ''secret''"
    by (rule trim_front_stop) (simp_all add: space_runes_def ne)
  moreover have "trim_front (map rev space_runes) (rev ''secret'') = rev ''secret''"
    by (rule trim_front_stop) (simp_all add: space_runes_def ne)
  ultimately show ?thesis by (simp add: TrimSpace_def)
qed

lemma sample_push:
  obtains out rq where "cli_Push sample_libs (\<lambda>b. Inr sample_push_config) [''b''] (one_file ''{}'') = (None, out, [rq], one_file ''{}'')"
    "rq_Endpoint rq = ''https://portal/api/v1/bundles''"
proof -
  let ?w = "one_file ''{}''"
  have l: "LoadConfig (\<lambda>b. Inr sample_push_config) p ?w = (Inr sample_push_config, ?w)" for p
    by (rule sample_load) (rule sample_config_ok)
  have v: "bundle_Verify (lb_digest sample_libs) (lb_keys sample_libs) ''b'' ?w = (None, ?w)"
    using empty_manifest_valid [of ?w "''b''"] bundle_Verify_iff [of ?w "lb_digest sample_libs" "lb_keys sample_libs" "''b''"]
    by (metis one_file_facts(1,3) prod.collapse)
  note t = sample_token
  have e: "TrimSuffix ''https://portal'' ''/'' = ''https://portal''" by code_simp
  have n: "push_New sample_net (cf_Push sample_push_config) ?w =
     (Inr \<lparr>pp_Config = cf_Push sample_push_config, pp_Agent = ''agent'', pp_Roots = None\<rparr>, ?w)"
    by (simp add: push_New_def check_push_def push_agent_def sample_net_def sample_push_config_def)
  have "\<exists>rq. pusher_Push sample_net \<lparr>pp_Config = cf_Push sample_push_config, pp_Agent = ''agent'', pp_Roots = None\<rparr> ''b'' ?w
      = (None, [rq], ?w) \<and> rq_Endpoint rq = ''https://portal/api/v1/bundles''"
    by (simp add: pusher_Push_def push_token_def tarGzBundle_def bundleFiles_def calm_ReadFile push_endpoint_def
        sample_net_def sample_push_config_def t e Let_def)
  then obtain rq where p: "pusher_Push sample_net \<lparr>pp_Config = cf_Push sample_push_config, pp_Agent = ''agent'', pp_Roots = None\<rparr> ''b'' ?w
      = (None, [rq], ?w)" "rq_Endpoint rq = ''https://portal/api/v1/bundles''" by blast
  have "Push_Enabled (cf_Push sample_push_config)" by (simp add: Push_Enabled_def sample_push_config_def)
  moreover have "lb_net sample_libs = sample_net" by (simp add: sample_libs_def)
  ultimately have "\<exists>out. cli_Push sample_libs (\<lambda>b. Inr sample_push_config) [''b''] ?w = (None, out, [rq], ?w)"
    using l v n p(1) by (simp add: cli_Push_def config_flags_def Let_def)
  then show thesis using that p(2) by blast
qed

lemma sample_empty_rotation: "room (file_rotation [] (sample_clock 0) (sample_store, sample_world))"
proof -
  have "TrimSuffix ''e.jsonl'' (filepath_Ext ''e.jsonl'') = ''e''" "filepath_Ext ''e.jsonl'' = ''.jsonl''" by code_simp+
  then have "archive_path ''e.jsonl'' sample_time = ''e-20260105-000000Z.jsonl''"
    by (simp add: archive_path_def sample_utc sample_stamps)
  moreover have "format_time (utc sample_time) = Some ''2026-01-05T00:00:00Z''"
    unfolding sample_utc by (rule sample_format)
  moreover have "length (json_escape (filepath_Base ''e-20260105-000000Z.jsonl'')) = 24"
    "valid_utf8 (filepath_Base ''e-20260105-000000Z.jsonl'')" "length (dec_digits 0) = 1"
    by code_simp+
  ultimately show ?thesis
    by (simp add: file_rotation_def sample_clock_def sample_store_def head_hash_def)
      (rule rotation_room; simp add: hash_text_def)
qed

definition sample_policy :: policy where
  "sample_policy = \<lparr>po_Name = ''p'', po_Generation = 1,
     po_Spec = \<lparr>ps_Interval = None, ps_Collectors = [], ps_StorePath = [], ps_StoreRotateAfter = None,
       ps_ExportDir = [], ps_SigningKeyPath = [], ps_Push = None\<rparr>,
     po_Status = \<lparr>st_ObservedGeneration = 0, st_LastRunTime = None, st_Records = 0, st_LastBundle = [], st_LastError = []\<rparr>\<rparr>"

text \<open>A manifest that lists one file, with an empty checksum (for a digest that is always empty).\<close>

definition sample_manifest :: bytes where
  "sample_manifest = concat [''{'', [CHR 0x22], ''files'', [CHR 0x22], '':{'', [CHR 0x22], ''a'', [CHR 0x22], '':'',
     [CHR 0x22], [CHR 0x22], ''}}'']"

lemma sample_manifest_read: "unmarshal_manifest sample_manifest = Inr (zero_manifest\<lparr>mf_Files := Some [(''a'', [])]\<rparr>)"
  by code_simp

end
