(* ===== verification/Go_Heap.thy ===== *)
theory Go_Heap
  imports Prelude
begin

text \<open>
  Memory with pointers, for the code whose point is which cells two objects share (the deep copies
  of the custom resources): a heap maps addresses to cells and hands out fresh ones. A value held
  in memory has a \<open>view\<close> (what it denotes, when every pointer in it leads to a cell of its type)
  and a \<open>foot\<close> (the cells the view reads). The locale \<open>copier\<close> is the contract of a deep copy: the
  copy denotes the same, all its cells are fresh, and no old cell is written. Copiers compose:
  through pointers, slices, pairs and the fields of a struct.
\<close>

section \<open>Cells\<close>

type_synonym addr = nat

record 'c heap =
  Cells :: "addr \<rightharpoonup> 'c"
  Next :: addr

definition alloc :: "'c \<Rightarrow> 'c heap \<Rightarrow> addr \<times> 'c heap" where
  "alloc c h = (Next h, h\<lparr>Cells := (Cells h)(Next h \<mapsto> c), Next := Suc (Next h)\<rparr>)"

definition put_cell :: "addr \<Rightarrow> 'c \<Rightarrow> 'c heap \<Rightarrow> 'c heap" where
  "put_cell a c h = h\<lparr>Cells := (Cells h)(a \<mapsto> c)\<rparr>"

definition empty_heap :: "'c heap" where
  "empty_heap = \<lparr>Cells = Map.empty, Next = 0\<rparr>"

definition heap_ok :: "'c heap \<Rightarrow> bool" where
  "heap_ok h \<longleftrightarrow> (\<forall>a\<in>dom (Cells h). a < Next h)"

definition grown :: "'c heap \<Rightarrow> 'c heap \<Rightarrow> bool" where
  "grown h h' \<longleftrightarrow> heap_ok h' \<and> Next h \<le> Next h' \<and> (\<forall>a<Next h. Cells h' a = Cells h a)"

definition agree :: "addr set \<Rightarrow> 'c heap \<Rightarrow> 'c heap \<Rightarrow> bool" where
  "agree A h h' \<longleftrightarrow> (\<forall>a\<in>A. Cells h' a = Cells h a)"

lemma Cells_put_cell [simp]: "Cells (put_cell a c h) = (Cells h)(a \<mapsto> c)" "Next (put_cell a c h) = Next h"
  by (simp_all add: put_cell_def)

lemma Cells_alloc [simp]:
  "Cells (snd (alloc c h)) = (Cells h)(Next h \<mapsto> c)" "Next (snd (alloc c h)) = Suc (Next h)" "fst (alloc c h) = Next h"
  by (simp_all add: alloc_def)

lemma heap_ok_fresh: "heap_ok h \<Longrightarrow> Next h \<le> a \<Longrightarrow> Cells h a = None"
  by (auto simp: heap_ok_def dom_def dest: leD)

lemma heap_ok_put_cell: "heap_ok h \<Longrightarrow> a < Next h \<Longrightarrow> heap_ok (put_cell a c h)"
  by (auto simp: heap_ok_def)

lemma heap_ok_below: "heap_ok h \<Longrightarrow> A \<subseteq> dom (Cells h) \<Longrightarrow> a \<in> A \<Longrightarrow> a < Next h"
  by (auto simp: heap_ok_def)

lemma empty_heap_ok [simp]: "heap_ok empty_heap"
  by (simp add: heap_ok_def empty_heap_def)

lemma grown_refl: "heap_ok h \<Longrightarrow> grown h h"
  by (simp add: grown_def)

lemma grown_trans [trans]: "grown h h1 \<Longrightarrow> grown h1 h2 \<Longrightarrow> grown h h2"
  by (auto simp: grown_def)

lemma grown_ok: "grown h h' \<Longrightarrow> heap_ok h'"
  by (simp add: grown_def)

lemma grown_Next: "grown h h' \<Longrightarrow> Next h \<le> Next h'"
  by (simp add: grown_def)

lemma grown_alloc: "heap_ok h \<Longrightarrow> grown h (snd (alloc c h))"
  by (auto simp: grown_def heap_ok_def less_Suc_eq)

lemma grown_agree: "grown h h' \<Longrightarrow> (\<And>a. a \<in> A \<Longrightarrow> a < Next h) \<Longrightarrow> agree A h h'"
  by (auto simp: grown_def agree_def)

lemma agree_subset: "agree A h h' \<Longrightarrow> B \<subseteq> A \<Longrightarrow> agree B h h'"
  by (auto simp: agree_def)

lemma agree_Un [simp]: "agree (A \<union> B) h h' \<longleftrightarrow> agree A h h' \<and> agree B h h'"
  by (auto simp: agree_def)

lemma agree_put_cell: "a \<notin> A \<Longrightarrow> agree A h (put_cell a c h)"
  by (auto simp: agree_def)

section \<open>The contract of a deep copy\<close>

locale copier =
  fixes copy :: "'v \<Rightarrow> 'c heap \<Rightarrow> 'v \<times> 'c heap"
    and view :: "'v \<Rightarrow> 'c heap \<Rightarrow> 'w option"
    and foot :: "'v \<Rightarrow> 'c heap \<Rightarrow> addr set"
  assumes reads_foot: "view v h = Some w \<Longrightarrow> agree (foot v h) h h' \<Longrightarrow> view v h' = Some w \<and> foot v h' = foot v h"
    and foot_live: "view v h = Some w \<Longrightarrow> foot v h \<subseteq> dom (Cells h)"
    and copies: "heap_ok h \<Longrightarrow> view v h = Some w \<Longrightarrow> copy v h = (v', h')
      \<Longrightarrow> grown h h' \<and> view v' h' = Some w \<and> foot v' h' \<subseteq> {Next h..<Next h'}"
begin

lemma kept_by_growth:
  assumes "heap_ok h" "view v h = Some w" "grown h h'"
  shows "view v h' = Some w \<and> foot v h' = foot v h"
  using reads_foot [OF assms(2)] grown_agree [OF assms(3)] heap_ok_below [OF assms(1) foot_live [OF assms(2)]] by blast

lemma kept_by_put:
  assumes "view v h = Some w" "a \<notin> foot v h"
  shows "view v (put_cell a c h) = Some w"
  using reads_foot [OF assms(1) agree_put_cell [OF assms(2)]] by simp

lemma original_kept:
  assumes "heap_ok h" "view v h = Some w" "copy v h = (v', h')"
  shows "view v h' = Some w \<and> foot v h' = foot v h"
  using kept_by_growth [OF assms(1,2)] copies [OF assms] by blast

text \<open>No cell is common to the original and the copy.\<close>

lemma apart:
  assumes "heap_ok h" "view v h = Some w" "copy v h = (v', h')"
  shows "foot v h' \<inter> foot v' h' = {}"
proof -
  have "foot v h' = foot v h" using original_kept [OF assms] by simp
  then show ?thesis
    using copies [OF assms] heap_ok_below [OF assms(1) foot_live [OF assms(2)]] by fastforce
qed

text \<open>So whatever is done to the cells of one leaves the other as it was.\<close>

lemma copy_isolated:
  assumes "heap_ok h" "view v h = Some w" "copy v h = (v', h')" "agree (- foot v h) h' h''"
  shows "view v' h'' = Some w"
proof -
  have "agree (foot v' h') h' h''"
    using apart [OF assms(1-3)] original_kept [OF assms(1-3)] assms(4) by (auto simp: agree_def)
  then show ?thesis using reads_foot copies [OF assms(1-3)] by blast
qed

lemma original_isolated:
  assumes "heap_ok h" "view v h = Some w" "copy v h = (v', h')" "agree (- foot v' h') h' h''"
  shows "view v h'' = Some w"
proof -
  note k = original_kept [OF assms(1-3)]
  have "agree (foot v h') h' h''" using apart [OF assms(1-3)] assms(4) by (auto simp: agree_def)
  then show ?thesis using reads_foot k by blast
qed

end

section \<open>Pointers\<close>

text \<open>\<open>d := *p; q = &d\<close>: a fresh cell with what \<open>p\<close> points to.\<close>

definition copy_cell :: "addr \<Rightarrow> 'c heap \<Rightarrow> addr \<times> 'c heap" where
  "copy_cell a h = alloc (the (Cells h a)) h"

definition view_cell :: "('c \<Rightarrow> 'w option) \<Rightarrow> addr \<Rightarrow> 'c heap \<Rightarrow> 'w option" where
  "view_cell val a h = Option.bind (Cells h a) val"

definition foot_cell :: "addr \<Rightarrow> 'c heap \<Rightarrow> addr set" where
  "foot_cell a h = {a}"

lemma copier_cell: "copier copy_cell (view_cell val) foot_cell"
proof
  fix v h w h'
  assume "view_cell val v h = Some w" "agree (foot_cell v h) h h'"
  then show "view_cell val v h' = Some w \<and> foot_cell v h' = foot_cell v h"
    by (auto simp: view_cell_def foot_cell_def agree_def)
next
  fix v h w
  assume "view_cell val v h = Some w"
  then show "foot_cell v h \<subseteq> dom (Cells h)"
    by (auto simp: view_cell_def foot_cell_def split: Option.bind_splits)
next
  fix v h w v' h'
  assume "heap_ok h" and v: "view_cell val v h = Some w" and c: "copy_cell v h = (v', h')"
  have "v' = Next h" "h' = snd (alloc (the (Cells h v)) h)" using c by (auto simp: copy_cell_def alloc_def)
  then show "grown h h' \<and> view_cell val v' h' = Some w \<and> foot_cell v' h' \<subseteq> {Next h..<Next h'}"
    using grown_alloc [OF \<open>heap_ok h\<close>] v by (auto simp: view_cell_def foot_cell_def split: Option.bind_splits)
qed

text \<open>\<open>if p != nil { q = copy(p) }\<close>, \<open>q\<close> being \<open>p\<close> to begin with.\<close>

definition copy_opt :: "('v \<Rightarrow> 'c heap \<Rightarrow> 'v \<times> 'c heap) \<Rightarrow> 'v option \<Rightarrow> 'c heap \<Rightarrow> 'v option \<times> 'c heap" where
  "copy_opt cp p h = (case p of None \<Rightarrow> (p, h) | Some v \<Rightarrow> (case cp v h of (v', h') \<Rightarrow> (Some v', h')))"

definition view_opt :: "('v \<Rightarrow> 'c heap \<Rightarrow> 'w option) \<Rightarrow> 'v option \<Rightarrow> 'c heap \<Rightarrow> 'w option option" where
  "view_opt vw p h = (case p of None \<Rightarrow> Some None | Some v \<Rightarrow> map_option Some (vw v h))"

definition foot_opt :: "('v \<Rightarrow> 'c heap \<Rightarrow> addr set) \<Rightarrow> 'v option \<Rightarrow> 'c heap \<Rightarrow> addr set" where
  "foot_opt ft p h = (case p of None \<Rightarrow> {} | Some v \<Rightarrow> ft v h)"

lemma copier_opt:
  assumes "copier cp vw ft"
  shows "copier (copy_opt cp) (view_opt vw) (foot_opt ft)"
proof
  fix v h w h'
  assume "view_opt vw v h = Some w" "agree (foot_opt ft v h) h h'"
  then show "view_opt vw v h' = Some w \<and> foot_opt ft v h' = foot_opt ft v h"
    using copier.reads_foot [OF assms, of "the v" h "the w" h'] by (cases v) (auto simp: view_opt_def foot_opt_def)
next
  fix v h w
  assume "view_opt vw v h = Some w"
  then show "foot_opt ft v h \<subseteq> dom (Cells h)"
    using copier.foot_live [OF assms, of "the v" h "the w"] by (cases v) (auto simp: view_opt_def foot_opt_def)
next
  fix v h w v' h'
  assume ok: "heap_ok h" and v: "view_opt vw v h = Some w" and c: "copy_opt cp v h = (v', h')"
  show "grown h h' \<and> view_opt vw v' h' = Some w \<and> foot_opt ft v' h' \<subseteq> {Next h..<Next h'}"
  proof (cases v)
    case None
    then show ?thesis using ok v c grown_refl by (simp add: view_opt_def foot_opt_def copy_opt_def)
  next
    case (Some p)
    obtain x where x: "vw p h = Some x" "w = Some x" using v Some by (auto simp: view_opt_def)
    obtain q where q: "cp p h = (q, h')" "v' = Some q" using c Some by (auto simp: copy_opt_def split: prod.splits)
    show ?thesis using copier.copies [OF assms ok x(1) q(1)] x(2) q(2) by (simp add: view_opt_def foot_opt_def)
  qed
qed

section \<open>Structs\<close>

text \<open>A field after another.\<close>

definition copy_pair ::
  "('a \<Rightarrow> 'c heap \<Rightarrow> 'a \<times> 'c heap) \<Rightarrow> ('b \<Rightarrow> 'c heap \<Rightarrow> 'b \<times> 'c heap) \<Rightarrow> 'a \<times> 'b \<Rightarrow> 'c heap \<Rightarrow> ('a \<times> 'b) \<times> 'c heap" where
  "copy_pair cp cq v h = (case cp (fst v) h of (x, h1) \<Rightarrow> case cq (snd v) h1 of (y, h2) \<Rightarrow> ((x, y), h2))"

definition view_pair ::
  "('a \<Rightarrow> 'c heap \<Rightarrow> 'v option) \<Rightarrow> ('b \<Rightarrow> 'c heap \<Rightarrow> 'w option) \<Rightarrow> 'a \<times> 'b \<Rightarrow> 'c heap \<Rightarrow> ('v \<times> 'w) option" where
  "view_pair vw vx v h = Option.bind (vw (fst v) h) (\<lambda>x. map_option (\<lambda>y. (x, y)) (vx (snd v) h))"

definition foot_pair ::
  "('a \<Rightarrow> 'c heap \<Rightarrow> addr set) \<Rightarrow> ('b \<Rightarrow> 'c heap \<Rightarrow> addr set) \<Rightarrow> 'a \<times> 'b \<Rightarrow> 'c heap \<Rightarrow> addr set" where
  "foot_pair ft fu v h = ft (fst v) h \<union> fu (snd v) h"

lemma view_pair_eq_Some [simp]:
  "view_pair vw vx v h = Some w \<longleftrightarrow> vw (fst v) h = Some (fst w) \<and> vx (snd v) h = Some (snd w)"
  by (cases w) (auto simp: view_pair_def split: Option.bind_splits)

lemma copier_pair:
  assumes "copier cp vw ft" "copier cq vx fu"
  shows "copier (copy_pair cp cq) (view_pair vw vx) (foot_pair ft fu)"
proof
  fix v h w h'
  assume "view_pair vw vx v h = Some w" "agree (foot_pair ft fu v h) h h'"
  then show "view_pair vw vx v h' = Some w \<and> foot_pair ft fu v h' = foot_pair ft fu v h"
    using copier.reads_foot [OF assms(1), of "fst v" h "fst w" h'] copier.reads_foot [OF assms(2), of "snd v" h "snd w" h']
    by (simp add: foot_pair_def)
next
  fix v h w
  assume "view_pair vw vx v h = Some w"
  then show "foot_pair ft fu v h \<subseteq> dom (Cells h)"
    using copier.foot_live [OF assms(1)] copier.foot_live [OF assms(2)] by (simp add: foot_pair_def)
next
  fix v h w v' h'
  assume ok: "heap_ok h" and v: "view_pair vw vx v h = Some w" and c: "copy_pair cp cq v h = (v', h')"
  obtain x h1 where p: "cp (fst v) h = (x, h1)" by fastforce
  obtain y where q: "cq (snd v) h1 = (y, h')" and v': "v' = (x, y)"
    using c p by (auto simp: copy_pair_def split: prod.splits)
  have 1: "grown h h1 \<and> vw x h1 = Some (fst w) \<and> ft x h1 \<subseteq> {Next h..<Next h1}"
    using copier.copies [OF assms(1) ok _ p] v by simp
  have "vx (snd v) h1 = Some (snd w)" using copier.kept_by_growth [OF assms(2) ok] 1 v by (metis view_pair_eq_Some)
  then have 2: "grown h1 h' \<and> vx y h' = Some (snd w) \<and> fu y h' \<subseteq> {Next h1..<Next h'}"
    using copier.copies [OF assms(2) grown_ok _ q] 1 by blast
  have 3: "vw x h' = Some (fst w) \<and> ft x h' = ft x h1"
    using copier.kept_by_growth [OF assms(1) grown_ok] 1 2 by blast
  show "grown h h' \<and> view_pair vw vx v' h' = Some w \<and> foot_pair ft fu v' h' \<subseteq> {Next h..<Next h'}"
    using 1 2 3 grown_trans [of h h1 h'] grown_Next [of h h1] grown_Next [of h1 h']
    by (fastforce simp: v' foot_pair_def)
qed

lemma copier_cong:
  assumes "copier cp vw ft" "\<And>v h w. heap_ok h \<Longrightarrow> vw v h = Some w \<Longrightarrow> cq v h = cp v h"
  shows "copier cq vw ft"
proof
  fix v h w h'
  assume "vw v h = Some w" "agree (ft v h) h h'"
  then show "vw v h' = Some w \<and> ft v h' = ft v h" by (rule copier.reads_foot [OF assms(1)])
next
  fix v h w
  assume "vw v h = Some w"
  then show "ft v h \<subseteq> dom (Cells h)" by (rule copier.foot_live [OF assms(1)])
next
  fix v h w v' h'
  assume a: "heap_ok h" "vw v h = Some w" "cq v h = (v', h')"
  show "grown h h' \<and> vw v' h' = Some w \<and> ft v' h' \<subseteq> {Next h..<Next h'}"
    by (rule copier.copies [OF assms(1) a(1,2)]) (use a assms(2) [OF a(1,2)] in simp)
qed

text \<open>A struct is copied by copying some of its fields and keeping the others.\<close>

lemma copier_struct:
  assumes "copier cp vw ft"
    and "\<And>s h. copy s h = (case cp (part s) h of (x, h') \<Rightarrow> (upd s x, h'))"
    and "\<And>s h. view s h = map_option (whole s) (vw (part s) h)"
    and "\<And>s h. foot s h = ft (part s) h"
    and "\<And>s x. part (upd s x) = x" "\<And>s x w. whole (upd s x) w = whole s w"
  shows "copier copy view foot"
proof
  fix v h w h'
  assume v: "view v h = Some w" and a: "agree (foot v h) h h'"
  obtain x where x: "vw (part v) h = Some x" "w = whole v x" using v by (auto simp: assms(3))
  show "view v h' = Some w \<and> foot v h' = foot v h"
    using copier.reads_foot [OF assms(1) x(1), of h'] a x(2) by (simp add: assms(3,4))
next
  fix v h w
  assume "view v h = Some w"
  then obtain x where "vw (part v) h = Some x" by (auto simp: assms(3))
  then show "foot v h \<subseteq> dom (Cells h)"
    unfolding assms(4) by (rule copier.foot_live [OF assms(1)])
next
  fix v h w v' h'
  assume ok: "heap_ok h" and v: "view v h = Some w" and c: "copy v h = (v', h')"
  obtain x where x: "vw (part v) h = Some x" "w = whole v x" using v by (auto simp: assms(3))
  obtain y where y: "cp (part v) h = (y, h')" "v' = upd v y" using c by (auto simp: assms(2) split: prod.splits)
  show "grown h h' \<and> view v' h' = Some w \<and> foot v' h' \<subseteq> {Next h..<Next h'}"
    using copier.copies [OF assms(1) ok x(1) y(1)] x(2) y(2) by (simp add: assms(3-))
qed

section \<open>Slices\<close>

text \<open>
  A slice is a window on an array cell. \<open>get\<close> and \<open>mk\<close> are the projection and the constructor of
  the cells that hold arrays of its element type.
\<close>

record slice =
  sl_Array :: addr
  sl_Off :: nat
  sl_Len :: nat

definition elem_at :: "('c \<Rightarrow> 'e list option) \<Rightarrow> addr \<Rightarrow> nat \<Rightarrow> 'c heap \<Rightarrow> 'e" where
  "elem_at get a i h = the (Option.bind (Cells h a) get) ! i"

definition set_elem :: "('c \<Rightarrow> 'e list option) \<Rightarrow> ('e list \<Rightarrow> 'c) \<Rightarrow> addr \<Rightarrow> nat \<Rightarrow> 'e \<Rightarrow> 'c heap \<Rightarrow> 'c heap" where
  "set_elem get mk a i e h = put_cell a (mk ((the (Option.bind (Cells h a) get))[i := e])) h"

definition elems :: "('c \<Rightarrow> 'e list option) \<Rightarrow> slice \<Rightarrow> 'c heap \<Rightarrow> 'e list option" where
  "elems get s h = Option.bind (Cells h (sl_Array s)) (\<lambda>c. Option.bind (get c) (\<lambda>xs.
     if sl_Off s + sl_Len s \<le> length xs then Some (take (sl_Len s) (drop (sl_Off s) xs)) else None))"

text \<open>\<open>for i := range in { in[i].DeepCopyInto(&out[i]) }\<close>, from the index \<open>i\<close> on, \<open>n\<close> elements being left.\<close>

fun copy_elems ::
  "('e \<Rightarrow> 'c heap \<Rightarrow> 'e \<times> 'c heap) \<Rightarrow> ('c \<Rightarrow> 'e list option) \<Rightarrow> ('e list \<Rightarrow> 'c) \<Rightarrow> slice \<Rightarrow> addr \<Rightarrow> nat \<Rightarrow> nat \<Rightarrow>
   'c heap \<Rightarrow> 'c heap" where
  "copy_elems cp get mk s out i 0 h = h"
| "copy_elems cp get mk s out i (Suc n) h =
     (case cp (elem_at get (sl_Array s) (sl_Off s + i) h) h of
        (e, h1) \<Rightarrow> copy_elems cp get mk s out (Suc i) n (set_elem get mk out i e h1))"

text \<open>\<open>out = make([]T, len(in))\<close>, and the loop.\<close>

definition copy_slice ::
  "('e \<Rightarrow> 'c heap \<Rightarrow> 'e \<times> 'c heap) \<Rightarrow> ('c \<Rightarrow> 'e list option) \<Rightarrow> ('e list \<Rightarrow> 'c) \<Rightarrow> 'e \<Rightarrow> slice \<Rightarrow>
   'c heap \<Rightarrow> slice \<times> 'c heap" where
  "copy_slice cp get mk zero s h = (case alloc (mk (replicate (sl_Len s) zero)) h of
     (out, h1) \<Rightarrow> (\<lparr>sl_Array = out, sl_Off = 0, sl_Len = sl_Len s\<rparr>, copy_elems cp get mk s out 0 (sl_Len s) h1))"

definition view_slice ::
  "('e \<Rightarrow> 'c heap \<Rightarrow> 'w option) \<Rightarrow> ('c \<Rightarrow> 'e list option) \<Rightarrow> slice \<Rightarrow> 'c heap \<Rightarrow> 'w list option" where
  "view_slice vw get s h = Option.bind (elems get s h) (\<lambda>es. those (map (\<lambda>e. vw e h) es))"

definition foot_slice ::
  "('e \<Rightarrow> 'c heap \<Rightarrow> addr set) \<Rightarrow> ('c \<Rightarrow> 'e list option) \<Rightarrow> slice \<Rightarrow> 'c heap \<Rightarrow> addr set" where
  "foot_slice ft get s h = insert (sl_Array s)
     (\<Union>e\<in>(case elems get s h of None \<Rightarrow> {} | Some es \<Rightarrow> set es). ft e h)"

lemma those_eq_Some: "those xs = Some ys \<longleftrightarrow> list_all2 (\<lambda>x y. x = Some y) xs ys"
  by (induction xs arbitrary: ys) (auto simp: list_all2_Cons1 split: option.splits)

lemma those_nth: "those xs = Some ys \<longleftrightarrow> length ys = length xs \<and> (\<forall>i<length xs. xs ! i = Some (ys ! i))"
  by (auto simp: those_eq_Some list_all2_conv_all_nth)

lemma view_slice_elems:
  assumes "view_slice vw get s h = Some ws"
  obtains es where "elems get s h = Some es" "length es = length ws" "length es = sl_Len s"
    "\<forall>i<length es. vw (es ! i) h = Some (ws ! i)"
  using assms by (auto simp: view_slice_def those_nth elems_def split: Option.bind_splits if_splits)

lemma elem_at_elems:
  "elems get s h = Some es \<Longrightarrow> i < sl_Len s \<Longrightarrow> elem_at get (sl_Array s) (sl_Off s + i) h = es ! i"
  by (auto simp: elems_def elem_at_def split: Option.bind_splits if_splits)

text \<open>
  The loop's invariant: the cell of \<open>out\<close> holds the array, its first \<open>i\<close> elements are copies whose cells
  came after \<open>out\<close>, and nothing that was there before \<open>out\<close> has changed.
\<close>

definition copied ::
  "('e \<Rightarrow> 'c heap \<Rightarrow> 'w option) \<Rightarrow> ('e \<Rightarrow> 'c heap \<Rightarrow> addr set) \<Rightarrow> ('e list \<Rightarrow> 'c) \<Rightarrow> addr \<Rightarrow> 'c heap \<Rightarrow> 'w list \<Rightarrow>
   nat \<Rightarrow> 'c heap \<Rightarrow> bool" where
  "copied vw ft mk out h0 ws i h \<longleftrightarrow> heap_ok h \<and> Next h0 = out \<and> out < Next h \<and> (\<forall>a<out. Cells h a = Cells h0 a)
     \<and> (\<exists>zs. Cells h out = Some (mk zs) \<and> length zs = length ws
        \<and> (\<forall>j<i. vw (zs ! j) h = Some (ws ! j) \<and> ft (zs ! j) h \<subseteq> {Suc out..<Next h}))"

lemma copied_step:
  assumes C: "copier cp vw ft" and gm: "\<And>xs. get (mk xs) = Some xs"
    and inv: "copied vw ft mk out h0 ws i h" and i: "i < length ws"
    and e: "vw e h0 = Some (ws ! i)" and h0: "heap_ok h0" and c: "cp e h = (e', h1)"
  shows "copied vw ft mk out h0 ws (Suc i) (set_elem get mk out i e' h1)"
proof -
  obtain zs where h: "heap_ok h" "Next h0 = out" "out < Next h" "\<forall>a<out. Cells h a = Cells h0 a"
    and zs: "Cells h out = Some (mk zs)" "length zs = length ws"
    and fin: "\<And>j. j < i \<Longrightarrow> vw (zs ! j) h = Some (ws ! j) \<and> ft (zs ! j) h \<subseteq> {Suc out..<Next h}"
    using inv unfolding copied_def by blast
  have "vw e h = Some (ws ! i)"
    using copier.kept_by_growth [OF C h0 e] h by (simp add: grown_def)
  note k = copier.copies [OF C h(1) this c]
  define h2 where "h2 = set_elem get mk out i e' h1"
  have out1: "Cells h1 out = Some (mk zs)" using k h(3) zs(1) by (auto simp: grown_def)
  then have h2: "h2 = put_cell out (mk (zs[i := e'])) h1" by (simp add: h2_def set_elem_def gm)
  have ok2: "heap_ok h2" using k h(3) by (auto simp: h2 grown_def intro!: heap_ok_put_cell)
  have n2: "Next h2 = Next h1" "Next h \<le> Next h1" using k by (auto simp: h2 grown_def)
  have new: "vw e' h2 = Some (ws ! i) \<and> ft e' h2 \<subseteq> {Suc out..<Next h2}"
  proof -
    have "ft e' h1 \<subseteq> {Next h..<Next h1}" using k by blast
    then have fe: "ft e' h1 \<subseteq> {Suc out..<Next h1}" using h(3) by fastforce
    then have "agree (ft e' h1) h1 h2" unfolding h2 by (intro agree_put_cell) auto
    then have "vw e' h2 = Some (ws ! i) \<and> ft e' h2 = ft e' h1"
      using copier.reads_foot [OF C] k by blast
    then show ?thesis using fe n2 by simp
  qed
  have old: "vw (zs ! j) h2 = Some (ws ! j) \<and> ft (zs ! j) h2 \<subseteq> {Suc out..<Next h2}" if "j < i" for j
  proof -
    have "agree (ft (zs ! j) h) h h2" using fin [OF that] k by (fastforce simp: agree_def h2 grown_def)
    then have "vw (zs ! j) h2 = Some (ws ! j) \<and> ft (zs ! j) h2 = ft (zs ! j) h"
      using copier.reads_foot [OF C] fin [OF that] by blast
    then show ?thesis using fin [OF that] n2 by fastforce
  qed
  have "vw (zs[i := e'] ! j) h2 = Some (ws ! j) \<and> ft (zs[i := e'] ! j) h2 \<subseteq> {Suc out..<Next h2}" if "j < Suc i" for j
    using that new old i zs(2) by (cases "j = i") auto
  moreover have "Cells h2 out = Some (mk (zs[i := e']))" by (simp add: h2)
  moreover have "\<forall>a<out. Cells h2 a = Cells h0 a" using h k by (auto simp: h2 grown_def)
  ultimately show ?thesis
    unfolding copied_def h2_def [symmetric] using ok2 n2 h zs(2) by (intro conjI exI [of _ "zs[i := e']"]) auto
qed

lemma copy_elems_copied:
  assumes C: "copier cp vw ft" and gm: "\<And>xs. get (mk xs) = Some xs"
    and h0: "heap_ok h0" "elems get s h0 = Some es" "length es = length ws" "sl_Len s = length ws"
    and es: "\<And>i. i < length ws \<Longrightarrow> vw (es ! i) h0 = Some (ws ! i)"
  shows "copied vw ft mk out h0 ws i h \<Longrightarrow> i + n = length ws \<Longrightarrow>
    copied vw ft mk out h0 ws (length ws) (copy_elems cp get mk s out i n h)"
proof (induction n arbitrary: i h)
  case (Suc n)
  then have i: "i < length ws" by simp
  have "sl_Array s < Next h0"
    using h0(1,2) by (auto simp: elems_def heap_ok_def split: Option.bind_splits)
  then have "elems get s h = elems get s h0"
    using Suc.prems(1) by (auto simp: copied_def elems_def)
  then have at: "elem_at get (sl_Array s) (sl_Off s + i) h = es ! i"
    using h0 i by (intro elem_at_elems) simp_all
  obtain e' h1 where c: "cp (es ! i) h = (e', h1)" by fastforce
  have "copied vw ft mk out h0 ws (Suc i) (set_elem get mk out i e' h1)"
    by (rule copied_step [OF C gm Suc.prems(1) i es [OF i] h0(1) c])
  from Suc.IH [OF this] Suc.prems(2) show ?case by (simp add: at c)
qed simp

lemma copier_slice:
  assumes C: "copier cp vw ft" and gm: "\<And>xs. get (mk xs) = Some xs"
  shows "copier (copy_slice cp get mk zero) (view_slice vw get) (foot_slice ft get)"
proof
  fix s h ws h'
  assume v: "view_slice vw get s h = Some ws" and a: "agree (foot_slice ft get s h) h h'"
  obtain es where es: "elems get s h = Some es" "length es = length ws" "length es = sl_Len s"
    "\<forall>i<length es. vw (es ! i) h = Some (ws ! i)" by (rule view_slice_elems [OF v])
  have e': "elems get s h' = Some es" using a es(1) by (simp add: agree_def foot_slice_def elems_def)
  have k: "vw e h' = vw e h \<and> ft e h' = ft e h" if "e \<in> set es" for e
  proof -
    obtain i where "i < length es" "e = es ! i" using \<open>e \<in> set es\<close> by (auto simp: in_set_conv_nth)
    then have w: "vw e h = Some (ws ! i)" using es(4) by simp
    have "agree (ft e h) h h'" using a that es(1) by (auto simp: foot_slice_def agree_def)
    then show ?thesis using copier.reads_foot [OF C w] w by simp
  qed
  then show "view_slice vw get s h' = Some ws \<and> foot_slice ft get s h' = foot_slice ft get s h"
    using v e' es(1) by (auto simp: view_slice_def foot_slice_def cong: map_cong)
next
  fix s h ws
  assume v: "view_slice vw get s h = Some ws"
  obtain es where es: "elems get s h = Some es" "length es = length ws" "length es = sl_Len s"
    "\<forall>i<length es. vw (es ! i) h = Some (ws ! i)" by (rule view_slice_elems [OF v])
  have "ft e h \<subseteq> dom (Cells h)" if "e \<in> set es" for e
    using that es(4) copier.foot_live [OF C] by (fastforce simp: in_set_conv_nth)
  then show "foot_slice ft get s h \<subseteq> dom (Cells h)"
    using es(1) by (auto simp: foot_slice_def elems_def split: Option.bind_splits)
next
  fix s h ws s' h'
  assume ok: "heap_ok h" and v: "view_slice vw get s h = Some ws" and c: "copy_slice cp get mk zero s h = (s', h')"
  obtain es where es: "elems get s h = Some es" "length es = length ws" "length es = sl_Len s"
    "\<forall>i<length es. vw (es ! i) h = Some (ws ! i)" by (rule view_slice_elems [OF v])
  define h1 where "h1 = snd (alloc (mk (replicate (sl_Len s) zero)) h)"
  have s': "s' = \<lparr>sl_Array = Next h, sl_Off = 0, sl_Len = sl_Len s\<rparr>" and
    h': "h' = copy_elems cp get mk s (Next h) 0 (length ws) h1"
    using c es(2,3) by (auto simp: copy_slice_def h1_def alloc_def)
  have "copied vw ft mk (Next h) h ws 0 h1"
    using grown_alloc [OF ok, of "mk (replicate (sl_Len s) zero)"] es(2,3)
    by (auto simp: copied_def h1_def grown_def)
  from copy_elems_copied [OF C gm ok es(1,2) _ _ this] es
  have inv: "copied vw ft mk (Next h) h ws (length ws) h'" unfolding h' by simp
  then obtain zs where zs: "Cells h' (Next h) = Some (mk zs)" "length zs = length ws"
    "\<And>j. j < length ws \<Longrightarrow> vw (zs ! j) h' = Some (ws ! j) \<and> ft (zs ! j) h' \<subseteq> {Suc (Next h)..<Next h'}"
    unfolding copied_def by blast
  have el: "elems get s' h' = Some zs" using zs(1,2) es(2,3) by (simp add: elems_def s' gm)
  have "ft e h' \<subseteq> {Suc (Next h)..<Next h'}" if "e \<in> set zs" for e
    using zs(2,3) \<open>e \<in> set zs\<close> by (auto simp: in_set_conv_nth)
  then have "(\<Union>e\<in>set zs. ft e h') \<subseteq> {Next h..<Next h'}" by (fastforce dest: Suc_leD)
  moreover have "Next h < Next h'" using inv by (simp add: copied_def)
  ultimately have "foot_slice ft get s' h' \<subseteq> {Next h..<Next h'}" by (simp add: foot_slice_def el) (simp add: s')
  moreover have "view_slice vw get s' h' = Some ws" using zs(2,3) by (simp add: view_slice_def el those_nth)
  moreover have "grown h h'" using inv by (simp add: copied_def grown_def)
  ultimately show "grown h h' \<and> view_slice vw get s' h' = Some ws \<and> foot_slice ft get s' h' \<subseteq> {Next h..<Next h'}"
    by blast
qed

section \<open>Objects behind a pointer\<close>

text \<open>\<open>out := new(T); in.DeepCopyInto(out)\<close>, for the type \<open>T\<close> whose cells \<open>mk\<close> makes and \<open>get\<close> reads.\<close>

definition new_copy ::
  "('t \<Rightarrow> 'c heap \<Rightarrow> 't \<times> 'c heap) \<Rightarrow> ('c \<Rightarrow> 't option) \<Rightarrow> ('t \<Rightarrow> 'c) \<Rightarrow> 't \<Rightarrow> addr \<Rightarrow> 'c heap \<Rightarrow> addr \<times> 'c heap" where
  "new_copy into get mk zero a h = (case alloc (mk zero) h of
     (out, h1) \<Rightarrow> (case into (the (Option.bind (Cells h1 a) get)) h1 of
       (v, h2) \<Rightarrow> (out, put_cell out (mk v) h2)))"

definition view_at :: "('t \<Rightarrow> 'c heap \<Rightarrow> 'w option) \<Rightarrow> ('c \<Rightarrow> 't option) \<Rightarrow> addr \<Rightarrow> 'c heap \<Rightarrow> 'w option" where
  "view_at vw get a h = Option.bind (Option.bind (Cells h a) get) (\<lambda>v. vw v h)"

definition foot_at :: "('t \<Rightarrow> 'c heap \<Rightarrow> addr set) \<Rightarrow> ('c \<Rightarrow> 't option) \<Rightarrow> addr \<Rightarrow> 'c heap \<Rightarrow> addr set" where
  "foot_at ft get a h = insert a (case Option.bind (Cells h a) get of None \<Rightarrow> {} | Some v \<Rightarrow> ft v h)"

lemma view_at_eq_Some:
  "view_at vw get a h = Some w \<longleftrightarrow> (\<exists>c v. Cells h a = Some c \<and> get c = Some v \<and> vw v h = Some w)"
  by (auto simp: view_at_def bind_eq_Some_conv)

lemma copier_at:
  assumes C: "copier into vw ft" and gm: "\<And>v. get (mk v) = Some v"
  shows "copier (new_copy into get mk zero) (view_at vw get) (foot_at ft get)"
proof
  fix a h w h'
  assume "view_at vw get a h = Some w" and ag: "agree (foot_at ft get a h) h h'"
  then obtain c v where c: "Cells h a = Some c" "get c = Some v" and v: "vw v h = Some w"
    by (auto simp: view_at_eq_Some)
  have "Cells h' a = Some c" "agree (ft v h) h h'" using ag c by (auto simp: foot_at_def agree_def)
  then show "view_at vw get a h' = Some w \<and> foot_at ft get a h' = foot_at ft get a h"
    using copier.reads_foot [OF C v, of h'] c by (simp add: foot_at_def view_at_def)
next
  fix a h w
  assume "view_at vw get a h = Some w"
  then obtain c v where c: "Cells h a = Some c" "get c = Some v" and v: "vw v h = Some w"
    by (auto simp: view_at_eq_Some)
  then show "foot_at ft get a h \<subseteq> dom (Cells h)"
    using copier.foot_live [OF C v] by (auto simp: foot_at_def)
next
  fix a h w a' h'
  assume ok: "heap_ok h" and "view_at vw get a h = Some w" and n: "new_copy into get mk zero a h = (a', h')"
  then obtain c v where c: "Cells h a = Some c" "get c = Some v" and v: "vw v h = Some w"
    by (auto simp: view_at_eq_Some)
  define h1 where "h1 = snd (alloc (mk zero) h)"
  have g1: "grown h h1" unfolding h1_def by (rule grown_alloc [OF ok])
  have nx: "Next h1 = Suc (Next h)" by (simp add: h1_def)
  have "a < Next h" using heap_ok_below [OF ok subset_refl, of a] c(1) by (simp add: domI)
  then have c1: "Cells h1 a = Some c" by (simp add: h1_def c(1))
  obtain v' h2 where i: "into v h1 = (v', h2)" by fastforce
  have a': "a' = Next h" and h': "h' = put_cell (Next h) (mk v') h2"
    using n c1 c(2) i by (auto simp: new_copy_def alloc_def h1_def)
  have v1: "vw v h1 = Some w" using copier.kept_by_growth [OF C ok v g1] by simp
  note k = copier.copies [OF C grown_ok [OF g1] v1 i]
  have "agree (ft v' h2) h2 h'" unfolding h' using k nx by (intro agree_put_cell) auto
  then have v2: "vw v' h' = Some w \<and> ft v' h' = ft v' h2" using copier.reads_foot [OF C, of v' h2 w h'] k by blast
  have "grown h h'"
    using g1 k nx by (auto simp: grown_def h' intro!: heap_ok_put_cell)
  moreover have "foot_at ft get a' h' \<subseteq> {Next h..<Next h'}"
  proof -
    have "ft v' h' \<subseteq> {Next h..<Next h'}" using v2 k nx by (auto simp: h')
    moreover have "Next h < Next h'" using k nx by (simp add: h' grown_def)
    ultimately show ?thesis by (simp add: foot_at_def a' h' gm)
  qed
  ultimately show "grown h h' \<and> view_at vw get a' h' = Some w \<and> foot_at ft get a' h' \<subseteq> {Next h..<Next h'}"
    using v2 by (simp add: view_at_def a' h' gm)
qed

end
