(* ===== verification/Deep_Copy.thy ===== *)
theory Deep_Copy
  imports Go_Heap Operator
begin

text \<open>
  The custom resources as they lie in memory (\<open>api/v1alpha1/types.go\<close>) and their deep copies
  (\<open>api/v1alpha1/zz_generated_deepcopy.go\<close>, written by hand), over the heap of \<open>Go_Heap\<close>. A struct is a
  record whose pointers are addresses; a method \<open>DeepCopyInto\<close> takes what \<open>in\<close> points to and gives
  what it leaves in \<open>*out\<close> (no caller copies an object onto itself); \<open>DeepCopy\<close> and \<open>DeepCopyObject\<close>
  take and give pointers. Each copy is a \<open>copier\<close>, proved once the library's copies are: then
  \<open>patchStatus\<close> of the reconciler compares the policy with what it was.
\<close>

section \<open>The types in memory\<close>

record collector_mem =
  cm_Name :: string
  cm_Settings :: "addr option"

record policy_spec_mem =
  sm_Interval :: "addr option"
  sm_Collectors :: "slice option"
  sm_StorePath :: string
  sm_StoreRotateAfter :: "addr option"
  sm_ExportDir :: string
  sm_SigningKeyPath :: string
  sm_Push :: "addr option"

record status_mem =
  tm_ObservedGeneration :: int
  tm_LastRunTime :: "addr option"
  tm_Records :: int
  tm_LastBundle :: string
  tm_LastError :: string

record type_meta =
  ty_Kind :: string
  ty_APIVersion :: string

record 'm policy_mem =
  pm_TypeMeta :: type_meta
  pm_ObjectMeta :: 'm
  pm_Spec :: policy_spec_mem
  pm_Status :: status_mem

record 'l list_mem =
  lm_TypeMeta :: type_meta
  lm_ListMeta :: 'l
  lm_Items :: "slice option"

record report_spec =
  rs_PolicyName :: string
  rs_GeneratedAt :: gotime
  rs_BundlePath :: string
  rs_RecordCount :: int
  rs_Framework :: string

record 'm report_mem =
  rm_TypeMeta :: type_meta
  rm_ObjectMeta :: 'm
  rm_Spec :: report_spec

text \<open>Cells by the type of what they hold; those of the API library's own types are its own.\<close>

datatype ('m, 'l, 'x) cell =
    DurationCell int
  | PushCell push_spec
  | TimeCell gotime
  | CollectorArray "collector_mem list"
  | PolicyCell "'m policy_mem"
  | PolicyArray "'m policy_mem list"
  | PolicyListCell "'l list_mem"
  | ReportCell "'m report_mem"
  | ReportArray "'m report_mem list"
  | ReportListCell "'l list_mem"
  | LibraryCell 'x

type_synonym ('m, 'l, 'x) mem = "('m, 'l, 'x) cell heap"

text \<open>
  The library's part: \<open>RawExtension.DeepCopy\<close>, \<open>ObjectMeta.DeepCopyInto\<close>, \<open>ListMeta.DeepCopyInto\<close>, what
  \<open>Time.DeepCopy\<close> makes of the time, and the zero values of its structs.
\<close>

record ('m, 'l, 'x) machinery =
  mc_Raw :: "addr \<Rightarrow> ('m, 'l, 'x) mem \<Rightarrow> addr \<times> ('m, 'l, 'x) mem"
  mc_Meta :: "'m \<Rightarrow> ('m, 'l, 'x) mem \<Rightarrow> 'm \<times> ('m, 'l, 'x) mem"
  mc_ListMeta :: "'l \<Rightarrow> ('m, 'l, 'x) mem \<Rightarrow> 'l \<times> ('m, 'l, 'x) mem"
  mc_Time :: "gotime \<Rightarrow> gotime"
  mc_Meta0 :: 'm
  mc_ListMeta0 :: 'l

section \<open>The zero values and the projections of the cells\<close>

definition zero_collector :: collector_mem where
  "zero_collector = \<lparr>cm_Name = [], cm_Settings = None\<rparr>"

definition zero_spec :: policy_spec_mem where
  "zero_spec = \<lparr>sm_Interval = None, sm_Collectors = None, sm_StorePath = [], sm_StoreRotateAfter = None,
     sm_ExportDir = [], sm_SigningKeyPath = [], sm_Push = None\<rparr>"

definition zero_status :: status_mem where
  "zero_status = \<lparr>tm_ObservedGeneration = 0, tm_LastRunTime = None, tm_Records = 0, tm_LastBundle = [], tm_LastError = []\<rparr>"

definition zero_type :: type_meta where
  "zero_type = \<lparr>ty_Kind = [], ty_APIVersion = []\<rparr>"

definition zero_policy :: "('m, 'l, 'x) machinery \<Rightarrow> 'm policy_mem" where
  "zero_policy M = \<lparr>pm_TypeMeta = zero_type, pm_ObjectMeta = mc_Meta0 M, pm_Spec = zero_spec, pm_Status = zero_status\<rparr>"

definition zero_list :: "('m, 'l, 'x) machinery \<Rightarrow> 'l list_mem" where
  "zero_list M = \<lparr>lm_TypeMeta = zero_type, lm_ListMeta = mc_ListMeta0 M, lm_Items = None\<rparr>"

definition zero_report :: "('m, 'l, 'x) machinery \<Rightarrow> 'm report_mem" where
  "zero_report M = \<lparr>rm_TypeMeta = zero_type, rm_ObjectMeta = mc_Meta0 M,
     rm_Spec = \<lparr>rs_PolicyName = [], rs_GeneratedAt = zero_time, rs_BundlePath = [], rs_RecordCount = 0, rs_Framework = []\<rparr>\<rparr>"

fun duration_in :: "('m, 'l, 'x) cell \<Rightarrow> int option" where
  "duration_in (DurationCell d) = Some d" | "duration_in c = None"

fun push_in :: "('m, 'l, 'x) cell \<Rightarrow> push_spec option" where
  "push_in (PushCell p) = Some p" | "push_in c = None"

fun time_in :: "('m, 'l, 'x) cell \<Rightarrow> gotime option" where
  "time_in (TimeCell t) = Some t" | "time_in c = None"

fun collectors_in :: "('m, 'l, 'x) cell \<Rightarrow> collector_mem list option" where
  "collectors_in (CollectorArray cs) = Some cs" | "collectors_in c = None"

fun policy_in :: "('m, 'l, 'x) cell \<Rightarrow> 'm policy_mem option" where
  "policy_in (PolicyCell p) = Some p" | "policy_in c = None"

fun policies_in :: "('m, 'l, 'x) cell \<Rightarrow> 'm policy_mem list option" where
  "policies_in (PolicyArray ps) = Some ps" | "policies_in c = None"

fun policy_list_in :: "('m, 'l, 'x) cell \<Rightarrow> 'l list_mem option" where
  "policy_list_in (PolicyListCell l) = Some l" | "policy_list_in c = None"

fun report_in :: "('m, 'l, 'x) cell \<Rightarrow> 'm report_mem option" where
  "report_in (ReportCell p) = Some p" | "report_in c = None"

fun reports_in :: "('m, 'l, 'x) cell \<Rightarrow> 'm report_mem list option" where
  "reports_in (ReportArray ps) = Some ps" | "reports_in c = None"

fun report_list_in :: "('m, 'l, 'x) cell \<Rightarrow> 'l list_mem option" where
  "report_list_in (ReportListCell l) = Some l" | "report_list_in c = None"

section \<open>DeepCopyInto\<close>

definition Collector_DeepCopyInto ::
  "('m, 'l, 'x) machinery \<Rightarrow> collector_mem \<Rightarrow> ('m, 'l, 'x) mem \<Rightarrow> collector_mem \<times> ('m, 'l, 'x) mem" where
  "Collector_DeepCopyInto M c h = (case copy_opt (mc_Raw M) (cm_Settings c) h of
     (settings, h1) \<Rightarrow> (c\<lparr>cm_Settings := settings\<rparr>, h1))"

definition Spec_DeepCopyInto ::
  "('m, 'l, 'x) machinery \<Rightarrow> policy_spec_mem \<Rightarrow> ('m, 'l, 'x) mem \<Rightarrow> policy_spec_mem \<times> ('m, 'l, 'x) mem" where
  "Spec_DeepCopyInto M s h = (case copy_opt copy_cell (sm_Interval s) h of
     (interval, h1) \<Rightarrow> (case copy_opt copy_cell (sm_StoreRotateAfter s) h1 of
     (age, h2) \<Rightarrow> (case copy_opt (copy_slice (Collector_DeepCopyInto M) collectors_in CollectorArray zero_collector)
         (sm_Collectors s) h2 of
     (cs, h3) \<Rightarrow> (case copy_opt copy_cell (sm_Push s) h3 of
     (push, h4) \<Rightarrow> (s\<lparr>sm_Interval := interval, sm_StoreRotateAfter := age, sm_Collectors := cs, sm_Push := push\<rparr>, h4)))))"

text \<open>\<open>Time.DeepCopy\<close>: a fresh cell.\<close>

definition Time_DeepCopy ::
  "('m, 'l, 'x) machinery \<Rightarrow> addr \<Rightarrow> ('m, 'l, 'x) mem \<Rightarrow> addr \<times> ('m, 'l, 'x) mem" where
  "Time_DeepCopy M a h = alloc (TimeCell (mc_Time M (the (Option.bind (Cells h a) time_in)))) h"

definition Status_DeepCopyInto ::
  "('m, 'l, 'x) machinery \<Rightarrow> status_mem \<Rightarrow> ('m, 'l, 'x) mem \<Rightarrow> status_mem \<times> ('m, 'l, 'x) mem" where
  "Status_DeepCopyInto M s h = (case copy_opt (Time_DeepCopy M) (tm_LastRunTime s) h of
     (t, h1) \<Rightarrow> (s\<lparr>tm_LastRunTime := t\<rparr>, h1))"

definition Policy_DeepCopyInto ::
  "('m, 'l, 'x) machinery \<Rightarrow> 'm policy_mem \<Rightarrow> ('m, 'l, 'x) mem \<Rightarrow> 'm policy_mem \<times> ('m, 'l, 'x) mem" where
  "Policy_DeepCopyInto M p h = (case mc_Meta M (pm_ObjectMeta p) h of
     (m, h1) \<Rightarrow> (case Spec_DeepCopyInto M (pm_Spec p) h1 of
     (s, h2) \<Rightarrow> (case Status_DeepCopyInto M (pm_Status p) h2 of
     (st, h3) \<Rightarrow> (p\<lparr>pm_ObjectMeta := m, pm_Spec := s, pm_Status := st\<rparr>, h3))))"

definition PolicyList_DeepCopyInto ::
  "('m, 'l, 'x) machinery \<Rightarrow> 'l list_mem \<Rightarrow> ('m, 'l, 'x) mem \<Rightarrow> 'l list_mem \<times> ('m, 'l, 'x) mem" where
  "PolicyList_DeepCopyInto M l h = (case mc_ListMeta M (lm_ListMeta l) h of
     (m, h1) \<Rightarrow> (case copy_opt (copy_slice (Policy_DeepCopyInto M) policies_in PolicyArray (zero_policy M)) (lm_Items l) h1 of
     (ps, h2) \<Rightarrow> (l\<lparr>lm_ListMeta := m, lm_Items := ps\<rparr>, h2)))"

text \<open>The copied time is read back at once: its cell is garbage.\<close>

definition ReportSpec_DeepCopyInto ::
  "('m, 'l, 'x) machinery \<Rightarrow> report_spec \<Rightarrow> ('m, 'l, 'x) mem \<Rightarrow> report_spec \<times> ('m, 'l, 'x) mem" where
  "ReportSpec_DeepCopyInto M s h = (case alloc (TimeCell (mc_Time M (rs_GeneratedAt s))) h of
     (a, h1) \<Rightarrow> (s\<lparr>rs_GeneratedAt := the (Option.bind (Cells h1 a) time_in)\<rparr>, h1))"

definition Report_DeepCopyInto ::
  "('m, 'l, 'x) machinery \<Rightarrow> 'm report_mem \<Rightarrow> ('m, 'l, 'x) mem \<Rightarrow> 'm report_mem \<times> ('m, 'l, 'x) mem" where
  "Report_DeepCopyInto M p h = (case mc_Meta M (rm_ObjectMeta p) h of
     (m, h1) \<Rightarrow> (case ReportSpec_DeepCopyInto M (rm_Spec p) h1 of
     (s, h2) \<Rightarrow> (p\<lparr>rm_ObjectMeta := m, rm_Spec := s\<rparr>, h2)))"

definition ReportList_DeepCopyInto ::
  "('m, 'l, 'x) machinery \<Rightarrow> 'l list_mem \<Rightarrow> ('m, 'l, 'x) mem \<Rightarrow> 'l list_mem \<times> ('m, 'l, 'x) mem" where
  "ReportList_DeepCopyInto M l h = (case mc_ListMeta M (lm_ListMeta l) h of
     (m, h1) \<Rightarrow> (case copy_opt (copy_slice (Report_DeepCopyInto M) reports_in ReportArray (zero_report M)) (lm_Items l) h1 of
     (ps, h2) \<Rightarrow> (l\<lparr>lm_ListMeta := m, lm_Items := ps\<rparr>, h2)))"

section \<open>DeepCopy and DeepCopyObject\<close>

definition Policy_DeepCopy ::
  "('m, 'l, 'x) machinery \<Rightarrow> addr option \<Rightarrow> ('m, 'l, 'x) mem \<Rightarrow> addr option \<times> ('m, 'l, 'x) mem" where
  "Policy_DeepCopy M p h = (case p of
     None \<Rightarrow> (None, h)
   | Some a \<Rightarrow> (case new_copy (Policy_DeepCopyInto M) policy_in PolicyCell (zero_policy M) a h of (out, h') \<Rightarrow> (Some out, h')))"

definition Report_DeepCopy ::
  "('m, 'l, 'x) machinery \<Rightarrow> addr option \<Rightarrow> ('m, 'l, 'x) mem \<Rightarrow> addr option \<times> ('m, 'l, 'x) mem" where
  "Report_DeepCopy M p h = (case p of
     None \<Rightarrow> (None, h)
   | Some a \<Rightarrow> (case new_copy (Report_DeepCopyInto M) report_in ReportCell (zero_report M) a h of (out, h') \<Rightarrow> (Some out, h')))"

text \<open>A \<open>runtime.Object\<close>: nothing, or a pointer (which may be nil) with its type.\<close>

datatype object =
    NilObject
  | PolicyObject "addr option"
  | PolicyListObject "addr option"
  | ReportObject "addr option"
  | ReportListObject "addr option"

definition Policy_DeepCopyObject ::
  "('m, 'l, 'x) machinery \<Rightarrow> addr option \<Rightarrow> ('m, 'l, 'x) mem \<Rightarrow> object \<times> ('m, 'l, 'x) mem" where
  "Policy_DeepCopyObject M p h = (case Policy_DeepCopy M p h of (q, h') \<Rightarrow> (PolicyObject q, h'))"

definition PolicyList_DeepCopyObject ::
  "('m, 'l, 'x) machinery \<Rightarrow> addr option \<Rightarrow> ('m, 'l, 'x) mem \<Rightarrow> object \<times> ('m, 'l, 'x) mem" where
  "PolicyList_DeepCopyObject M p h = (case p of
     None \<Rightarrow> (NilObject, h)
   | Some a \<Rightarrow> (case new_copy (PolicyList_DeepCopyInto M) policy_list_in PolicyListCell (zero_list M) a h of
       (out, h') \<Rightarrow> (PolicyListObject (Some out), h')))"

definition Report_DeepCopyObject ::
  "('m, 'l, 'x) machinery \<Rightarrow> addr option \<Rightarrow> ('m, 'l, 'x) mem \<Rightarrow> object \<times> ('m, 'l, 'x) mem" where
  "Report_DeepCopyObject M p h = (case Report_DeepCopy M p h of (q, h') \<Rightarrow> (ReportObject q, h'))"

definition ReportList_DeepCopyObject ::
  "('m, 'l, 'x) machinery \<Rightarrow> addr option \<Rightarrow> ('m, 'l, 'x) mem \<Rightarrow> object \<times> ('m, 'l, 'x) mem" where
  "ReportList_DeepCopyObject M p h = (case p of
     None \<Rightarrow> (NilObject, h)
   | Some a \<Rightarrow> (case new_copy (ReportList_DeepCopyInto M) report_list_in ReportListCell (zero_list M) a h of
       (out, h') \<Rightarrow> (ReportListObject (Some out), h')))"

text \<open>The method of the interface: that of the pointer's type (nothing has no methods).\<close>

definition DeepCopyObject ::
  "('m, 'l, 'x) machinery \<Rightarrow> object \<Rightarrow> ('m, 'l, 'x) mem \<Rightarrow> object \<times> ('m, 'l, 'x) mem" where
  "DeepCopyObject M ob h = (case ob of
     NilObject \<Rightarrow> (NilObject, h)
   | PolicyObject p \<Rightarrow> Policy_DeepCopyObject M p h
   | PolicyListObject p \<Rightarrow> PolicyList_DeepCopyObject M p h
   | ReportObject p \<Rightarrow> Report_DeepCopyObject M p h
   | ReportListObject p \<Rightarrow> ReportList_DeepCopyObject M p h)"

text \<open>A nil policy or report becomes an object that is not nil, a nil list does not.\<close>

lemma nil_DeepCopyObject:
  "Policy_DeepCopyObject M None h = (PolicyObject None, h)" "PolicyObject None \<noteq> NilObject"
  "Report_DeepCopyObject M None h = (ReportObject None, h)" "ReportObject None \<noteq> NilObject"
  "PolicyList_DeepCopyObject M None h = (NilObject, h)" "ReportList_DeepCopyObject M None h = (NilObject, h)"
  by (simp_all add: Policy_DeepCopyObject_def Report_DeepCopyObject_def PolicyList_DeepCopyObject_def
      ReportList_DeepCopyObject_def Policy_DeepCopy_def Report_DeepCopy_def)

section \<open>What the memory denotes\<close>

text \<open>
  The values are those the operator works with; of the library's types, what their views give.
  A nil slice and an empty one denote the same.
\<close>

record ('m, 'l, 'x, 'n, 'k) views =
  vi_Raw :: "addr \<Rightarrow> ('m, 'l, 'x) mem \<Rightarrow> bytes option"
  vi_RawFoot :: "addr \<Rightarrow> ('m, 'l, 'x) mem \<Rightarrow> addr set"
  vi_Meta :: "'m \<Rightarrow> ('m, 'l, 'x) mem \<Rightarrow> 'n option"
  vi_MetaFoot :: "'m \<Rightarrow> ('m, 'l, 'x) mem \<Rightarrow> addr set"
  vi_ListMeta :: "'l \<Rightarrow> ('m, 'l, 'x) mem \<Rightarrow> 'k option"
  vi_ListMetaFoot :: "'l \<Rightarrow> ('m, 'l, 'x) mem \<Rightarrow> addr set"

record 'n policy_val =
  pv_TypeMeta :: type_meta
  pv_ObjectMeta :: 'n
  pv_Spec :: policy_spec
  pv_Status :: policy_status

record 'n report_val =
  rv_TypeMeta :: type_meta
  rv_ObjectMeta :: 'n
  rv_Spec :: report_spec

record ('k, 'v) list_val =
  lv_TypeMeta :: type_meta
  lv_ListMeta :: 'k
  lv_Items :: "'v list"

definition items_of :: "'v list option \<Rightarrow> 'v list" where
  "items_of x = (case x of None \<Rightarrow> [] | Some vs \<Rightarrow> vs)"

definition view_collector ::
  "('m, 'l, 'x, 'n, 'k) views \<Rightarrow> collector_mem \<Rightarrow> ('m, 'l, 'x) mem \<Rightarrow> collector_spec option" where
  "view_collector V c h = map_option (\<lambda>b. \<lparr>cs_Name = cm_Name c, cs_Settings = b\<rparr>) (view_opt (vi_Raw V) (cm_Settings c) h)"

definition foot_collector :: "('m, 'l, 'x, 'n, 'k) views \<Rightarrow> collector_mem \<Rightarrow> ('m, 'l, 'x) mem \<Rightarrow> addr set" where
  "foot_collector V c h = foot_opt (vi_RawFoot V) (cm_Settings c) h"

text \<open>The pointers of the spec, in the order in which they are copied.\<close>

definition spec_pointers :: "policy_spec_mem \<Rightarrow> addr option \<times> addr option \<times> slice option \<times> addr option" where
  "spec_pointers s = (sm_Interval s, sm_StoreRotateAfter s, sm_Collectors s, sm_Push s)"

definition with_pointers ::
  "policy_spec_mem \<Rightarrow> addr option \<times> addr option \<times> slice option \<times> addr option \<Rightarrow> policy_spec_mem" where
  "with_pointers s x = (case x of (i, r, c, p) \<Rightarrow>
     s\<lparr>sm_Interval := i, sm_StoreRotateAfter := r, sm_Collectors := c, sm_Push := p\<rparr>)"

definition spec_value ::
  "policy_spec_mem \<Rightarrow> int option \<times> int option \<times> collector_spec list option \<times> push_spec option \<Rightarrow> policy_spec" where
  "spec_value s x = (case x of (i, r, c, p) \<Rightarrow>
     \<lparr>ps_Interval = i, ps_Collectors = items_of c, ps_StorePath = sm_StorePath s, ps_StoreRotateAfter = r,
      ps_ExportDir = sm_ExportDir s, ps_SigningKeyPath = sm_SigningKeyPath s, ps_Push = p\<rparr>)"

definition view_spec ::
  "('m, 'l, 'x, 'n, 'k) views \<Rightarrow> policy_spec_mem \<Rightarrow> ('m, 'l, 'x) mem \<Rightarrow> policy_spec option" where
  "view_spec V s h = map_option (spec_value s)
     (view_pair (view_opt (view_cell duration_in)) (view_pair (view_opt (view_cell duration_in))
       (view_pair (view_opt (view_slice (view_collector V) collectors_in)) (view_opt (view_cell push_in))))
       (spec_pointers s) h)"

definition foot_spec :: "('m, 'l, 'x, 'n, 'k) views \<Rightarrow> policy_spec_mem \<Rightarrow> ('m, 'l, 'x) mem \<Rightarrow> addr set" where
  "foot_spec V s h = foot_pair (foot_opt foot_cell) (foot_pair (foot_opt foot_cell)
     (foot_pair (foot_opt (foot_slice (foot_collector V) collectors_in)) (foot_opt foot_cell))) (spec_pointers s) h"

definition view_status :: "status_mem \<Rightarrow> ('m, 'l, 'x) mem \<Rightarrow> policy_status option" where
  "view_status s h = map_option (\<lambda>t. \<lparr>st_ObservedGeneration = tm_ObservedGeneration s, st_LastRunTime = t,
     st_Records = tm_Records s, st_LastBundle = tm_LastBundle s, st_LastError = tm_LastError s\<rparr>)
     (view_opt (view_cell time_in) (tm_LastRunTime s) h)"

definition foot_status :: "status_mem \<Rightarrow> ('m, 'l, 'x) mem \<Rightarrow> addr set" where
  "foot_status s h = foot_opt foot_cell (tm_LastRunTime s) h"

definition view_policy ::
  "('m, 'l, 'x, 'n, 'k) views \<Rightarrow> 'm policy_mem \<Rightarrow> ('m, 'l, 'x) mem \<Rightarrow> 'n policy_val option" where
  "view_policy V p h = map_option
     (\<lambda>(m, s, st). \<lparr>pv_TypeMeta = pm_TypeMeta p, pv_ObjectMeta = m, pv_Spec = s, pv_Status = st\<rparr>)
     (view_pair (vi_Meta V) (view_pair (view_spec V) view_status) (pm_ObjectMeta p, pm_Spec p, pm_Status p) h)"

definition foot_policy :: "('m, 'l, 'x, 'n, 'k) views \<Rightarrow> 'm policy_mem \<Rightarrow> ('m, 'l, 'x) mem \<Rightarrow> addr set" where
  "foot_policy V p h = foot_pair (vi_MetaFoot V) (foot_pair (foot_spec V) foot_status)
     (pm_ObjectMeta p, pm_Spec p, pm_Status p) h"

definition view_list ::
  "('m, 'l, 'x, 'n, 'k) views \<Rightarrow> ('e \<Rightarrow> ('m, 'l, 'x) mem \<Rightarrow> 'v option) \<Rightarrow> (('m, 'l, 'x) cell \<Rightarrow> 'e list option) \<Rightarrow>
   'l list_mem \<Rightarrow> ('m, 'l, 'x) mem \<Rightarrow> ('k, 'v) list_val option" where
  "view_list V vw get l h = map_option
     (\<lambda>(m, vs). \<lparr>lv_TypeMeta = lm_TypeMeta l, lv_ListMeta = m, lv_Items = items_of vs\<rparr>)
     (view_pair (vi_ListMeta V) (view_opt (view_slice vw get)) (lm_ListMeta l, lm_Items l) h)"

definition foot_list ::
  "('m, 'l, 'x, 'n, 'k) views \<Rightarrow> ('e \<Rightarrow> ('m, 'l, 'x) mem \<Rightarrow> addr set) \<Rightarrow> (('m, 'l, 'x) cell \<Rightarrow> 'e list option) \<Rightarrow>
   'l list_mem \<Rightarrow> ('m, 'l, 'x) mem \<Rightarrow> addr set" where
  "foot_list V ft get l h = foot_pair (vi_ListMetaFoot V) (foot_opt (foot_slice ft get)) (lm_ListMeta l, lm_Items l) h"

definition view_report ::
  "('m, 'l, 'x, 'n, 'k) views \<Rightarrow> 'm report_mem \<Rightarrow> ('m, 'l, 'x) mem \<Rightarrow> 'n report_val option" where
  "view_report V p h = map_option
     (\<lambda>m. \<lparr>rv_TypeMeta = rm_TypeMeta p, rv_ObjectMeta = m, rv_Spec = rm_Spec p\<rparr>) (vi_Meta V (rm_ObjectMeta p) h)"

definition foot_report :: "('m, 'l, 'x, 'n, 'k) views \<Rightarrow> 'm report_mem \<Rightarrow> ('m, 'l, 'x) mem \<Rightarrow> addr set" where
  "foot_report V p h = vi_MetaFoot V (rm_ObjectMeta p) h"

datatype ('n, 'k) object_val =
    PolicyVal "'n policy_val"
  | PolicyListVal "('k, 'n policy_val) list_val"
  | ReportVal "'n report_val"
  | ReportListVal "('k, 'n report_val) list_val"

definition view_object ::
  "('m, 'l, 'x, 'n, 'k) views \<Rightarrow> object \<Rightarrow> ('m, 'l, 'x) mem \<Rightarrow> ('n, 'k) object_val option" where
  "view_object V ob h = (case ob of
     PolicyObject (Some a) \<Rightarrow> map_option PolicyVal (view_at (view_policy V) policy_in a h)
   | PolicyListObject (Some a) \<Rightarrow> map_option PolicyListVal (view_at (view_list V (view_policy V) policies_in) policy_list_in a h)
   | ReportObject (Some a) \<Rightarrow> map_option ReportVal (view_at (view_report V) report_in a h)
   | ReportListObject (Some a) \<Rightarrow> map_option ReportListVal (view_at (view_list V (view_report V) reports_in) report_list_in a h)
   | _ \<Rightarrow> None)"

definition foot_object :: "('m, 'l, 'x, 'n, 'k) views \<Rightarrow> object \<Rightarrow> ('m, 'l, 'x) mem \<Rightarrow> addr set" where
  "foot_object V ob h = (case ob of
     PolicyObject (Some a) \<Rightarrow> foot_at (foot_policy V) policy_in a h
   | PolicyListObject (Some a) \<Rightarrow> foot_at (foot_list V (foot_policy V) policies_in) policy_list_in a h
   | ReportObject (Some a) \<Rightarrow> foot_at (foot_report V) report_in a h
   | ReportListObject (Some a) \<Rightarrow> foot_at (foot_list V (foot_report V) reports_in) report_list_in a h
   | _ \<Rightarrow> {})"

section \<open>Every copy keeps the contract\<close>

text \<open>
  What is asked of the library: its copies keep the contract (as its documentation says of
  \<open>DeepCopy\<close>), a time is its own copy, and its objects lie in cells of its own.
\<close>

locale api_machinery =
  raw: copier "mc_Raw M" "vi_Raw V" "vi_RawFoot V" +
  meta: copier "mc_Meta M" "vi_Meta V" "vi_MetaFoot V" +
  list_meta: copier "mc_ListMeta M" "vi_ListMeta V" "vi_ListMetaFoot V"
  for M :: "('m, 'l, 'x) machinery" and V :: "('m, 'l, 'x, 'n, 'k) views" +
  assumes time_copied: "mc_Time M t = t"
    and raw_own: "vi_Raw V a h = Some b \<Longrightarrow> x \<in> vi_RawFoot V a h \<Longrightarrow> \<exists>l. Cells h x = Some (LibraryCell l)"
    and meta_own: "vi_Meta V m h = Some n \<Longrightarrow> x \<in> vi_MetaFoot V m h \<Longrightarrow> \<exists>l. Cells h x = Some (LibraryCell l)"
begin

lemma Time_copier: "copier (Time_DeepCopy M) (view_cell time_in) foot_cell"
proof (rule copier_cong [OF copier_cell])
  fix a and h :: "('m, 'l, 'x) mem" and t
  assume "view_cell time_in a h = Some t"
  then obtain c where c: "Cells h a = Some c" "time_in c = Some t" by (auto simp: view_cell_def bind_eq_Some_conv)
  then have "c = TimeCell t" by (cases c) auto
  then show "Time_DeepCopy M a h = copy_cell a h" using c by (simp add: Time_DeepCopy_def copy_cell_def time_copied)
qed

lemma Collector_copier: "copier (Collector_DeepCopyInto M) (view_collector V) (foot_collector V)"
  by (rule copier_struct [OF copier_opt [OF raw.copier_axioms], where part = cm_Settings
      and upd = "\<lambda>c s. c\<lparr>cm_Settings := s\<rparr>" and whole = "\<lambda>c b. \<lparr>cs_Name = cm_Name c, cs_Settings = b\<rparr>"])
     (simp_all add: Collector_DeepCopyInto_def view_collector_def foot_collector_def)

lemma Collectors_copier:
  "copier (copy_slice (Collector_DeepCopyInto M) collectors_in CollectorArray zero_collector)
     (view_slice (view_collector V) collectors_in) (foot_slice (foot_collector V) collectors_in)"
  by (rule copier_slice [OF Collector_copier]) simp

lemma Spec_copier: "copier (Spec_DeepCopyInto M) (view_spec V) (foot_spec V)"
  by (rule copier_struct [OF copier_pair [OF copier_opt [OF copier_cell] copier_pair [OF copier_opt [OF copier_cell]
      copier_pair [OF copier_opt [OF Collectors_copier] copier_opt [OF copier_cell]]]],
      where part = spec_pointers and upd = with_pointers and whole = spec_value])
     (auto simp: Spec_DeepCopyInto_def copy_pair_def view_spec_def foot_spec_def spec_pointers_def with_pointers_def
        spec_value_def split: prod.split)

lemma Status_copier: "copier (Status_DeepCopyInto M) view_status foot_status"
  by (rule copier_struct [OF copier_opt [OF Time_copier], where part = tm_LastRunTime
      and upd = "\<lambda>s t. s\<lparr>tm_LastRunTime := t\<rparr>" and whole = "\<lambda>s t. \<lparr>st_ObservedGeneration = tm_ObservedGeneration s,
        st_LastRunTime = t, st_Records = tm_Records s, st_LastBundle = tm_LastBundle s, st_LastError = tm_LastError s\<rparr>"])
     (simp_all add: Status_DeepCopyInto_def view_status_def foot_status_def)

lemma Policy_copier: "copier (Policy_DeepCopyInto M) (view_policy V) (foot_policy V)"
  by (rule copier_struct [OF copier_pair [OF meta.copier_axioms copier_pair [OF Spec_copier Status_copier]],
      where part = "\<lambda>p. (pm_ObjectMeta p, pm_Spec p, pm_Status p)"
      and upd = "\<lambda>p (m, s, st). p\<lparr>pm_ObjectMeta := m, pm_Spec := s, pm_Status := st\<rparr>"
      and whole = "\<lambda>p (m, s, st). \<lparr>pv_TypeMeta = pm_TypeMeta p, pv_ObjectMeta = m, pv_Spec = s, pv_Status = st\<rparr>"])
     (auto simp: Policy_DeepCopyInto_def copy_pair_def view_policy_def foot_policy_def split: prod.split)

lemma list_copier:
  assumes "copier cp vw ft" "\<And>xs. get (mk xs) = Some xs"
    and "\<And>l h. into l h = (case mc_ListMeta M (lm_ListMeta l) h of
     (m, h1) \<Rightarrow> (case copy_opt (copy_slice cp get mk zero) (lm_Items l) h1 of
     (ps, h2) \<Rightarrow> (l\<lparr>lm_ListMeta := m, lm_Items := ps\<rparr>, h2)))"
  shows "copier into (view_list V vw get) (foot_list V ft get)"
  by (rule copier_struct [OF copier_pair [OF list_meta.copier_axioms copier_opt [OF copier_slice [OF assms(1,2), where zero = zero]]],
      where part = "\<lambda>l. (lm_ListMeta l, lm_Items l)" and upd = "\<lambda>l (m, ps). l\<lparr>lm_ListMeta := m, lm_Items := ps\<rparr>"
      and whole = "\<lambda>l (m, vs). \<lparr>lv_TypeMeta = lm_TypeMeta l, lv_ListMeta = m, lv_Items = items_of vs\<rparr>"])
     (auto simp: assms(3) copy_pair_def view_list_def foot_list_def split: prod.split)

lemma Report_copier: "copier (Report_DeepCopyInto M) (view_report V) (foot_report V)"
proof (unfold_locales, goal_cases)
  case (1 p h v h')
  then obtain m where m: "vi_Meta V (rm_ObjectMeta p) h = Some m" by (auto simp: view_report_def)
  show ?case using 1 meta.reads_foot [OF m, of h'] m by (simp add: view_report_def foot_report_def)
next
  case (2 p h v)
  then obtain m where m: "vi_Meta V (rm_ObjectMeta p) h = Some m" by (auto simp: view_report_def)
  show ?case using meta.foot_live [OF m] by (simp add: foot_report_def)
next
  case (3 h p v q h')
  then obtain m where m: "vi_Meta V (rm_ObjectMeta p) h = Some m" by (auto simp: view_report_def)
  obtain m' h1 where c: "mc_Meta M (rm_ObjectMeta p) h = (m', h1)" by fastforce
  note k = meta.copies [OF 3(1) m c]
  have q: "q = p\<lparr>rm_ObjectMeta := m'\<rparr>" and h': "h' = snd (alloc (TimeCell (rs_GeneratedAt (rm_Spec p))) h1)"
    using 3(3) c by (auto simp: Report_DeepCopyInto_def ReportSpec_DeepCopyInto_def alloc_def time_copied)
  have g: "grown h1 h'" unfolding h' using k by (intro grown_alloc) (simp add: grown_def)
  have "vi_Meta V m' h' = Some m \<and> vi_MetaFoot V m' h' = vi_MetaFoot V m' h1"
    using meta.kept_by_growth [OF _ _ g] k by (simp add: grown_def)
  then show ?case
    using k g 3(2) m grown_trans [of h h1 h'] grown_Next [OF g] by (auto simp: view_report_def foot_report_def q)
qed

end

sublocale api_machinery \<subseteq> policy: copier "Policy_DeepCopyInto M" "view_policy V" "foot_policy V"
  by (rule Policy_copier)

sublocale api_machinery \<subseteq> policy_pointer: copier "new_copy (Policy_DeepCopyInto M) policy_in PolicyCell (zero_policy M)"
  "view_at (view_policy V) policy_in" "foot_at (foot_policy V) policy_in"
  by (rule copier_at [OF Policy_copier]) simp

sublocale api_machinery \<subseteq> policy_list: copier "PolicyList_DeepCopyInto M"
  "view_list V (view_policy V) policies_in" "foot_list V (foot_policy V) policies_in"
  by (rule list_copier [OF Policy_copier]) (simp_all add: PolicyList_DeepCopyInto_def)

sublocale api_machinery \<subseteq> policy_list_pointer: copier
  "new_copy (PolicyList_DeepCopyInto M) policy_list_in PolicyListCell (zero_list M)"
  "view_at (view_list V (view_policy V) policies_in) policy_list_in"
  "foot_at (foot_list V (foot_policy V) policies_in) policy_list_in"
  by (rule copier_at [OF policy_list.copier_axioms]) simp

sublocale api_machinery \<subseteq> report: copier "Report_DeepCopyInto M" "view_report V" "foot_report V"
  by (rule Report_copier)

sublocale api_machinery \<subseteq> report_pointer: copier "new_copy (Report_DeepCopyInto M) report_in ReportCell (zero_report M)"
  "view_at (view_report V) report_in" "foot_at (foot_report V) report_in"
  by (rule copier_at [OF Report_copier]) simp

sublocale api_machinery \<subseteq> report_list: copier "ReportList_DeepCopyInto M"
  "view_list V (view_report V) reports_in" "foot_list V (foot_report V) reports_in"
  by (rule list_copier [OF Report_copier]) (simp_all add: ReportList_DeepCopyInto_def)

sublocale api_machinery \<subseteq> report_list_pointer: copier
  "new_copy (ReportList_DeepCopyInto M) report_list_in ReportListCell (zero_list M)"
  "view_at (view_list V (view_report V) reports_in) report_list_in"
  "foot_at (foot_list V (foot_report V) reports_in) report_list_in"
  by (rule copier_at [OF report_list.copier_axioms]) simp

context api_machinery
begin

lemma DeepCopyObject_cases:
  assumes "view_object V ob h = Some w"
  obtains (policy) a v where "ob = PolicyObject (Some a)" "view_at (view_policy V) policy_in a h = Some v" "w = PolicyVal v"
  | (policies) a v where "ob = PolicyListObject (Some a)"
      "view_at (view_list V (view_policy V) policies_in) policy_list_in a h = Some v" "w = PolicyListVal v"
  | (report) a v where "ob = ReportObject (Some a)" "view_at (view_report V) report_in a h = Some v" "w = ReportVal v"
  | (reports) a v where "ob = ReportListObject (Some a)"
      "view_at (view_list V (view_report V) reports_in) report_list_in a h = Some v" "w = ReportListVal v"
  using assms by (auto simp: view_object_def split: object.splits option.splits)

lemma Object_copier: "copier (DeepCopyObject M) (view_object V) (foot_object V)"
proof (unfold_locales, goal_cases)
  case (1 ob h w h')
  from 1(1) show ?case
  proof (cases rule: DeepCopyObject_cases)
    case (policy a v)
    with policy_pointer.reads_foot [OF policy(2)] 1(2) show ?thesis by (simp add: view_object_def foot_object_def)
  next
    case (policies a v)
    with policy_list_pointer.reads_foot [OF policies(2)] 1(2) show ?thesis by (simp add: view_object_def foot_object_def)
  next
    case (report a v)
    with report_pointer.reads_foot [OF report(2)] 1(2) show ?thesis by (simp add: view_object_def foot_object_def)
  next
    case (reports a v)
    with report_list_pointer.reads_foot [OF reports(2)] 1(2) show ?thesis by (simp add: view_object_def foot_object_def)
  qed
next
  case (2 ob h w)
  from 2 show ?case
  proof (cases rule: DeepCopyObject_cases)
    case (policy a v)
    with policy_pointer.foot_live [OF policy(2)] show ?thesis by (simp add: foot_object_def)
  next
    case (policies a v)
    with policy_list_pointer.foot_live [OF policies(2)] show ?thesis by (simp add: foot_object_def)
  next
    case (report a v)
    with report_pointer.foot_live [OF report(2)] show ?thesis by (simp add: foot_object_def)
  next
    case (reports a v)
    with report_list_pointer.foot_live [OF reports(2)] show ?thesis by (simp add: foot_object_def)
  qed
next
  case (3 h ob w ob' h')
  note copying = 3(3) [unfolded DeepCopyObject_def Policy_DeepCopyObject_def PolicyList_DeepCopyObject_def
      Report_DeepCopyObject_def ReportList_DeepCopyObject_def Policy_DeepCopy_def Report_DeepCopy_def]
  from 3(2) show ?case
  proof (cases rule: DeepCopyObject_cases)
    case (policy a v)
    then obtain b where b: "new_copy (Policy_DeepCopyInto M) policy_in PolicyCell (zero_policy M) a h = (b, h')"
      "ob' = PolicyObject (Some b)" using copying by (auto split: prod.splits)
    from policy_pointer.copies [OF 3(1) policy(2) b(1)] show ?thesis
      by (simp add: view_object_def foot_object_def b(2) policy(3))
  next
    case (policies a v)
    then obtain b where b: "new_copy (PolicyList_DeepCopyInto M) policy_list_in PolicyListCell (zero_list M) a h = (b, h')"
      "ob' = PolicyListObject (Some b)" using copying by (auto split: prod.splits)
    from policy_list_pointer.copies [OF 3(1) policies(2) b(1)] show ?thesis
      by (simp add: view_object_def foot_object_def b(2) policies(3))
  next
    case (report a v)
    then obtain b where b: "new_copy (Report_DeepCopyInto M) report_in ReportCell (zero_report M) a h = (b, h')"
      "ob' = ReportObject (Some b)" using copying by (auto split: prod.splits)
    from report_pointer.copies [OF 3(1) report(2) b(1)] show ?thesis
      by (simp add: view_object_def foot_object_def b(2) report(3))
  next
    case (reports a v)
    then obtain b where b: "new_copy (ReportList_DeepCopyInto M) report_list_in ReportListCell (zero_list M) a h = (b, h')"
      "ob' = ReportListObject (Some b)" using copying by (auto split: prod.splits)
    from report_list_pointer.copies [OF 3(1) reports(2) b(1)] show ?thesis
      by (simp add: view_object_def foot_object_def b(2) reports(3))
  qed
qed

end

sublocale api_machinery \<subseteq> object: copier "DeepCopyObject M" "view_object V" "foot_object V"
  by (rule Object_copier)

section \<open>No pointer of a policy leads to a policy\<close>

lemma foot_opt_cell:
  "view_opt (view_cell val) p h = Some w \<Longrightarrow> x \<in> foot_opt foot_cell p h \<Longrightarrow> \<exists>c u. Cells h x = Some c \<and> val c = Some u"
  by (cases p) (auto simp: view_opt_def view_cell_def foot_opt_def foot_cell_def bind_eq_Some_conv)

lemma duration_in_policy: "duration_in c = Some u \<Longrightarrow> policy_in c = None"
  by (cases c) auto

lemma push_in_policy: "push_in c = Some u \<Longrightarrow> policy_in c = None"
  by (cases c) auto

lemma time_in_policy: "time_in c = Some u \<Longrightarrow> policy_in c = None"
  by (cases c) auto

lemma collectors_in_policy: "collectors_in c = Some u \<Longrightarrow> policy_in c = None"
  by (cases c) auto

context api_machinery
begin

lemma foot_collector_cells:
  assumes "view_collector V c h = Some w" "x \<in> foot_collector V c h"
  shows "\<exists>l. Cells h x = Some (LibraryCell l)"
  using assms raw_own [of "the (cm_Settings c)" h _ x]
  by (cases "cm_Settings c") (auto simp: view_collector_def foot_collector_def view_opt_def foot_opt_def)

lemma foot_collectors_cells:
  assumes "view_opt (view_slice (view_collector V) collectors_in) s h = Some w"
    "x \<in> foot_opt (foot_slice (foot_collector V) collectors_in) s h"
  shows "\<exists>c. Cells h x = Some c \<and> policy_in c = None"
proof (cases s)
  case (Some sl)
  then obtain ws where v: "view_slice (view_collector V) collectors_in sl h = Some ws"
    using assms(1) by (auto simp: view_opt_def)
  obtain es where es: "elems collectors_in sl h = Some es" "length es = length ws" "length es = sl_Len sl"
    "\<forall>i<length es. view_collector V (es ! i) h = Some (ws ! i)" by (rule view_slice_elems [OF v])
  consider "x = sl_Array sl" | i where "i < length es" "x \<in> foot_collector V (es ! i) h"
    using assms(2) Some es(1) by (auto simp: foot_opt_def foot_slice_def in_set_conv_nth)
  then show ?thesis
  proof cases
    case 1
    with es(1) show ?thesis by (auto simp: elems_def bind_eq_Some_conv collectors_in_policy)
  next
    case 2
    with es(4) foot_collector_cells show ?thesis by fastforce
  qed
qed (use assms in \<open>simp add: foot_opt_def\<close>)

lemma foot_spec_cells:
  assumes "view_spec V s h = Some w" "x \<in> foot_spec V s h"
  shows "\<exists>c. Cells h x = Some c \<and> policy_in c = None"
proof -
  obtain i a cs p where v: "view_opt (view_cell duration_in) (sm_Interval s) h = Some i"
    "view_opt (view_cell duration_in) (sm_StoreRotateAfter s) h = Some a"
    "view_opt (view_slice (view_collector V) collectors_in) (sm_Collectors s) h = Some cs"
    "view_opt (view_cell push_in) (sm_Push s) h = Some p"
    using assms(1) by (auto simp: view_spec_def spec_pointers_def)
  consider "x \<in> foot_opt foot_cell (sm_Interval s) h" | "x \<in> foot_opt foot_cell (sm_StoreRotateAfter s) h"
    | "x \<in> foot_opt (foot_slice (foot_collector V) collectors_in) (sm_Collectors s) h" | "x \<in> foot_opt foot_cell (sm_Push s) h"
    using assms(2) by (auto simp: foot_spec_def spec_pointers_def foot_pair_def)
  then show ?thesis
    by cases (use foot_opt_cell [OF v(1)] foot_opt_cell [OF v(2)] foot_collectors_cells [OF v(3)] foot_opt_cell [OF v(4)]
      duration_in_policy push_in_policy in blast)+
qed

lemma foot_status_cells:
  assumes "view_status s h = Some w" "x \<in> foot_status s h"
  shows "\<exists>c. Cells h x = Some c \<and> policy_in c = None"
proof -
  obtain t where "view_opt (view_cell time_in) (tm_LastRunTime s) h = Some t" using assms(1) by (auto simp: view_status_def)
  from foot_opt_cell [OF this] assms(2) time_in_policy show ?thesis unfolding foot_status_def by blast
qed

end

end
