(* ===== verification/Status_Patch.thy ===== *)
theory Status_Patch
  imports Deep_Copy
begin

text \<open>
  The reconciler's \<open>patchStatus\<close> on memory: the policy is deep-copied, then its status is changed in
  place, and the two are handed to the client, which sends their difference. What is proved is
  that the copy still denotes the policy as it was read, so that the difference is the status: the
  by-value patches of \<open>Operator\<close> are what the code sends. Then a library that satisfies what is asked
  of it, over concrete cells.
\<close>

section \<open>patchStatus\<close>

text \<open>What the reconciler's closures do to the status: on failure, and after a cycle.\<close>

definition set_failure :: "error \<Rightarrow> int \<Rightarrow> status_mem \<Rightarrow> ('m, 'l, 'x) mem \<Rightarrow> status_mem \<times> ('m, 'l, 'x) mem" where
  "set_failure e generation s h = (s\<lparr>tm_LastError := error_text e, tm_ObservedGeneration := generation\<rparr>, h)"

definition set_success ::
  "error option \<Rightarrow> int \<Rightarrow> gotime \<Rightarrow> nat \<Rightarrow> path \<Rightarrow> status_mem \<Rightarrow> ('m, 'l, 'x) mem \<Rightarrow> status_mem \<times> ('m, 'l, 'x) mem" where
  "set_success push_err generation now k dir s h = (case alloc (TimeCell now) h of
     (a, h1) \<Rightarrow> (s\<lparr>tm_LastError := (case push_err of None \<Rightarrow> [] | Some e \<Rightarrow> error_text e), tm_ObservedGeneration := generation,
       tm_LastRunTime := Some a, tm_Records := int k, tm_LastBundle := dir\<rparr>, h1))"

text \<open>The base that the patch is computed from, and the memory in which it is.\<close>

definition patchStatus ::
  "('m, 'l, 'x) machinery \<Rightarrow> (status_mem \<Rightarrow> ('m, 'l, 'x) mem \<Rightarrow> status_mem \<times> ('m, 'l, 'x) mem) \<Rightarrow> addr \<Rightarrow>
   ('m, 'l, 'x) mem \<Rightarrow> addr option \<times> ('m, 'l, 'x) mem" where
  "patchStatus M mutate p h = (case Policy_DeepCopy M (Some p) h of
     (base, h1) \<Rightarrow> (let q = the (Option.bind (Cells h1 p) policy_in) in case mutate (pm_Status q) h1 of
       (st, h2) \<Rightarrow> (base, put_cell p (PolicyCell (q\<lparr>pm_Status := st\<rparr>)) h2)))"

text \<open>A policy as the operator's by-value model has it.\<close>

definition policy_of :: "('n \<Rightarrow> string) \<Rightarrow> ('n \<Rightarrow> int) \<Rightarrow> 'n policy_val \<Rightarrow> policy" where
  "policy_of name generation v = \<lparr>po_Name = name (pv_ObjectMeta v), po_Generation = generation (pv_ObjectMeta v),
     po_Spec = pv_Spec v, po_Status = pv_Status v\<rparr>"

definition mutates ::
  "(status_mem \<Rightarrow> ('m, 'l, 'x) mem \<Rightarrow> status_mem \<times> ('m, 'l, 'x) mem) \<Rightarrow> (policy_status \<Rightarrow> policy_status) \<Rightarrow> bool" where
  "mutates f g \<longleftrightarrow> (\<forall>s h w s' h'. heap_ok h \<longrightarrow> view_status s h = Some w \<longrightarrow> f s h = (s', h') \<longrightarrow>
     grown h h' \<and> view_status s' h' = Some (g w))"

lemma mutates_failure: "mutates (set_failure e n) (\<lambda>st. st\<lparr>st_LastError := error_text e, st_ObservedGeneration := n\<rparr>)"
  by (auto simp: mutates_def set_failure_def view_status_def grown_refl)

lemma mutates_success: "mutates (set_success pe n now k dir :: status_mem \<Rightarrow> ('m, 'l, 'x) mem \<Rightarrow> _) (\<lambda>st. st\<lparr>st_LastError :=
   (case pe of None \<Rightarrow> [] | Some e \<Rightarrow> error_text e), st_ObservedGeneration := n, st_LastRunTime := Some now,
   st_Records := int k, st_LastBundle := dir\<rparr>)"
proof -
  have "view_opt (view_cell time_in) (Some (Next h)) (snd (alloc (TimeCell now) h)) = Some (Some now)" for h :: "('m, 'l, 'x) mem"
    by (simp add: view_opt_def view_cell_def)
  moreover have "set_success pe n now k dir s h = (s\<lparr>tm_LastError := (case pe of None \<Rightarrow> [] | Some e \<Rightarrow> error_text e),
      tm_ObservedGeneration := n, tm_LastRunTime := Some (Next h), tm_Records := int k, tm_LastBundle := dir\<rparr>,
      snd (alloc (TimeCell now) h))" for s and h :: "('m, 'l, 'x) mem"
    by (simp add: set_success_def alloc_def)
  ultimately show ?thesis by (auto simp: mutates_def view_status_def grown_alloc)
qed

context api_machinery
begin

lemma view_policy_parts:
  "view_policy V q h = Some v \<longleftrightarrow> vi_Meta V (pm_ObjectMeta q) h = Some (pv_ObjectMeta v) \<and>
     view_spec V (pm_Spec q) h = Some (pv_Spec v) \<and> view_status (pm_Status q) h = Some (pv_Status v) \<and> pm_TypeMeta q = pv_TypeMeta v"
proof -
  have "view_pair (vi_Meta V) (view_pair (view_spec V) view_status) (pm_ObjectMeta q, pm_Spec q, pm_Status q) h
      = Some (pv_ObjectMeta v, pv_Spec v, pv_Status v)"
    if "view_policy V q h = Some v"
    using that by (auto simp: view_policy_def)
  then show ?thesis by (auto simp: view_policy_def)
qed

lemma view_policy_set_status:
  assumes "heap_ok h" "view_policy V q h = Some v" "grown h h'" "view_status st h' = Some w" "policy_in c \<noteq> None"
    "p < Next h" "Cells h p = Some c"
  shows "view_policy V (q\<lparr>pm_Status := st\<rparr>) (put_cell p d h') = Some (v\<lparr>pv_Status := w\<rparr>)"
proof -
  note v = assms(2) [unfolded view_policy_parts]
  have p: "Cells h' p = Some c" using assms(3,6,7) by (simp add: grown_def)
  have m: "vi_Meta V (pm_ObjectMeta q) h' = Some (pv_ObjectMeta v)" using meta.kept_by_growth [OF assms(1) _ assms(3)] v by blast
  have s: "view_spec V (pm_Spec q) h' = Some (pv_Spec v)" using copier.kept_by_growth [OF Spec_copier assms(1) _ assms(3)] v by blast
  have "p \<notin> vi_MetaFoot V (pm_ObjectMeta q) h'" using meta_own [OF m, of p] p assms(5) by auto
  then have 1: "vi_Meta V (pm_ObjectMeta q) (put_cell p d h') = Some (pv_ObjectMeta v)"
    by (rule meta.kept_by_put [OF m])
  have "p \<notin> foot_spec V (pm_Spec q) h'" using foot_spec_cells [OF s, of p] p assms(5) by auto
  then have 2: "view_spec V (pm_Spec q) (put_cell p d h') = Some (pv_Spec v)"
    by (rule copier.kept_by_put [OF Spec_copier s])
  have "p \<notin> foot_status st h'" using foot_status_cells [OF assms(4), of p] p assms(5) by auto
  then have 3: "view_status st (put_cell p d h') = Some w"
    by (rule copier.kept_by_put [OF Status_copier assms(4)])
  show ?thesis using 1 2 3 v by (simp add: view_policy_parts)
qed

text \<open>The base denotes the policy that was read, the policy denotes it with the new status, and nothing else is written.\<close>

lemma patchStatus_views:
  assumes ok: "heap_ok h" and v: "view_at (view_policy V) policy_in p h = Some v" and f: "mutates f g"
    and run: "patchStatus M f p h = (base, h')"
  shows "\<exists>b. base = Some b \<and> Next h \<le> b \<and> view_at (view_policy V) policy_in b h' = Some v
    \<and> view_at (view_policy V) policy_in p h' = Some (v\<lparr>pv_Status := g (pv_Status v)\<rparr>)
    \<and> heap_ok h' \<and> (\<forall>a<Next h. a \<noteq> p \<longrightarrow> Cells h' a = Cells h a)"
proof -
  obtain c q where c: "Cells h p = Some c" "policy_in c = Some q" "view_policy V q h = Some v"
    using v by (auto simp: view_at_eq_Some)
  have p: "p < Next h" using heap_ok_below [OF ok subset_refl, of p] c(1) by (simp add: domI)
  obtain b h1 where n: "new_copy (Policy_DeepCopyInto M) policy_in PolicyCell (zero_policy M) p h = (b, h1)" by fastforce
  note k = policy_pointer.copies [OF ok v n]
  have ok1: "heap_ok h1" using k by (simp add: grown_def)
  have c1: "Cells h1 p = Some c" using k c(1) p by (simp add: grown_def)
  have q1: "view_policy V q h1 = Some v" using policy.kept_by_growth [OF ok c(3)] k by blast
  obtain st h2 where m: "f (pm_Status q) h1 = (st, h2)" by fastforce
  have "view_status (pm_Status q) h1 = Some (pv_Status v)" using q1 by (simp add: view_policy_parts)
  then have g: "grown h1 h2 \<and> view_status st h2 = Some (g (pv_Status v))" using f ok1 m unfolding mutates_def by blast
  have r: "base = Some b" "h' = put_cell p (PolicyCell (q\<lparr>pm_Status := st\<rparr>)) h2"
    using run n m c1 c(2) by (simp_all add: patchStatus_def Policy_DeepCopy_def Let_def)
  have b: "Next h \<le> b" "b < Next h1" using k by (auto simp: foot_at_def)
  have p1: "p < Next h1" using p k by (simp add: grown_def)
  have 1: "view_at (view_policy V) policy_in p h' = Some (v\<lparr>pv_Status := g (pv_Status v)\<rparr>)"
    using view_policy_set_status [OF ok1 q1 _ _ _ p1 c1, of h2 st] g c(2) by (simp add: view_at_eq_Some r(2))
  have vb: "view_at (view_policy V) policy_in b h2 = Some v \<and> foot_at (foot_policy V) policy_in b h2 = foot_at (foot_policy V) policy_in b h1"
    using policy_pointer.kept_by_growth [OF ok1] k g by blast
  then have "p \<notin> foot_at (foot_policy V) policy_in b h2" using k p by auto
  then have 2: "view_at (view_policy V) policy_in b h' = Some v"
    using policy_pointer.kept_by_put vb unfolding r(2) by simp
  have "p < Next h2" using p1 g by (simp add: grown_def)
  then have "heap_ok h'" using g unfolding r(2) by (intro heap_ok_put_cell) (simp add: grown_def)
  moreover have "\<forall>a<Next h. a \<noteq> p \<longrightarrow> Cells h' a = Cells h a" using k g by (auto simp: r(2) grown_def)
  ultimately show ?thesis using 1 2 r(1) b(1) by blast
qed

end

section \<open>A library over concrete cells\<close>

text \<open>
  The library's types, cut down to a pointer each: raw bytes behind a slice, a map of labels in the
  metadata, the remaining count in that of a list.
\<close>

datatype lib_cell = RawCell "addr option" | BytesCell bytes | LabelsCell "(string \<times> string) list" | CountCell int

record object_meta =
  mo_Name :: string
  mo_Generation :: int
  mo_Labels :: "addr option"

record list_meta =
  ml_ResourceVersion :: string
  ml_Remaining :: "addr option"

type_synonym lib_mem = "(object_meta, list_meta, lib_cell) mem"

fun raw_in :: "('m, 'l, lib_cell) cell \<Rightarrow> addr option option" where
  "raw_in (LibraryCell (RawCell p)) = Some p" | "raw_in c = None"

fun bytes_in :: "('m, 'l, lib_cell) cell \<Rightarrow> bytes option" where
  "bytes_in (LibraryCell (BytesCell b)) = Some b" | "bytes_in c = None"

fun labels_in :: "('m, 'l, lib_cell) cell \<Rightarrow> (string \<times> string) list option" where
  "labels_in (LibraryCell (LabelsCell b)) = Some b" | "labels_in c = None"

fun count_in :: "('m, 'l, lib_cell) cell \<Rightarrow> int option" where
  "count_in (LibraryCell (CountCell n)) = Some n" | "count_in c = None"

definition lib_machinery :: "(object_meta, list_meta, lib_cell) machinery" where
  "lib_machinery = \<lparr>
     mc_Raw = new_copy (copy_opt copy_cell) raw_in (\<lambda>p. LibraryCell (RawCell p)) None,
     mc_Meta = (\<lambda>m h. case copy_opt copy_cell (mo_Labels m) h of (p, h1) \<Rightarrow> (m\<lparr>mo_Labels := p\<rparr>, h1)),
     mc_ListMeta = (\<lambda>m h. case copy_opt copy_cell (ml_Remaining m) h of (p, h1) \<Rightarrow> (m\<lparr>ml_Remaining := p\<rparr>, h1)),
     mc_Time = (\<lambda>t. t),
     mc_Meta0 = \<lparr>mo_Name = [], mo_Generation = 0, mo_Labels = None\<rparr>,
     mc_ListMeta0 = \<lparr>ml_ResourceVersion = [], ml_Remaining = None\<rparr>\<rparr>"

definition raw_bytes :: "addr option \<Rightarrow> lib_mem \<Rightarrow> bytes option" where
  "raw_bytes p h = map_option (\<lambda>b. case b of None \<Rightarrow> [] | Some bs \<Rightarrow> bs) (view_opt (view_cell bytes_in) p h)"

definition meta_value :: "object_meta \<Rightarrow> lib_mem \<Rightarrow> (string \<times> int \<times> (string \<times> string) list option) option" where
  "meta_value m h = map_option (\<lambda>ls. (mo_Name m, mo_Generation m, ls)) (view_opt (view_cell labels_in) (mo_Labels m) h)"

definition list_meta_value :: "list_meta \<Rightarrow> lib_mem \<Rightarrow> (string \<times> int option) option" where
  "list_meta_value m h = map_option (\<lambda>n. (ml_ResourceVersion m, n)) (view_opt (view_cell count_in) (ml_Remaining m) h)"

definition lib_views ::
  "(object_meta, list_meta, lib_cell, string \<times> int \<times> (string \<times> string) list option, string \<times> int option) views" where
  "lib_views = \<lparr>vi_Raw = view_at raw_bytes raw_in, vi_RawFoot = foot_at (foot_opt foot_cell) raw_in,
     vi_Meta = meta_value, vi_MetaFoot = (\<lambda>m. foot_opt foot_cell (mo_Labels m)),
     vi_ListMeta = list_meta_value, vi_ListMetaFoot = (\<lambda>m. foot_opt foot_cell (ml_Remaining m))\<rparr>"

lemma raw_in_library: "raw_in c = Some p \<Longrightarrow> \<exists>l. c = LibraryCell l"
  by (cases c rule: raw_in.cases) auto

lemma bytes_in_library: "bytes_in c = Some p \<Longrightarrow> \<exists>l. c = LibraryCell l"
  by (cases c rule: bytes_in.cases) auto

lemma labels_in_library: "labels_in c = Some p \<Longrightarrow> \<exists>l. c = LibraryCell l"
  by (cases c rule: labels_in.cases) auto

lemma lib_Raw_copier: "copier (mc_Raw lib_machinery) (vi_Raw lib_views) (vi_RawFoot lib_views)"
proof -
  have "copier (copy_opt copy_cell) raw_bytes (foot_opt foot_cell)"
    by (rule copier_struct [OF copier_opt [OF copier_cell], where part = "\<lambda>p. p" and upd = "\<lambda>p q. q"
        and whole = "\<lambda>p b. case b of None \<Rightarrow> [] | Some bs \<Rightarrow> bs"]) (simp_all add: raw_bytes_def split: prod.split)
  from copier_at [OF this, of raw_in "\<lambda>p. LibraryCell (RawCell p)" None] show ?thesis
    by (simp add: lib_machinery_def lib_views_def)
qed

lemma lib_Meta_copier: "copier (mc_Meta lib_machinery) (vi_Meta lib_views) (vi_MetaFoot lib_views)"
  by (rule copier_struct [OF copier_opt [OF copier_cell], where part = mo_Labels and upd = "\<lambda>m p. m\<lparr>mo_Labels := p\<rparr>"
      and whole = "\<lambda>m ls. (mo_Name m, mo_Generation m, ls)"])
     (simp_all add: lib_machinery_def lib_views_def meta_value_def split: prod.split)

lemma lib_ListMeta_copier: "copier (mc_ListMeta lib_machinery) (vi_ListMeta lib_views) (vi_ListMetaFoot lib_views)"
  by (rule copier_struct [OF copier_opt [OF copier_cell], where part = ml_Remaining and upd = "\<lambda>m p. m\<lparr>ml_Remaining := p\<rparr>"
      and whole = "\<lambda>m n. (ml_ResourceVersion m, n)"])
     (simp_all add: lib_machinery_def lib_views_def list_meta_value_def split: prod.split)

lemma lib_Raw_own:
  assumes "vi_Raw lib_views a h = Some b" "x \<in> vi_RawFoot lib_views a h"
  shows "\<exists>l. Cells h x = Some (LibraryCell l)"
proof -
  obtain c p where c: "Cells h a = Some c" "raw_in c = Some p" and b: "raw_bytes p h = Some b"
    using assms(1) by (auto simp: lib_views_def view_at_eq_Some)
  consider "x = a" | "x \<in> foot_opt foot_cell p h" using assms(2) c by (auto simp: lib_views_def foot_at_def)
  then show ?thesis
  proof cases
    case 1
    with c raw_in_library show ?thesis by auto
  next
    case 2
    obtain w where "view_opt (view_cell bytes_in) p h = Some w" using b by (auto simp: raw_bytes_def)
    from foot_opt_cell [OF this 2] bytes_in_library show ?thesis by auto
  qed
qed

lemma lib_Meta_own:
  assumes "vi_Meta lib_views m h = Some n" "x \<in> vi_MetaFoot lib_views m h"
  shows "\<exists>l. Cells h x = Some (LibraryCell l)"
proof -
  obtain w where "view_opt (view_cell labels_in) (mo_Labels m) h = Some w"
    using assms(1) by (auto simp: lib_views_def meta_value_def)
  from foot_opt_cell [OF this, of x] labels_in_library assms(2) show ?thesis by (auto simp: lib_views_def)
qed

lemma lib_api_machinery: "api_machinery lib_machinery lib_views"
  by (intro api_machinery.intro api_machinery_axioms.intro lib_Raw_copier lib_Meta_copier lib_ListMeta_copier)
     (simp_all add: lib_machinery_def lib_Raw_own lib_Meta_own)

interpretation lib: api_machinery lib_machinery lib_views
  by (rule lib_api_machinery)

end
