(* ===== verification/Operator_Manager.thy ===== *)
theory Operator_Manager
  imports Operator
begin

text \<open>
  How the operator starts (\<open>internal/shells/operator/operator.go\<close>), what it registers
  (\<open>api/v1alpha1/groupversion.go\<close>, \<open>SetupWithManager\<close>), and how often it then runs: the requests the
  manager hands to the reconciler come from events that pass the controller's predicate and from
  the times at which earlier results asked to be called again. The controller library is a
  parameter; what is relied on of it is said where it is used.
\<close>

section \<open>The scheme\<close>

record group_version =
  gv_Group :: string
  gv_Version :: string

definition GroupVersion :: group_version where
  "GroupVersion = \<lparr>gv_Group = ''evidenced.io'', gv_Version = ''v1alpha1''\<rparr>"

definition known_types :: "string list" where
  "known_types = [''EvidencePolicy'', ''EvidencePolicyList'', ''EvidenceReport'', ''EvidenceReportList'']"

text \<open>The controller that \<open>SetupWithManager\<close> asks for.\<close>

datatype predicate = GenerationChangedPredicate

record ('y, 'k) controller =
  ctr_For :: string
  ctr_Predicates :: "predicate list"
  ctr_Named :: string
  ctr_Factories :: "'y factories"
  ctr_Reconciler :: "('y, 'k) reconciler"

record 's manager_options =
  mo_Scheme :: 's
  mo_MetricsBindAddress :: string
  mo_HealthProbeBindAddress :: string
  mo_LeaderElection :: bool
  mo_LeaderElectionID :: string

text \<open>
  The libraries: zap's flags, the schemes, the configuration of the cluster (without one
  \<open>GetConfigOrDie\<close> ends the process), managers and what is added to them, and the error with which a
  manager stops.
\<close>

record ('y, 'k, 's, 'r, 'm) controller_lib =
  ct_ZapFlags :: "(string \<times> flag_kind) list"
  ct_NewScheme :: 's
  ct_AddClientGo :: "'s \<Rightarrow> 's result"
  ct_AddKnownTypes :: "group_version \<Rightarrow> string list \<Rightarrow> 's \<Rightarrow> 's"
  ct_AddToGroupVersion :: "group_version \<Rightarrow> 's \<Rightarrow> 's"
  ct_GetConfig :: "'r option"
  ct_NewManager :: "'r \<Rightarrow> 's manager_options \<Rightarrow> 'm result"
  ct_ManagerConfig :: "'m \<Rightarrow> 'r"
  ct_Complete :: "('y, 'k) controller \<Rightarrow> 'm \<Rightarrow> 'm result"
  ct_AddHealthz :: "string \<Rightarrow> 'm \<Rightarrow> 'm result"
  ct_AddReadyz :: "string \<Rightarrow> 'm \<Rightarrow> 'm result"
  ct_Start :: "'m \<Rightarrow> error option"

definition addKnownTypes :: "('y, 'k, 's, 'r, 'm) controller_lib \<Rightarrow> 's \<Rightarrow> 's result" where
  "addKnownTypes C s = Inr (ct_AddToGroupVersion C GroupVersion (ct_AddKnownTypes C GroupVersion known_types s))"

definition policy_controller :: "'y factories \<Rightarrow> ('y, 'k) reconciler \<Rightarrow> ('y, 'k) controller" where
  "policy_controller fs r = \<lparr>ctr_For = ''EvidencePolicy'', ctr_Predicates = [GenerationChangedPredicate],
     ctr_Named = ''evidencepolicy'', ctr_Factories = fs, ctr_Reconciler = r\<rparr>"

definition SetupWithManager ::
  "('y, 'k, 's, 'r, 'm) controller_lib \<Rightarrow> 'y factories \<Rightarrow> ('y, 'k) reconciler \<Rightarrow> 'm \<Rightarrow> 'm result" where
  "SetupWithManager C fs r m = ct_Complete C (policy_controller fs r) m"

section \<open>Run\<close>

definition operator_flags :: "(string \<times> flag_kind) list" where
  "operator_flags = [(''metrics-bind-address'', StringFlag), (''health-probe-bind-address'', StringFlag),
     (''leader-elect'', BoolFlag)]"

text \<open>Run ends the process, returns an error before the manager starts, or starts it and returns what it stops with.\<close>

datatype 'm run_end = ProcessExit | Refused error | Served 'm "error option"

definition run_result :: "'m result \<Rightarrow> ('m \<Rightarrow> 'n run_end) \<Rightarrow> 'n run_end" where
  "run_result r f = (case r of Inl e \<Rightarrow> Refused e | Inr m \<Rightarrow> f m)"

definition operator_options :: "(string \<times> string) list \<Rightarrow> 's \<Rightarrow> 's manager_options" where
  "operator_options vs s = \<lparr>mo_Scheme = s,
     mo_MetricsBindAddress = string_flag ''metrics-bind-address'' '':8080'' vs,
     mo_HealthProbeBindAddress = string_flag ''health-probe-bind-address'' '':8081'' vs,
     mo_LeaderElection = bool_flag ''leader-elect'' vs, mo_LeaderElectionID = ''evidenced.io''\<rparr>"

definition operator_Run ::
  "('y, 'k, 's, 'r, 'm) controller_lib \<Rightarrow> ('r \<Rightarrow> unit result) \<Rightarrow> ('r \<Rightarrow> unit result) \<Rightarrow> 'y platform \<Rightarrow> os \<Rightarrow>
   string list \<Rightarrow> 'm run_end" where
  "operator_Run C clientset dyn P w args =
     run_result (parse_flags (operator_flags @ ct_ZapFlags C) [] args) (\<lambda>(vs, rest).
     run_result (wrap ''register client-go scheme: %w'' [] (ct_AddClientGo C (ct_NewScheme C))) (\<lambda>s1.
     run_result (wrap ''register evidenced scheme: %w'' [] (addKnownTypes C s1)) (\<lambda>s2.
     case ct_GetConfig C of
       None \<Rightarrow> ProcessExit
     | Some rest_config \<Rightarrow>
         run_result (wrap ''create manager: %w'' [] (ct_NewManager C rest_config (operator_options vs s2))) (\<lambda>m.
         run_result (KubeFactories clientset dyn P (ct_ManagerConfig C m)) (\<lambda>fs.
         run_result (wrap ''setup EvidencePolicy controller: %w'' [] (SetupWithManager C fs (new_reconciler w) m)) (\<lambda>m1.
         run_result (ct_AddHealthz C ''healthz'' m1) (\<lambda>m2.
         run_result (ct_AddReadyz C ''readyz'' m2) (\<lambda>m3.
         Served m3 (ct_Start C m3)))))))))"

lemma run_result_Served:
  "run_result r f = Served m e \<longleftrightarrow> (\<exists>x. r = Inr x \<and> f x = Served m e)"
  by (cases r) (simp_all add: run_result_def)

lemma operator_Run_served:
  assumes "operator_Run C clientset dyn P w args = Served m e"
  obtains vs rest s rc m0 m1 m2 where
    "parse_flags (operator_flags @ ct_ZapFlags C) [] args = Inr (vs, rest)"
    "ct_AddClientGo C (ct_NewScheme C) = Inr s" "ct_GetConfig C = Some rc"
    "ct_NewManager C rc (operator_options vs
       (ct_AddToGroupVersion C GroupVersion (ct_AddKnownTypes C GroupVersion known_types s))) = Inr m0"
    "SetupWithManager C (kube_factories P) (new_reconciler w) m0 = Inr m1"
    "ct_AddHealthz C ''healthz'' m1 = Inr m2" "ct_AddReadyz C ''readyz'' m2 = Inr m" "e = ct_Start C m"
  using assms unfolding operator_Run_def run_result_Served KubeFactories_def bindr_eq_Inr wrap_simps addKnownTypes_def
  by (auto simp: run_result_Served KubeFactories_def bindr_eq_Inr split: option.splits prod.splits)

text \<open>
  What a library is relied on for: a manager keeps the controller that was completed on it, under
  whatever is added to it afterwards.
\<close>

definition keeps_controller ::
  "('y, 'k, 's, 'r, 'm) controller_lib \<Rightarrow> ('m \<Rightarrow> ('y, 'k) controller option) \<Rightarrow> bool" where
  "keeps_controller C controller_of \<longleftrightarrow> (\<forall>m m'. (\<forall>ctr. ct_Complete C ctr m = Inr m' \<longrightarrow> controller_of m' = Some ctr)
     \<and> (\<forall>n. ct_AddHealthz C n m = Inr m' \<longrightarrow> controller_of m' = controller_of m)
     \<and> (\<forall>n. ct_AddReadyz C n m = Inr m' \<longrightarrow> controller_of m' = controller_of m))"

lemma served_controller:
  assumes "operator_Run C clientset dyn P w args = Served m e" "keeps_controller C controller_of"
  shows "controller_of m = Some (policy_controller (kube_factories P) (new_reconciler w))"
proof -
  obtain m0 m1 m2 where "SetupWithManager C (kube_factories P) (new_reconciler w) m0 = Inr m1"
    "ct_AddHealthz C ''healthz'' m1 = Inr m2" "ct_AddReadyz C ''readyz'' m2 = Inr m"
    using operator_Run_served [OF assms(1)] by metis
  with assms(2) show ?thesis unfolding keeps_controller_def SetupWithManager_def by metis
qed

section \<open>Events\<close>

text \<open>
  What the watch on policies reports; nothing else is watched. A controller takes the events that all
  of its predicates let pass; what a predicate is, is the library's. \<open>GenerationChangedPredicate\<close> is
  documented to skip updates that leave the generation as it is, and to let the rest pass.
\<close>

datatype event = Created policy | Updated policy policy | Deleted policy

fun event_name :: "event \<Rightarrow> string" where
  "event_name (Created p) = po_Name p"
| "event_name (Updated old new) = po_Name new"
| "event_name (Deleted p) = po_Name p"

definition passes :: "(predicate \<Rightarrow> event \<Rightarrow> bool) \<Rightarrow> ('y, 'k) controller \<Rightarrow> event \<Rightarrow> bool" where
  "passes sem ctr ev \<longleftrightarrow> (\<forall>p\<in>set (ctr_Predicates ctr). sem p ev)"

definition generation_changed :: "(event \<Rightarrow> bool) \<Rightarrow> bool" where
  "generation_changed pass \<longleftrightarrow> (\<forall>old new. pass (Updated old new) \<longleftrightarrow> po_Generation old \<noteq> po_Generation new)"

text \<open>
  The server's side of a status patch: the stored policy with the patched status. The status being
  a subresource, the generation does not move.
\<close>

definition patches_status :: "(policy \<Rightarrow> policy_status \<Rightarrow> policy) \<Rightarrow> bool" where
  "patches_status srv \<longleftrightarrow> (\<forall>p st. po_Generation (srv p st) = po_Generation p \<and> po_Name (srv p st) = po_Name p)"

fun action_events :: "(policy \<Rightarrow> policy_status \<Rightarrow> policy) \<Rightarrow> policy \<Rightarrow> action list \<Rightarrow> event list" where
  "action_events srv stored [] = []"
| "action_events srv stored (PatchStatus name st # acts) =
     Updated stored (srv stored st) # action_events srv (srv stored st) acts"
| "action_events srv stored (CreateReport r # acts) = action_events srv stored acts"

lemma own_events_skipped:
  assumes "generation_changed pass" "patches_status srv"
  shows "filter pass (action_events srv stored acts) = []"
proof (induction acts arbitrary: stored)
  case (Cons a acts)
  with assms show ?case by (cases a) (simp_all add: generation_changed_def patches_status_def)
qed simp

section \<open>The queue\<close>

text \<open>
  A chain of reconciles: it starts with an event, and each reconcile in it gives the time of the next
  or ends it. \<open>ch_Due\<close> is when the next may run, \<open>ch_Runs\<close> how many the server has answered; one whose
  policy could not be read did nothing.
\<close>

record chain_of =
  ch_Name :: string
  ch_Outside :: bool
  ch_Runs :: nat
  ch_Due :: "int option"

definition new_chain :: "bool \<Rightarrow> int \<Rightarrow> string \<Rightarrow> chain_of" where
  "new_chain outside now name = \<lparr>ch_Name = name, ch_Outside = outside, ch_Runs = 0, ch_Due = Some now\<rparr>"

definition next_due :: "int \<Rightarrow> requeue \<Rightarrow> int option" where
  "next_due now q = (case q of RequeueAfter d \<Rightarrow> Some (now + d) | NoRequeue \<Rightarrow> None)"

definition ran :: "int \<Rightarrow> requeue \<Rightarrow> chain_of \<Rightarrow> chain_of" where
  "ran now q c = c\<lparr>ch_Runs := Suc (ch_Runs c), ch_Due := next_due now q\<rparr>"

record ('y, 'k) managed =
  mn_Now :: int
  mn_Chains :: "chain_of list"
  mn_Reconciler :: "('y, 'k) reconciler"

definition due :: "('y, 'k) managed \<Rightarrow> nat \<Rightarrow> bool" where
  "due s i \<longleftrightarrow> i < length (mn_Chains s) \<and> (\<exists>t. ch_Due (mn_Chains s ! i) = Some t \<and> t \<le> mn_Now s)"

text \<open>
  The manager from a time on: time passes; a policy is created, changed or deleted by others; two
  requests for one name are merged (one of their chains ends); a due request is reconciled, and the events
  of its own writes come back through the controller's predicates. A reconcile that returns an error, as it does when
  the policy cannot be read, is called again when the library's backoff says, at any time from then on.
\<close>

inductive manages ::
  "('y, 'k) libs \<Rightarrow> (bytes \<Rightarrow> 'y ynode result) \<Rightarrow> (predicate \<Rightarrow> event \<Rightarrow> bool) \<Rightarrow> (policy \<Rightarrow> policy_status \<Rightarrow> policy) \<Rightarrow>
   ('y, 'k) controller \<Rightarrow> int \<Rightarrow> ('y, 'k) managed \<Rightarrow> bool"
  for B yaml sem srv ctr since where
  start: "manages B yaml sem srv ctr since \<lparr>mn_Now = since, mn_Chains = [], mn_Reconciler = ctr_Reconciler ctr\<rparr>"
| wait: "manages B yaml sem srv ctr since s \<Longrightarrow> mn_Now s \<le> t \<Longrightarrow> manages B yaml sem srv ctr since (s\<lparr>mn_Now := t\<rparr>)"
| outside: "manages B yaml sem srv ctr since s \<Longrightarrow> passes sem ctr ev \<Longrightarrow> manages B yaml sem srv ctr since
     (s\<lparr>mn_Chains := mn_Chains s @ [new_chain True (mn_Now s) (event_name ev)]\<rparr>)"
| merge: "manages B yaml sem srv ctr since s \<Longrightarrow> i < length (mn_Chains s) \<Longrightarrow> manages B yaml sem srv ctr since
     (s\<lparr>mn_Chains := (mn_Chains s)[i := (mn_Chains s ! i)\<lparr>ch_Due := None\<rparr>]\<rparr>)"
| reconcile: "manages B yaml sem srv ctr since s \<Longrightarrow> due s i \<Longrightarrow>
     Reconcile B yaml (ctr_Factories ctr) env owned (ch_Name (mn_Chains s ! i)) got (mn_Reconciler s) = (q, None, acts, rqs, r') \<Longrightarrow>
     manages B yaml sem srv ctr since (s\<lparr>mn_Chains := (mn_Chains s)[i := ran (mn_Now s) q (mn_Chains s ! i)] @
         map (\<lambda>ev. new_chain False (mn_Now s) (event_name ev)) (filter (passes sem ctr) (action_events srv stored acts)),
       mn_Reconciler := r'\<rparr>)"
| retry: "manages B yaml sem srv ctr since s \<Longrightarrow> due s i \<Longrightarrow> mn_Now s \<le> t \<Longrightarrow>
     Reconcile B yaml (ctr_Factories ctr) env owned (ch_Name (mn_Chains s ! i)) got (mn_Reconciler s) = (q, Some err, acts, rqs, r') \<Longrightarrow>
     manages B yaml sem srv ctr since (s\<lparr>mn_Chains := (mn_Chains s)[i := (mn_Chains s ! i)\<lparr>ch_Due := Some t\<rparr>] @
         map (\<lambda>ev. new_chain False (mn_Now s) (event_name ev)) (filter (passes sem ctr) (action_events srv stored acts)),
       mn_Reconciler := r'\<rparr>)"

definition runs :: "chain_of list \<Rightarrow> nat" where
  "runs cs = sum_list (map ch_Runs cs)"

text \<open>A chain with \<open>k\<close> runs took \<open>k - 1\<close> minutes, and its next is a minute later.\<close>

definition chain_ok :: "int \<Rightarrow> int \<Rightarrow> chain_of \<Rightarrow> bool" where
  "chain_ok since now c \<longleftrightarrow> ch_Outside c \<and> (0 < ch_Runs c \<longrightarrow> (int (ch_Runs c) - 1) * minute \<le> now - since)
     \<and> (case ch_Due c of None \<Rightarrow> True | Some t \<Rightarrow> int (ch_Runs c) * minute \<le> t - since)"

definition managed_ok :: "int \<Rightarrow> ('y, 'k) managed \<Rightarrow> bool" where
  "managed_ok since s \<longleftrightarrow> since \<le> mn_Now s \<and> cache_ok (mn_Reconciler s) \<and> (\<forall>c\<in>set (mn_Chains s). chain_ok since (mn_Now s) c)"

lemma chain_ok_later: "chain_ok since now c \<Longrightarrow> now \<le> t \<Longrightarrow> chain_ok since t c"
  by (auto simp: chain_ok_def)

lemma chain_ok_new: "since \<le> now \<Longrightarrow> chain_ok since now (new_chain True now name)"
  by (simp add: chain_ok_def new_chain_def)

lemma chain_ok_ended: "chain_ok since now c \<Longrightarrow> chain_ok since now (c\<lparr>ch_Due := None\<rparr>)"
  by (simp add: chain_ok_def)

lemma chain_ok_ran:
  assumes "chain_ok since now c" "ch_Due c = Some t" "t \<le> now" "\<And>d. q = RequeueAfter d \<Longrightarrow> minute \<le> d"
  shows "chain_ok since now (ran now q c)"
proof -
  have "int (ch_Runs c) * minute \<le> now - since" using assms(1-3) by (simp add: chain_ok_def)
  then show ?thesis using assms(1,4)
    by (cases q) (auto simp: chain_ok_def ran_def next_due_def algebra_simps)
qed

lemma set_update_ok: "(\<forall>c\<in>set cs. P c) \<Longrightarrow> P x \<Longrightarrow> \<forall>c\<in>set (cs[i := x]). P c"
  using set_update_subset_insert [of cs i x] by blast

lemma policy_passes:
  "generation_changed (sem GenerationChangedPredicate) \<Longrightarrow> generation_changed (passes sem (policy_controller fs r))"
  by (simp add: generation_changed_def passes_def policy_controller_def)

lemma manages_ok:
  assumes "generation_changed (passes sem ctr)" "patches_status srv" "cache_ok (ctr_Reconciler ctr)"
  shows "manages B yaml sem srv ctr since s \<Longrightarrow> managed_ok since s"
proof (induction rule: manages.induct)
  case start
  then show ?case using assms(3) by (simp add: managed_ok_def)
next
  case (wait s t)
  then show ?case by (auto simp: managed_ok_def intro: chain_ok_later)
next
  case (outside s ev)
  then show ?case by (auto simp: managed_ok_def chain_ok_new)
next
  case (merge s i)
  then have "\<forall>c\<in>set ((mn_Chains s)[i := (mn_Chains s ! i)\<lparr>ch_Due := None\<rparr>]). chain_ok since (mn_Now s) c"
    by (intro set_update_ok) (auto simp: managed_ok_def intro!: chain_ok_ended)
  then show ?case using merge by (simp add: managed_ok_def)
next
  case (reconcile s i env owned got q acts rqs r' stored)
  have ok: "cache_ok (mn_Reconciler s)" using reconcile.IH by (simp add: managed_ok_def)
  note rq = Reconcile_requeues [OF ok reconcile.hyps(3)]
  have q: "minute \<le> d" if "q = RequeueAfter d" for d
  proof (cases got)
    case Missing
    with reconcile.hyps(3) that show ?thesis by (simp add: Reconcile_def)
  next
    case (GetFailed e)
    with reconcile.hyps(3) show ?thesis by (simp add: Reconcile_def)
  next
    case (Found p)
    with rq(2) that show ?thesis by blast
  qed
  obtain t where t: "i < length (mn_Chains s)" "ch_Due (mn_Chains s ! i) = Some t" "t \<le> mn_Now s"
    using reconcile.hyps(2) by (auto simp: due_def)
  have "chain_ok since (mn_Now s) (ran (mn_Now s) q (mn_Chains s ! i))"
    using reconcile.IH t q by (intro chain_ok_ran [OF _ t(2,3)]) (simp_all add: managed_ok_def)
  then have "\<forall>c\<in>set ((mn_Chains s)[i := ran (mn_Now s) q (mn_Chains s ! i)]). chain_ok since (mn_Now s) c"
    using reconcile.IH by (intro set_update_ok) (simp_all add: managed_ok_def)
  then show ?case using reconcile.IH rq(1) own_events_skipped [OF assms(1,2)] by (simp add: managed_ok_def)
next
  case (retry s i t env owned got q err acts rqs r' stored)
  have ok: "cache_ok (mn_Reconciler s)" using retry.IH by (simp add: managed_ok_def)
  obtain t' where t: "i < length (mn_Chains s)" "ch_Due (mn_Chains s ! i) = Some t'" "t' \<le> mn_Now s"
    using retry.hyps(2) by (auto simp: due_def)
  have "chain_ok since (mn_Now s) (mn_Chains s ! i)" using retry.IH t by (simp add: managed_ok_def)
  then have "chain_ok since (mn_Now s) ((mn_Chains s ! i)\<lparr>ch_Due := Some t\<rparr>)"
    using t retry.hyps(3) by (simp add: chain_ok_def)
  then have "\<forall>c\<in>set ((mn_Chains s)[i := (mn_Chains s ! i)\<lparr>ch_Due := Some t\<rparr>]). chain_ok since (mn_Now s) c"
    using retry.IH by (intro set_update_ok) (simp_all add: managed_ok_def)
  then show ?case
    using retry.IH Reconcile_requeues(1) [OF ok retry.hyps(4)] own_events_skipped [OF assms(1,2)] by (simp add: managed_ok_def)
qed

text \<open>A reconcile that returns an error did nothing: the policy could not be read.\<close>

lemma Reconcile_error:
  assumes "cache_ok r" "Reconcile B yaml fs env owned name got r = (q, Some err, acts, rqs, r')"
  shows "got = GetFailed err \<and> acts = [] \<and> rqs = [] \<and> r' = r"
proof (cases got)
  case (Found p)
  with Reconcile_requeues(2) [OF assms] show ?thesis by blast
qed (use assms(2) in \<open>auto simp: Reconcile_def\<close>)

lemma runs_bound:
  assumes "\<forall>c\<in>set cs. chain_ok since now c" "since \<le> now"
  shows "runs cs \<le> length (filter ch_Outside cs) * (1 + nat ((now - since) div minute))"
  using assms(1)
proof (induction cs)
  case (Cons c cs)
  have "int (ch_Runs c) - 1 \<le> (now - since) div minute" if "0 < ch_Runs c"
  proof -
    have "(int (ch_Runs c) - 1) * minute \<le> now - since" using Cons.prems \<open>0 < ch_Runs c\<close> by (simp add: chain_ok_def)
    then have "(int (ch_Runs c) - 1) * minute div minute \<le> (now - since) div minute" by (rule zdiv_mono1) (simp add: minute_def)
    then show ?thesis by (simp add: minute_def)
  qed
  then have "ch_Runs c \<le> 1 + nat ((now - since) div minute)" by (cases "ch_Runs c = 0") auto
  then show ?case using Cons by (simp add: runs_def chain_ok_def add_mono)
qed (simp add: runs_def)

text \<open>
  However long it runs: at most one reconcile a minute for every change made from outside, one
  more for the change itself.
\<close>

lemma manages_rate:
  assumes "generation_changed (passes sem ctr)" "patches_status srv" "cache_ok (ctr_Reconciler ctr)"
    "manages B yaml sem srv ctr since s"
  shows "runs (mn_Chains s) \<le> length (filter ch_Outside (mn_Chains s)) * (1 + nat ((mn_Now s - since) div minute))
    \<and> (\<forall>c\<in>set (mn_Chains s). ch_Outside c)"
proof -
  have "managed_ok since s" using manages_ok [OF assms(1-3)] assms(4) .
  then show ?thesis using runs_bound [of "mn_Chains s" since "mn_Now s"] by (simp add: managed_ok_def chain_ok_def)
qed

text \<open>From the start of the operator on.\<close>

lemma served_rate:
  assumes "operator_Run C clientset dyn P w args = Served m e" "keeps_controller C controller_of" "controller_of m = Some ctr"
    "generation_changed (sem GenerationChangedPredicate)" "patches_status srv" "manages B yaml sem srv ctr since s"
  shows "runs (mn_Chains s) \<le> length (filter ch_Outside (mn_Chains s)) * (1 + nat ((mn_Now s - since) div minute))
    \<and> (\<forall>c\<in>set (mn_Chains s). ch_Outside c)"
proof -
  have c: "ctr = policy_controller (kube_factories P) (new_reconciler w)"
    using served_controller [OF assms(1,2)] assms(3) by simp
  have "cache_ok (ctr_Reconciler ctr)" by (simp add: c policy_controller_def cache_ok_def new_reconciler_def)
  moreover have "generation_changed (passes sem ctr)" unfolding c using assms(4) by (rule policy_passes)
  ultimately show ?thesis using manages_rate assms(5,6) by blast
qed

text \<open>Without the predicate every reconcile of a policy is followed at once by another.\<close>

lemma no_predicate_hot:
  assumes "Reconcile B yaml fs env owned name (Found p) r = (q, err, acts, rqs, r')" "patches_status srv" "\<And>ev. pass ev"
  shows "\<exists>ev\<in>set (filter pass (action_events srv p acts)). event_name ev = po_Name p"
proof -
  have "\<exists>ev\<in>set (action_events srv stored acts). event_name ev = po_Name stored"
    if "PatchStatus n st \<in> set acts" for n st stored
    using that
  proof (induction acts arbitrary: stored)
    case (Cons a acts)
    with assms(2) show ?case by (cases a) (auto simp: patches_status_def)
  qed simp
  moreover obtain n st where "PatchStatus n st \<in> set acts"
    using Reconcile_patches [OF assms(1)] last_in_set by metis
  ultimately show ?thesis using assms(3) by simp
qed

end
