(* ===== verification/Operator_Sharing.thy ===== *)
theory Operator_Sharing
  imports Operator
begin

text \<open>
  Two policies that leave the path of the store to the default: each gets an engine of its own, and
  both engines have the same file open, which \<open>Store_Faults\<close> shows to fork the chain.
\<close>

definition plain_policy :: "policy \<Rightarrow> bool" where
  "plain_policy p \<longleftrightarrow> ps_StorePath (po_Spec p) = [] \<and> ps_SigningKeyPath (po_Spec p) = [] \<and> ps_Push (po_Spec p) = None"

definition default_store :: path where
  "default_store = ''/var/lib/evidenced/evidence.jsonl''"

lemma Translate_plain:
  assumes "Translate yaml (po_Spec p) = Inr cfg" "plain_policy p"
  shows "cf_StorePath cfg = default_store \<and> cf_KeyPath cfg = [] \<and> \<not> Push_Enabled (cf_Push cfg)"
proof -
  obtain raw where "translate_collectors yaml (ps_Collectors (po_Spec p)) [] = Inr raw"
    using assms(1) by (auto simp: Translate_def bindr_eq_Inr)
  note t = assms(1) [unfolded Translate_def this bindr_simps Let_def]
  show ?thesis using t assms(2)
    by (auto simp: plain_policy_def default_store_def no_push_def Push_Enabled_def split: if_splits)
qed

lemma Build_opens:
  assumes "Build B cfg fs w = (Inr (e, s), w')" "cf_KeyPath cfg = []" "\<not> Push_Enabled (cf_Push cfg)"
  shows "OpenFileStore (lb_digest B) (cf_StorePath cfg) w = (Inr s, w')"
  using assms by (auto simp: Build_def Let_def loadOrCreateKey_def push_part_def split: sum.splits prod.splits)

lemma engineFor_opens:
  assumes "engineFor B yaml fs p r = (Inr c, r')" "map_of (rc_Engines r) (po_Name p) = None" "plain_policy p"
  shows "OpenFileStore (lb_digest B) default_store (rc_World r) = (Inr (ca_Store c), rc_World r')"
    "rc_Engines r' = put (po_Name p) c (rc_Engines r)"
proof -
  have b: "buildEngine B yaml fs p r = (Inr c, r')" using assms(1,2) by (simp add: engineFor_def)
  then obtain cfg where cfg: "Translate yaml (po_Spec p) = Inr cfg" by (auto simp: buildEngine_def split: sum.splits)
  obtain e s w where bd: "Build B cfg fs (rc_World r) = (Inr (e, s), w)" "ca_Store c = s" "rc_World r' = w"
    "rc_Engines r' = put (po_Name p) c (rc_Engines r)"
    using b cfg by (auto simp: buildEngine_def Let_def split: sum.splits prod.splits)
  then show "OpenFileStore (lb_digest B) default_store (rc_World r) = (Inr (ca_Store c), rc_World r')"
    "rc_Engines r' = put (po_Name p) c (rc_Engines r)"
    using Build_opens [OF bd(1)] Translate_plain [OF cfg assms(3)] by simp_all
qed

lemma OpenFileStore_entropy: "OpenFileStore H p w = (Inr s, w') \<Longrightarrow> calm w \<Longrightarrow> entropy w' = entropy w"
  by (auto simp: OpenFileStore_def calm_calls readRecords_def split: prod.splits sum.splits option.splits if_splits)

lemma OpenFileStore_again:
  assumes "calm w" "store_ok H s w rs"
  shows "\<exists>t. OpenFileStore H (spath s) w = (Inr t, w) \<and> store_ok H t w rs \<and> spath t = spath s"
proof -
  have i: "names w (spath s) = Some (sfile s)" and st: "stored_at w (spath s) rs" "intact H rs"
    using assms(2) by (auto simp: store_ok_def stored_at_def file_at_def)
  have "Verify H rs = None" using st(2) by (simp add: Verify_None_iff)
  then show ?thesis
    using i assms stored_at_read [OF assms(1) st(1)]
    by (simp add: OpenFileStore_def calm_calls store_ok_def Resume_def head_hash_def)
qed

lemma plain_policies_share:
  assumes w: "calm (rc_World r)" "os_ok (rc_World r)" "entropy_ok (rc_World r)"
    and st: "stored_at (rc_World r) default_store rs" "intact (lb_digest B) rs"
    and p: "map_of (rc_Engines r) (po_Name p) = None" "plain_policy p"
    and q: "map_of (rc_Engines r) (po_Name q) = None" "plain_policy q" "po_Name q \<noteq> po_Name p" and ok: "cache_ok r"
    and a: "engineFor B yaml fs p r = (Inr a, r1)" and b: "engineFor B yaml fs q r1 = (Inr b, r2)"
  shows "calm (rc_World r2)" "entropy_ok (rc_World r2)" "store_ok (lb_digest B) (ca_Store a) (rc_World r2) rs"
    "store_ok (lb_digest B) (ca_Store b) (rc_World r2) rs" "spath (ca_Store a) = default_store" "spath (ca_Store b) = default_store"
proof -
  note oa = engineFor_opens [OF a p]
  have a1: "calm (rc_World r1)" "store_ok (lb_digest B) (ca_Store a) (rc_World r1) rs" "spath (ca_Store a) = default_store"
    using OpenFileStore_intact [OF w(1,2) st] oa(1) by auto
  have "map_of (rc_Engines r1) (po_Name q) = None" using q(1,3) ok by (simp add: oa(2) cache_ok_def)
  note ob = engineFor_opens [OF b this q(2)]
  obtain t where t: "OpenFileStore (lb_digest B) default_store (rc_World r1) = (Inr t, rc_World r1)"
    "store_ok (lb_digest B) t (rc_World r1) rs" "spath t = default_store"
    using OpenFileStore_again [OF a1(1,2)] a1(3) by auto
  have "t = ca_Store b" "rc_World r2 = rc_World r1" using t(1) ob(1) by simp_all
  moreover have "entropy_ok (rc_World r1)"
    using OpenFileStore_entropy [OF oa(1) w(1)] w(3) by (simp add: entropy_ok_def)
  ultimately show "calm (rc_World r2)" "entropy_ok (rc_World r2)" "store_ok (lb_digest B) (ca_Store a) (rc_World r2) rs"
    "store_ok (lb_digest B) (ca_Store b) (rc_World r2) rs" "spath (ca_Store a) = default_store" "spath (ca_Store b) = default_store"
    using a1 t(2,3) by simp_all
qed

text \<open>A policy that says nothing gets its engine, over any intact chain at the default path.\<close>

lemma engineFor_default:
  assumes w: "calm (rc_World r)" "os_ok (rc_World r)" and st: "stored_at (rc_World r) default_store rs" "intact (lb_digest B) rs"
    and p: "map_of (rc_Engines r) (po_Name p) = None" "plain_policy p"
    and d: "ps_Collectors (po_Spec p) = []" "ps_Interval (po_Spec p) = None"
  shows "\<exists>c r'. engineFor B yaml fs p r = (Inr c, r') \<and> calm (rc_World r') \<and> os_ok (rc_World r')
    \<and> stored_at (rc_World r') default_store rs \<and> rc_Engines r' = put (po_Name p) c (rc_Engines r)"
proof -
  obtain cfg where cfg: "Translate yaml (po_Spec p) = Inr cfg" "cf_Collectors cfg = []"
    using d by (simp add: Translate_def Let_def minute_def)
  note pl = Translate_plain [OF cfg(1) p(2)]
  obtain e s w' where b: "Build B cfg fs (rc_World r) = (Inr (e, s), w')" "calm w'" "store_ok (lb_digest B) s w' rs" "spath s = default_store"
    using Build_ok [of "rc_World r" cfg rs B fs NewRegistry] w st pl cfg(2) by auto
  let ?c = "\<lparr>ca_Generation = po_Generation p, ca_Engine = e, ca_Store = s\<rparr>"
  have "engineFor B yaml fs p r = (Inr ?c, r\<lparr>rc_World := w', rc_Engines := put (po_Name p) ?c (rc_Engines r)\<rparr>)"
    using p(1) cfg(1) b(1) by (simp add: engineFor_def buildEngine_def Let_def)
  moreover have "stored_at w' default_store rs" "os_ok w'"
    using b(3,4) by (auto simp: store_ok_def stored_at_def file_at_def)
  ultimately show ?thesis using b(2) by (intro exI [of _ ?c] exI) (auto)
qed

end
