(* ===== verification/Operator_Cycle.thy ===== *)
theory Operator_Cycle
  imports Operator
begin

text \<open>
  A reconcile from end to end: the engines in the cache are those the wiring builds, so a cycle whose
  records fit is recorded, exported and reported, and the status says what the bundle holds.
\<close>

section \<open>What is in the cache\<close>

definition engine_built :: "('y, 'k) libs \<Rightarrow> ('y, 'k) engine \<Rightarrow> bool" where
  "engine_built B e \<longleftrightarrow> Store (eg_Scheduler e) = file_store_ops (lb_digest B) \<and> Clock (eg_Scheduler e) = lb_clock B
     \<and> RotateAfter (eg_Scheduler e) = cf_StoreRotateAfter (eg_Config e) \<and> ex_Mapping (eg_Exporter e) = Mapping (eg_Scheduler e)
     \<and> (\<exists>m. Mapping (eg_Scheduler e) = Some m \<and> framework m = ''DORA'')"

definition engines_built :: "('y, 'k) libs \<Rightarrow> ('y, 'k) reconciler \<Rightarrow> bool" where
  "engines_built B r \<longleftrightarrow> (\<forall>kc\<in>set (rc_Engines r). engine_built B (ca_Engine (snd kc)))"

lemma Build_engine_built:
  assumes "Build B cfg fs w = (Inr (e, s), w')"
  shows "engine_built B e"
proof -
  have "eg_Config e = cfg" using assms by (auto simp: Build_def Let_def split: sum.splits prod.splits)
  then show ?thesis using Build_scheduler [OF assms] unfolding engine_built_def by auto
qed

lemma engines_built_put:
  "engines_built B r \<Longrightarrow> engine_built B (ca_Engine c) \<Longrightarrow> engines_built B (r\<lparr>rc_Engines := put k c (rc_Engines r)\<rparr>)"
  using set_put_subset [of k c "rc_Engines r"] by (auto simp: engines_built_def)

lemma engines_built_world [simp]:
  "engines_built B (r\<lparr>rc_World := w\<rparr>) = engines_built B r" "engines_built B (r\<lparr>rc_Ticks := n\<rparr>) = engines_built B r"
  by (simp_all add: engines_built_def)

lemma dropEngine_built: "engines_built B r \<Longrightarrow> engines_built B (dropEngine name r)"
  by (auto simp: dropEngine_def engines_built_def delete_key_def split: option.split)

lemma buildEngine_built:
  assumes "engines_built B r" "buildEngine B yaml fs p r = (x, r')"
  shows "engines_built B r' \<and> (case x of Inl e \<Rightarrow> True | Inr c \<Rightarrow> engine_built B (ca_Engine c))"
proof (cases "Translate yaml (po_Spec p)")
  case (Inl e)
  with assms show ?thesis by (auto simp: buildEngine_def)
next
  case (Inr cfg)
  obtain y w where b: "Build B cfg fs (rc_World r) = (y, w)" by fastforce
  show ?thesis
  proof (cases y)
    case (Inl e)
    with assms b Inr show ?thesis by (auto simp: buildEngine_def)
  next
    case y: (Inr es)
    obtain e s where es: "es = (e, s)" by fastforce
    let ?c = "\<lparr>ca_Generation = po_Generation p, ca_Engine = e, ca_Store = s\<rparr>"
    have e: "engine_built B e" using Build_engine_built b y es by blast
    then have "engines_built B (r\<lparr>rc_World := w\<rparr>\<lparr>rc_Engines := put (po_Name p) ?c (rc_Engines (r\<lparr>rc_World := w\<rparr>))\<rparr>)"
      using assms(1) by (intro engines_built_put) simp_all
    then show ?thesis using assms(2) b Inr y es e by (auto simp: buildEngine_def Let_def)
  qed
qed

lemma engineFor_built:
  assumes "engines_built B r" "engineFor B yaml fs p r = (x, r')"
  shows "engines_built B r' \<and> (case x of Inl e \<Rightarrow> True | Inr c \<Rightarrow> engine_built B (ca_Engine c))"
proof (cases "map_of (rc_Engines r) (po_Name p)")
  case None
  with assms show ?thesis using buildEngine_built by (simp add: engineFor_def)
next
  case (Some c)
  have "engine_built B (ca_Engine c)" using assms(1) map_of_SomeD [OF Some] by (auto simp: engines_built_def)
  then show ?thesis
    using assms Some buildEngine_built [OF dropEngine_built [OF assms(1)]]
    by (auto simp: engineFor_def split: if_splits)
qed

lemma Reconcile_built:
  assumes "engines_built B r" "Reconcile B yaml fs env owned name got r = (q, err, acts, rqs, r')"
  shows "engines_built B r'"
proof (cases got)
  case (Found p)
  obtain x r1 where ef: "engineFor B yaml fs p r = (x, r1)" by fastforce
  note b = engineFor_built [OF assms(1) ef]
  have keep: "engines_built B (keep_engine k c st n r1)" if "engine_built B (ca_Engine c)" for k c st n
    using engines_built_put [of B r1 "c\<lparr>ca_Store := fst st\<rparr>" k] b that by (simp add: keep_engine_def)
  show ?thesis
  proof (cases x)
    case (Inl e)
    with assms(2) Found ef b show ?thesis by (auto simp: Reconcile_def)
  next
    case (Inr c)
    with b keep have "engines_built B (keep_engine k c st n r1)" for k st n by simp
    then show ?thesis using assms(2) Found ef Inr
      by (auto simp: Reconcile_def Let_def split: prod.splits option.splits if_splits)
  qed
qed (use assms dropEngine_built in \<open>auto simp: Reconcile_def\<close>)

lemma reconciled_built: "reconciled B yaml fs r \<Longrightarrow> engines_built B r"
proof (induction rule: reconciled.induct)
  case (start w)
  then show ?case by (simp add: engines_built_def new_reconciler_def)
next
  case (again r env owned name got q err acts rqs r')
  then show ?case using Reconcile_built by blast
qed

section \<open>A reconcile that succeeds\<close>

lemma Reconcile_exported:
  assumes "engineFor B yaml fs p r = (Inr c, r1)" "eg_Pusher (ca_Engine c) = None"
    "RunOnce (eg_Scheduler (ca_Engine c)) env (ca_Store c, rc_World r1) (rc_Ticks r1) = (None, (s, w), n)"
    "Export (lb_digest B) (lb_keys B) (lb_walks B) (eg_Exporter (ca_Engine c)) (lb_clock B n)
       (cf_ExportDir (eg_Config (ca_Engine c))) s w = (Inr dir, w2)"
  shows "Reconcile B yaml fs env owned name (Found p) r =
    (RequeueAfter (cf_Interval (eg_Config (ca_Engine c))), None,
     createReport owned p (Mapping (eg_Scheduler (ca_Engine c))) (Count s) dir (lb_clock B (Suc n))
       @ [success_patch p None (lb_clock B (Suc n)) (Count s) dir], [],
     keep_engine (po_Name p) c (s, w2) (Suc (Suc n)) r1)"
proof -
  have "ExportAndPush B (ca_Engine c) (lb_clock B n) s w = (dir, None, [], w2)"
    using assms(2,4) by (simp add: ExportAndPush_def)
  then show ?thesis unfolding Reconcile_def got_policy.case assms(1) prod.case sum.case assms(3) option.case Let_def by simp
qed

lemma Reconcile_cycle:
  assumes R: "reconciled B yaml fs r" and ef: "engineFor B yaml fs p r = (Inr c, r1)"
    and plain: "eg_Pusher (ca_Engine c) = None" "cf_StoreRotateAfter (eg_Config (ca_Engine c)) > 0"
    and laws: "key_lib_ok (lb_keys B)" "walks_ok (lb_walks B)"
    and holds: "file_holds (lb_digest B) (ca_Store c, rc_World r1) rs" "\<forall>r\<in>set rs. shallow r"
    and rot: "room (file_rotation rs (lb_clock B (rc_Ticks r1)) (ca_Store c, rc_World r1))"
    and cyc: "cycle_records (lb_clock B) (Mapping (eg_Scheduler (ca_Engine c))) env
        (registry_All (Registry (eg_Scheduler (ca_Engine c)))) (Suc (rc_Ticks r1)) = (ps, n)" "\<forall>r\<in>set ps. room r \<and> shallow r"
    and now: "format_time (lb_clock B n) \<noteq> None" "60 dvd offset (lb_clock B n)"
    and dir: "dir = bundle_dir (cf_ExportDir (eg_Config (ca_Engine c))) (lb_clock B n)"
    and fresh: "fresh_bundle (rc_World r1) dir"
      "\<forall>k\<in>set bundle_names. filepath_Join dir k \<noteq> archive_path (spath (ca_Store c)) (lb_clock B (rc_Ticks r1))"
    and few: "length rs + length ps < 2 ^ 62"
  shows "\<exists>rep st r' kept added. Reconcile B yaml fs env True name (Found p) r =
      (RequeueAfter (cf_Interval (eg_Config (ca_Engine c))), None, [CreateReport rep, PatchStatus (po_Name p) st], [], r')
    \<and> er_BundlePath rep = dir \<and> er_RecordCount rep = int (length (kept @ added)) \<and> er_Framework rep = ''DORA''
    \<and> st_LastBundle st = dir \<and> st_Records st = int (length (kept @ added)) \<and> st_LastError st = []
    \<and> bundle_Verify (lb_digest B) (lb_keys B) dir (rc_World r') = (None, rc_World r')
    \<and> bundle_Read (lb_digest B) dir (rc_World r') = (Inr \<lparr>hd_Tool = ''evidenced'', hd_Framework = ''DORA'',
         hd_GeneratedAt = lb_clock B n, hd_RecordCount = int (length (kept @ added)),
         hd_Records = map (reindented 3) (kept @ added)\<rparr>, rc_World r')
    \<and> map marshal_record (map (reindented 3) (kept @ added)) = map marshal_record (kept @ added)
    \<and> (kept = rs \<or> (\<exists>g. kept = [g] \<and> stored_as (file_rotation rs (lb_clock B (rc_Ticks r1)) (ca_Store c, rc_World r1)) g))
    \<and> list_all2 stored_as ps added"
proof -
  let ?e = "ca_Engine c"
  obtain m where e: "Store (eg_Scheduler ?e) = file_store_ops (lb_digest B)" "Clock (eg_Scheduler ?e) = lb_clock B"
    "RotateAfter (eg_Scheduler ?e) > 0" "ex_Mapping (eg_Exporter ?e) = Some m" "Mapping (eg_Scheduler ?e) = Some m" "framework m = ''DORA''"
    using engineFor_built [OF reconciled_built [OF R] ef] plain(2) by (auto simp: engine_built_def)
  have fw: "frameworkName (eg_Exporter ?e) = ''DORA''" using e(4,6) by (simp add: frameworkName_def)
  have "valid_utf8 (frameworkName (eg_Exporter ?e))" unfolding fw by (simp add: plain_valid code_def)
  from engine_cycle [OF e(1,3) laws holds rot [folded e(2)] cyc(1) [folded e(2)] cyc(2) now this
      fresh(1) [unfolded dir] fresh(2) [folded e(2), unfolded dir] few, folded dir]
  obtain kept added s w w2 where k: "RunOnce (eg_Scheduler ?e) env (ca_Store c, rc_World r1) (rc_Ticks r1) = (None, (s, w), n)"
    "Export (lb_digest B) (lb_keys B) (lb_walks B) (eg_Exporter ?e) (lb_clock B n) (cf_ExportDir (eg_Config ?e)) s w = (Inr dir, w2)"
    "bundle_Verify (lb_digest B) (lb_keys B) dir w2 = (None, w2)"
    "bundle_Read (lb_digest B) dir w2 = (Inr (read_header (eg_Exporter ?e) (kept @ added) (lb_clock B n)), w2)"
    "map marshal_record (map (reindented 3) (kept @ added)) = map marshal_record (kept @ added)"
    "kept = rs \<or> (\<exists>g. kept = [g] \<and> stored_as (file_rotation rs (lb_clock B (rc_Ticks r1)) (ca_Store c, rc_World r1)) g)"
    "list_all2 stored_as ps added" "Count s = length (kept @ added)"
    unfolding e(2) by blast
  let ?now = "lb_clock B (Suc n)" and ?r' = "keep_engine (po_Name p) c (s, w2) (Suc (Suc n)) r1"
  define rep where "rep = \<lparr>er_Name = po_Name p @ ''-'' @ stamp ?now, er_PolicyName = po_Name p, er_GeneratedAt = ?now,
    er_BundlePath = dir, er_RecordCount = int (length (kept @ added)), er_Framework = ''DORA''\<rparr>"
  define st where "st = (po_Status p)\<lparr>st_LastError := [], st_ObservedGeneration := po_Generation p,
    st_LastRunTime := Some ?now, st_Records := int (length (kept @ added)), st_LastBundle := dir\<rparr>"
  have "Reconcile B yaml fs env True name (Found p) r =
      (RequeueAfter (cf_Interval (eg_Config ?e)), None, [CreateReport rep, PatchStatus (po_Name p) st], [], ?r')"
    unfolding Reconcile_exported [OF ef plain(1) k(1,2)] k(8) rep_def st_def
    by (simp add: createReport_def success_patch_def e(5,6))
  moreover have "rc_World ?r' = w2" by (simp add: keep_engine_def)
  moreover have "read_header (eg_Exporter ?e) (kept @ added) (lb_clock B n) = \<lparr>hd_Tool = ''evidenced'', hd_Framework = ''DORA'',
      hd_GeneratedAt = lb_clock B n, hd_RecordCount = int (length (kept @ added)), hd_Records = map (reindented 3) (kept @ added)\<rparr>"
    by (simp add: read_header_def fw)
  ultimately show ?thesis using k(3-7)
    by (intro exI [of _ rep] exI [of _ st] exI [of _ ?r'] exI [of _ kept] exI [of _ added]) (simp add: rep_def st_def)
qed

end
