(* ===== verification/Samples_Operator.thy ===== *)
theory Samples_Operator
  imports Samples_Engine Status_Patch Operator_Manager Operator_Sharing Operator_Cycle
begin

text \<open>The operator's inputs of the witnesses: a policy in memory, a controller library with the controller it
keeps, and a run of its manager; and the archives of the sample scheduler.\<close>

text \<open>A policy at 6, whose collector's settings are at 3 and whose interval is at 0; its labels are at 5.\<close>

definition sample_policy_mem :: "object_meta policy_mem" where
  "sample_policy_mem = \<lparr>pm_TypeMeta = zero_type,
     pm_ObjectMeta = \<lparr>mo_Name = ''p'', mo_Generation = 2, mo_Labels = Some 5\<rparr>,
     pm_Spec = zero_spec\<lparr>sm_Interval := Some 0, sm_Collectors := Some \<lparr>sl_Array = 1, sl_Off = 0, sl_Len = 1\<rparr>\<rparr>,
     pm_Status = zero_status\<lparr>tm_LastRunTime := Some 4\<rparr>\<rparr>"

definition sample_mem :: lib_mem where
  "sample_mem = \<lparr>Cells = [0 \<mapsto> DurationCell hour,
      1 \<mapsto> CollectorArray [\<lparr>cm_Name = ''rbacposture'', cm_Settings = Some 3\<rparr>],
      2 \<mapsto> LibraryCell (BytesCell ''{}''), 3 \<mapsto> LibraryCell (RawCell (Some 2)), 4 \<mapsto> TimeCell sample_time,
      5 \<mapsto> LibraryCell (LabelsCell []), 6 \<mapsto> PolicyCell sample_policy_mem], Next = 7\<rparr>"

definition sample_policy_val :: "(string \<times> int \<times> (string \<times> string) list option) policy_val" where
  "sample_policy_val = \<lparr>pv_TypeMeta = zero_type, pv_ObjectMeta = (''p'', 2, Some []),
     pv_Spec = \<lparr>ps_Interval = Some hour, ps_Collectors = [\<lparr>cs_Name = ''rbacposture'', cs_Settings = Some ''{}''\<rparr>],
       ps_StorePath = [], ps_StoreRotateAfter = None, ps_ExportDir = [], ps_SigningKeyPath = [], ps_Push = None\<rparr>,
     pv_Status = \<lparr>st_ObservedGeneration = 0, st_LastRunTime = Some sample_time, st_Records = 0, st_LastBundle = [], st_LastError = []\<rparr>\<rparr>"

lemma sample_mem_ok: "heap_ok sample_mem"
  by (simp add: heap_ok_def sample_mem_def)

lemma sample_mem_view: "view_at (view_policy lib_views) policy_in 6 sample_mem = Some sample_policy_val"
  by (simp add: view_at_def view_policy_def view_pair_def view_spec_def spec_pointers_def view_opt_def view_cell_def
      view_slice_def elems_def view_collector_def lib_views_def raw_bytes_def meta_value_def view_status_def
      sample_mem_def sample_policy_mem_def sample_policy_val_def spec_value_def items_of_def zero_spec_def zero_status_def)

text \<open>The predicate and the server as documented.\<close>

definition sample_pass :: "predicate \<Rightarrow> event \<Rightarrow> bool" where
  "sample_pass p ev = (case ev of Updated old new \<Rightarrow> po_Generation old \<noteq> po_Generation new | _ \<Rightarrow> True)"

definition sample_server :: "policy \<Rightarrow> policy_status \<Rightarrow> policy" where
  "sample_server p st = p\<lparr>po_Status := st\<rparr>"

lemma sample_laws: "generation_changed (sample_pass p)" "patches_status sample_server"
  by (simp_all add: generation_changed_def sample_pass_def patches_status_def sample_server_def)

text \<open>A policy whose interval is too short, which every reconcile complains about.\<close>

definition sample_hasty_policy :: policy where
  "sample_hasty_policy = sample_policy\<lparr>po_Spec := (po_Spec sample_policy)\<lparr>ps_Interval := Some second\<rparr>\<rparr>"

lemma sample_hasty_run:
  "Reconcile sample_libs (\<lambda>b. Inr NoNode) fs sample_env True ''p'' (Found sample_hasty_policy) (new_reconciler sample_world)
     = (RequeueAfter minute, None, [failure_patch sample_hasty_policy
         (Errorf ''interval %s is below the 1m minimum'' [Str (Duration_String second)] None)], [], new_reconciler sample_world)"
  by (simp add: Reconcile_def engineFor_def buildEngine_def Translate_def new_reconciler_def sample_hasty_policy_def
      sample_policy_def Let_def minute_def)

definition sample_controller :: "(unit, bytes) controller" where
  "sample_controller = policy_controller (kube_factories sample_platform) (new_reconciler sample_world)"

abbreviation sample_manages :: "(unit, bytes) managed \<Rightarrow> bool" where
  "sample_manages \<equiv> manages sample_libs (\<lambda>b. Inr NoNode) sample_pass sample_server sample_controller 0"

lemma sample_hasty_step:
  assumes "sample_manages s" "due s i" "ch_Name (mn_Chains s ! i) = ''p''" "mn_Reconciler s = new_reconciler sample_world"
  shows "sample_manages (s\<lparr>mn_Chains := (mn_Chains s)[i := ran (mn_Now s) (RequeueAfter minute) (mn_Chains s ! i)],
       mn_Reconciler := new_reconciler sample_world\<rparr>)"
proof -
  have "generation_changed (passes sample_pass sample_controller)"
    unfolding sample_controller_def by (rule policy_passes [of sample_pass, OF sample_laws(1)])
  from manages.reconcile [OF assms(1,2), of sample_env True, unfolded assms(3,4), OF sample_hasty_run]
    own_events_skipped [OF this sample_laws(2)]
  show ?thesis by simp
qed

text \<open>A run: a policy is created and reconciled, cannot be read a minute later, and is reconciled after the backoff.\<close>

definition sample_managed :: "int \<Rightarrow> nat \<Rightarrow> int \<Rightarrow> (unit, bytes) managed" where
  "sample_managed now k next = \<lparr>mn_Now = now, mn_Chains = [\<lparr>ch_Name = ''p'', ch_Outside = True, ch_Runs = k, ch_Due = Some next\<rparr>],
    mn_Reconciler = new_reconciler sample_world\<rparr>"

lemma sample_two_runs: "sample_manages (sample_managed (minute + second) 2 (minute + second + minute))"
proof -
  have "ctr_Reconciler sample_controller = new_reconciler sample_world" by (simp add: sample_controller_def policy_controller_def)
  then have 0: "sample_manages (sample_managed 0 0 0)"
    using manages.outside [OF manages.start, of sample_pass sample_controller "Created sample_policy" sample_libs "\<lambda>b. Inr NoNode" sample_server 0]
    by (simp add: sample_pass_def passes_def sample_policy_def new_chain_def sample_managed_def)
  have 1: "sample_manages (sample_managed 0 1 minute)"
    using sample_hasty_step [OF 0, of 0] by (simp add: due_def ran_def next_due_def sample_managed_def)
  have 2: "sample_manages (sample_managed minute 1 minute)"
    using manages.wait [OF 1, of minute] by (simp add: minute_def sample_managed_def)
  have 3: "sample_manages (sample_managed minute 1 (minute + second))"
    using manages.retry [OF 2, of 0 "minute + second" sample_env True "GetFailed (External ''timeout'')" NoRequeue "External ''timeout''" "[]" "[]"
        "new_reconciler sample_world"]
    by (simp add: due_def sample_managed_def Reconcile_def)
  have 4: "sample_manages (sample_managed (minute + second) 1 (minute + second))"
    using manages.wait [OF 3, of "minute + second"] by (simp add: sample_managed_def)
  show ?thesis
    using sample_hasty_step [OF 4, of 0] by (simp add: due_def ran_def next_due_def eval_nat_numeral sample_managed_def)
qed

text \<open>The scheduler of the samples with a rotation age.\<close>

lemma sample_cycles_fit_any: "cycles_fit (sample_scheduler age)"
  using sample_cycles_fit by (simp add: cycles_fit_def sample_scheduler_def)

lemma sample_archives_fit: "archives_fit (spath sample_store) sample_clock"
proof -
  have "TrimSuffix ''e.jsonl'' (filepath_Ext ''e.jsonl'') = ''e''" "filepath_Ext ''e.jsonl'' = ''.jsonl''" by code_simp+
  then have "archive_path ''e.jsonl'' sample_time = ''e-20260105-000000Z.jsonl''"
    by (simp add: archive_path_def sample_utc sample_stamps)
  moreover have "format_time (utc sample_time) = Some ''2026-01-05T00:00:00Z''"
    unfolding sample_utc by (rule sample_format)
  moreover have "length (json_escape (filepath_Base ''e-20260105-000000Z.jsonl'')) = 24"
    "valid_utf8 (filepath_Base ''e-20260105-000000Z.jsonl'')" by code_simp+
  ultimately show ?thesis by (simp add: archives_fit_def sample_clock_def sample_store_def)
qed

text \<open>A policy over the store of the samples.\<close>

definition sample_local_policy :: policy where
  "sample_local_policy = sample_policy\<lparr>po_Spec := (po_Spec sample_policy)\<lparr>ps_StorePath := ''e.jsonl'', ps_ExportDir := ''out''\<rparr>\<rparr>"

lemma sample_local_engine:
  obtains c r1 where
    "engineFor sample_libs (\<lambda>b. Inr NoNode) [] sample_local_policy (new_reconciler sample_world) = (Inr c, r1)"
    "rc_World r1 = sample_world" "rc_Ticks r1 = 0" "store_ok Sum256 (ca_Store c) sample_world []" "spath (ca_Store c) = ''e.jsonl''"
    "eg_Pusher (ca_Engine c) = None" "cf_StoreRotateAfter (eg_Config (ca_Engine c)) > 0"
    "cf_ExportDir (eg_Config (ca_Engine c)) = ''out''" "registry_All (Registry (eg_Scheduler (ca_Engine c))) = []"
proof -
  obtain cfg :: "unit config" where cfg: "Translate (\<lambda>b. Inr NoNode) (po_Spec sample_local_policy) = Inr cfg"
    "cf_StorePath cfg = ''e.jsonl''" "cf_ExportDir cfg = ''out''" "cf_KeyPath cfg = []" "\<not> Push_Enabled (cf_Push cfg)"
    "cf_Collectors cfg = []" "cf_StoreRotateAfter cfg > 0"
    by (simp add: Translate_def Let_def minute_def sample_local_policy_def sample_policy_def no_push_def Push_Enabled_def)
  obtain t where t: "OpenFileStore Sum256 ''e.jsonl'' sample_world = (Inr t, sample_world)" "store_ok Sum256 t sample_world []"
    "spath t = ''e.jsonl''"
    using OpenFileStore_again [OF _ sample_store_ok, of Sum256] by (auto simp: sample_store_def)
  obtain m where m: "dora_Load = Inr m" using dora_Load_ok(1) by blast
  have d: "lb_digest sample_libs = Sum256" by (simp add: sample_libs_def)
  obtain e where b: "Build sample_libs cfg [] sample_world = (Inr (e, t), sample_world)" "eg_Config e = cfg" "eg_Pusher e = None"
    "Registry (eg_Scheduler e) = NewRegistry"
    unfolding Build_def Let_def cfg(6) register_collectors.simps sum.case m wrap_simps d cfg(2) t(1) prod.case
    using cfg(4,5) by (simp add: loadOrCreateKey_def push_part_def)
  let ?c = "\<lparr>ca_Generation = po_Generation sample_local_policy, ca_Engine = e, ca_Store = t\<rparr>"
  let ?r = "new_reconciler sample_world :: (unit, bytes) reconciler"
  have "engineFor sample_libs (\<lambda>b. Inr NoNode) [] sample_local_policy ?r
     = (Inr ?c, ?r\<lparr>rc_World := sample_world, rc_Engines := put (po_Name sample_local_policy) ?c (rc_Engines ?r)\<rparr>)"
    using cfg(1) b(1) by (simp add: engineFor_def buildEngine_def Let_def new_reconciler_def)
  from that [OF this] t b cfg show thesis
    by (simp add: new_reconciler_def NewRegistry_def registry_All_def)
qed

lemma sample_bundle_now:
  "\<forall>k\<in>set bundle_names. take 1 (filepath_Join (bundle_dir ''out'' sample_time) k) = ''o''"
proof -
  have "\<forall>k\<in>set bundle_names. take 1 (filepath_Join ''out/evidence-20260105-000000Z'' k) = ''o''"
    "filepath_Join ''out'' ''evidence-20260105-000000Z'' = ''out/evidence-20260105-000000Z''" by code_simp+
  then show ?thesis by (simp add: bundle_dir_def sample_utc sample_stamps)
qed

lemma sample_fresh_now:
  "fresh_bundle sample_world (bundle_dir ''out'' sample_time)"
  "\<forall>k\<in>set bundle_names. filepath_Join (bundle_dir ''out'' sample_time) k \<noteq> archive_path ''e.jsonl'' sample_time"
proof -
  show "fresh_bundle sample_world (bundle_dir ''out'' sample_time)"
    using sample_bundle_now by (fastforce simp: fresh_bundle_def sample_world_def)
  have "TrimSuffix ''e.jsonl'' (filepath_Ext ''e.jsonl'') = ''e''" by code_simp
  then have "take 1 (archive_path ''e.jsonl'' sample_time) = ''e''" by (simp add: archive_path_def)
  with sample_bundle_now show "\<forall>k\<in>set bundle_names. filepath_Join (bundle_dir ''out'' sample_time) k \<noteq> archive_path ''e.jsonl'' sample_time"
    by fastforce
qed

text \<open>Managers that keep what was added to them.\<close>

definition sample_controllers :: "(unit, bytes, string list, unit, string list \<times> (unit, bytes) controller option) controller_lib" where
  "sample_controllers = \<lparr>ct_ZapFlags = [(''zap-devel'', BoolFlag)], ct_NewScheme = [],
     ct_AddClientGo = (\<lambda>s. Inr (s @ [''core''])),
     ct_AddKnownTypes = (\<lambda>gv ts s. s @ ts), ct_AddToGroupVersion = (\<lambda>gv s. s),
     ct_GetConfig = Some (), ct_NewManager = (\<lambda>r opts. Inr ([mo_MetricsBindAddress opts], None)),
     ct_ManagerConfig = (\<lambda>m. ()), ct_Complete = (\<lambda>c m. Inr (fst m, Some c)),
     ct_AddHealthz = (\<lambda>s m. Inr (fst m @ [s], snd m)), ct_AddReadyz = (\<lambda>s m. Inr (fst m @ [s], snd m)), ct_Start = (\<lambda>m. None)\<rparr>"

lemma sample_keeps_controller: "keeps_controller sample_controllers snd"
  by (auto simp: keeps_controller_def sample_controllers_def)

lemma sample_served:
  "operator_Run sample_controllers (\<lambda>r. Inr ()) (\<lambda>r. Inr ()) sample_platform sample_world [''--metrics-bind-address=:9090'', ''-zap-devel'']
     = Served (['':9090'', ''healthz'', ''readyz''], Some sample_controller) None"
  by (simp add: operator_Run_def sample_controllers_def operator_flags_def flag_text_def flag_name_def flag_value_def
      run_result_def wrap_def addKnownTypes_def operator_options_def string_flag_def KubeFactories_def SetupWithManager_def
      sample_controller_def)

end
