(* ===== verification/Rotation_Link.thy ===== *)
theory Rotation_Link
  imports Evidence_Store Bundle
begin

text \<open>
  What a rotation record says of the chain before it (\<open>MaybeRotate\<close> in
  \<open>internal/core/store.go\<close>): its text determines the head hash and the number of records it names, so
  whoever holds the archive and the new file can tell that the one continues the other.
\<close>

lemma rotation_tree_facts: "wf_json (rotation_tree h n a)" "depth (rotation_tree h n a) \<le> 10000"
proof -
  have "str_body ''archivedTo''" "str_body ''previousChainHead''" "str_body ''previousChainRecords''"
    using plain_str_body by (simp_all add: plain_char_def code_def)
  then show "wf_json (rotation_tree h n a)" "depth (rotation_tree h n a) \<le> 10000"
    by (simp_all add: rotation_tree_def)
qed

lemma rotation_tree_inject:
  assumes "render (rotation_tree h n a) = render (rotation_tree h' n' a')" "hash_text h" "hash_text h'"
  shows "h = h' \<and> n = n'"
proof -
  have "Some (rotation_tree h n a) = Some (rotation_tree h' n' a')"
    using parse_render [OF rotation_tree_facts, of h n a] parse_render [OF rotation_tree_facts, of h' n' a']
    unfolding assms(1) by (rule subst)
  then have "rotation_tree h n a = rotation_tree h' n' a'" by (simp only: option.inject)
  then have e: "json_escape h = json_escape h'" "dec_digits n = dec_digits n'"
    unfolding rotation_tree_def jstr_def by (simp_all only: json.inject list.inject prod.inject)
  have "valid_utf8 h" "valid_utf8 h'" using assms(2,3) unfolding hash_text_def by blast+
  then have "json_unquote (json_escape h) = Some h" "json_unquote (json_escape h') = Some h'"
    by (simp_all only: unquote_escape to_valid_id)
  then have "Some h = Some h'" unfolding e(1) by (rule subst)
  then have "h = h'" by (simp only: option.inject)
  moreover have "Some n = Some n'" using num_val_dec [of n] num_val_dec [of n'] unfolding e(2) by (rule subst)
  then have "n = n'" by (simp only: option.inject)
  ultimately show ?thesis ..
qed

text \<open>A chain that the record of the rotation fits is the archived one, or shows a collision.\<close>

lemma rotation_commits:
  assumes "calm w" "entropy_ok w" "store_ok H s w rs" "digest_ok H" "MaybeRotate H maxAge now s w = (Inr a, s', w')" "a \<noteq> []"
    "room (rotation_record (head_hash rs) (length rs) a now)"
    "intact H ss" "\<forall>r\<in>set ss. wf_record r"
  shows "\<exists>g. All s' w' = (Inr [g], w') \<and> readRecords a w' = (Inr rs, w')
    \<and> (Observation g = render (rotation_tree (head_hash ss) (length ss) a) \<longleftrightarrow> head_hash ss = head_hash rs \<and> length ss = length rs)
    \<and> (head_hash ss = head_hash rs \<longrightarrow> ss = rs \<or> collision H (rs @ ss))"
proof -
  let ?r = "rotation_record (head_hash rs) (length rs) (archive_path (spath s) now) now"
  have old: "rs \<noteq> []" "\<not> is_zero (firstAt s)" "maxAge \<le> time_sub now (firstAt s)"
  proof -
    have "\<not> (scount s = 0 \<or> is_zero (firstAt s) \<or> time_sub now (firstAt s) < maxAge)"
    proof
      assume "scount s = 0 \<or> is_zero (firstAt s) \<or> time_sub now (firstAt s) < maxAge"
      from MaybeRotate_young [OF this, of H w] assms(5,6) show False by simp
    qed
    then show "rs \<noteq> []" "\<not> is_zero (firstAt s)" "maxAge \<le> time_sub now (firstAt s)"
      using assms(3) by (auto simp: store_ok_def)
  qed
  have "a = archive_path (spath s) now"
    using assms(5,6) by (auto simp: MaybeRotate_def Let_def split: if_splits prod.splits option.splits sum.splits)
  with MaybeRotate_old [OF assms(1-4) old] assms(5,7) obtain g where
    g: "store_ok H s' w' [g]" "stored_as ?r g" "file_at w' a = Some (text_of rs)" "calm w'" by auto
  have st: "\<forall>r\<in>set rs. storable r" "intact H rs" using assms(3) by (simp_all add: store_ok_def)
  have obs: "Observation g = render (rotation_tree (head_hash rs) (length rs) a)"
    using g(2) \<open>a = archive_path (spath s) now\<close> by (auto simp: stored_as_def rotation_record_def simp del: render.simps)
  have h: "hash_text (head_hash rs)" "hash_text (head_hash ss)"
    using hash_text_head [OF st(2) assms(4)] hash_text_head [OF assms(8,4)] by simp_all
  have "Observation g = render (rotation_tree (head_hash ss) (length ss) a) \<longleftrightarrow> head_hash ss = head_hash rs \<and> length ss = length rs"
    unfolding obs using rotation_tree_inject [OF _ h, of "length rs" a "length ss" a] by auto
  moreover have "head_hash ss = head_hash rs \<longrightarrow> ss = rs \<or> collision H (rs @ ss)"
  proof
    assume e: "head_hash ss = head_hash rs"
    have "\<forall>b. H b \<noteq> []" using assms(4) by (metis digest_ok_def list.size(3) zero_neq_numeral)
    from head_determines [OF this st(2) assms(8) _ e [symmetric]] st(1) assms(9)
    show "ss = rs \<or> collision H (rs @ ss)" by (auto simp: storable_def)
  qed
  moreover have "All s' w' = (Inr [g], w')" by (rule store_ok_All [OF g(4,1)])
  moreover have "readRecords a w' = (Inr rs, w')" by (rule readRecords_ok [OF g(4,3) st(1)])
  ultimately show ?thesis by blast
qed

end
