(* ===== verification/Spec2Isabelle.thy ===== *)
theory Spec2Isabelle
  imports Samples_Operator Rotation_Link
begin

text \<open>
  A verification library for \<open>evidenced\<close>, an agent that collects compliance evidence,
  seals it into a hash chain, keeps it in an append-only file and exports it as bundles.

  The program and its model:

  \<^item> \<open>evidence/\<close>: records, their JSON encoding and hash, the chain (\<open>Seal\<close>,
    \<open>Verify\<close>). Theories \<open>Evidence\<close> (the operations), \<open>Evidence_Codec\<close> (decoding, the round
    trip; an observation is kept as it is spelled in the text, white space included), \<open>Evidence_Tamper\<close> (what the chain protects). \<open>signing.go\<close>: theory \<open>Signing\<close>.
  \<^item> \<open>internal/core/store.go\<close>: the file store. Theories \<open>Store_Text\<close> (the lines of the file),
    \<open>File_Store\<close> (open, append, rotate, read, and their invariant \<open>store_ok\<close>),
    \<open>Store_Faults\<close> (what failing system calls do, that every file survives them, and that a failed rotation
    is final), \<open>Rotation_Link\<close> (what a rotation record says of the archived chain), \<open>Evidence_Store\<close> (the interface
    \<open>Store\<close> as the locales \<open>evidence_store\<close> and \<open>rotating_store\<close>, interpreted on the file store).
  \<^item> \<open>mapping/\<close>: framework mappings and the DORA data. Theory \<open>Control_Mapping\<close>.
  \<^item> \<open>internal/core/config.go\<close>: theory \<open>Config\<close> (schema, defaults, bounds, loading).
  \<^item> \<open>internal/core/collector.go\<close>, \<open>scheduler.go\<close>: theories \<open>Collector_Registry\<close>, \<open>Scheduler\<close> (a cycle, the
    loop, and how over its runs a chain continues the one it started with, through additions and rotations).
  \<^item> \<open>internal/collectors/\<close>: theory \<open>Collector_Kit\<close> (the record of an observation, and the contract of
    a collector as the locale \<open>collector_contract\<close>), \<open>Cert_Lifecycle\<close>, \<open>Rbac_Posture\<close>, \<open>Provenance\<close>,
    \<open>Tls_Scan\<close>, each with the interpretation of the contract.
  \<^item> \<open>bundle/bundle.go\<close>: theories \<open>Bundle\<close> (manifest and header, building, decoding, verifying) and
    \<open>Bundle_Check\<close> (what verification establishes and what not). A bundle is written indented, so a record
    that is read back has its observation with that white space (\<open>reindented\<close>) and the same encoding.
  \<^item> \<open>internal/core/exporter.go\<close>: theories \<open>Exporter\<close> (grouping, report, files) and \<open>Export_Check\<close> (an
    export verifies and reads back).
  \<^item> \<open>internal/push/push.go\<close>: theory \<open>Push\<close>.
  \<^item> \<open>internal/shells/\<close>, \<open>cmd/\<close>: theories \<open>Wiring\<close> (factories and the assembly of an engine, and the two
    placeholders), \<open>Engine_Cycle\<close> (a cycle and its export, end to end), \<open>Shells\<close> (the commands, the
    daemon), \<open>Operator\<close> (the reconciler), \<open>Operator_Manager\<close> (the start of the operator, the
    controller it registers, and the requests its manager hands to the reconciler, as a step relation: events that pass
    the controller's predicates, and the times at which earlier results asked to be called again), \<open>Operator_Cycle\<close> (a reconcile end
    to end), \<open>Operator_Sharing\<close> (two policies over one store).
  \<^item> \<open>api/v1alpha1/\<close>: the custom resources, by value in \<open>Operator\<close>; \<open>Deep_Copy\<close> has them in memory,
    with their deep copies, over the pointers of \<open>Go_Heap\<close> (where the contract of a copy is the locale
    \<open>copier\<close>, which every copy of the code interprets once the library's do, in the locale
    \<open>api_machinery\<close>); \<open>Status_Patch\<close> has the reconciler's \<open>patchStatus\<close> on memory, and shows that
    the by-value model is what it sends.
  \<^item> What the code uses of Go: theories \<open>Go_Text\<close> (UTF-8, hexadecimal, decimal), \<open>Go_Fmt\<close>
    (error texts), \<open>Go_Json_String\<close>, \<open>Go_Json\<close>, \<open>Go_Json_Indent\<close> (\<open>encoding/json\<close>), \<open>Go_Time\<close> (RFC
    3339), \<open>Go_Float\<close> (hours of a duration), \<open>Go_Base64\<close>, \<open>Go_Path\<close>, \<open>Go_Os\<close> (files, faults,
    randomness), \<open>Sha256\<close>.
  \<^item> Theories \<open>Samples\<close>, \<open>Samples_Engine\<close> and \<open>Samples_Operator\<close> hold the concrete inputs of the witnesses.

  A Go string is a list of bytes, a map the list of its entries in key order, an error a value of
  the datatype \<open>error\<close>, a fallible result a sum. An operation with a receiver takes its state and the
  world (\<open>os\<close>) and returns both; what runs under a mutex is one step. The digest is a parameter of
  the chain's theorems, with \<open>digest_ok\<close> (32 bytes) where it matters; \<open>Sha256\<close> gives the one the
  code uses. Faults of the operating system are a schedule in the world: a theorem for all
  schedules covers every failure, \<open>calm\<close> says that none is left.

  Code that is not in the repository is a parameter, in a record: ed25519, PKCS#8 and PEM
  (\<open>key_lib\<close>, with its documented laws \<open>key_lib_ok\<close>), the archive writers, URL parsing and the portal
  (\<open>net\<close>), the YAML decoder, the accessors of unstructured objects, the answers of the API server
  and of the network (the environments of the collectors). The clock is a stream of readings, \<open>n\<close>
  counting those taken. The order of a walk over a Go map is an argument (\<open>walks\<close>) where it
  matters; \<open>Build\<close> and \<open>bundle.Verify\<close> go through their maps in key order, which only decides which of
  several errors is reported. The requests a command sends and the writes of the reconciler to the
  API server are part of their results.

  The properties below are grouped as the program is. Those that show a defect are stated as what
  the code does. The JSON parser runs on fuel \<open>2 * length + 1\<close>, which \<open>parse_render\<close> shows to be
  enough for every text the program writes; every other recursion is structural or has a measure.

  Not modelled: logging, the text of library errors beyond the format strings of the code, file
  modes, and the parts that only call libraries: the transport of requests (TLS settings,
  redirects, timeouts), the building of Kubernetes clients, and the controller library, whose
  calls at the start are parameters; \<open>manages\<close> allows every order in which it may hand out requests,
  with an API server that answers. Only the deep copies and the status patch need pointers; elsewhere
  objects are passed by value.
\<close>

section \<open>The evidence chain\<close>

text \<open>
  C1. The check of a chain accepts exactly the intact chains: every record names the hash of the one
  before it (the first names none) and stores the digest of its own encoding.
\<close>

theorem verify_iff_intact: "Verify H rs = None \<longleftrightarrow> intact H rs"
  by (rule Verify_None_iff)

text \<open>
  C2. Sealing a record onto a chain that verifies gives a chain that verifies and moves the head to
  the new record's hash; of the record only the identifier (if it had none) and the two hashes change.
\<close>

theorem seal_extends_chain:
  assumes "Verify H rs = None" "LastHash c = head_hash rs" "Seal H d c r = (None, c', r')"
  shows "Verify H (rs @ [r']) = None \<and> LastHash c' = Hash r' \<and>
    r' = r\<lparr>ID := (if ID r = [] then NewID d else ID r), PrevHash := LastHash c, Hash := Hash r'\<rparr>"
proof -
  have ext: "intact H (rs @ [r'])" "lastHash c' = Hash r'"
    using Seal_extends [OF _ _ assms(3), of rs] assms(1,2) by (simp_all add: LastHash_def Verify_None_iff)
  have "r' = r\<lparr>ID := (if ID r = [] then NewID d else ID r), PrevHash := LastHash c, Hash := Hash r'\<rparr>"
    using Seal_content [OF assms(3)] unfolding LastHash_def ext(2) .
  with ext show ?thesis unfolding LastHash_def Verify_None_iff by blast
qed

theorem seal_extends_chain_witness:
  "\<exists>c' r'. Seal Sum256 sample_draw NewChain sample_record = (None, c', r') \<and> Verify Sum256 [r'] = None"
proof -
  obtain c where s: "Seal Sum256 sample_draw NewChain sample_record = (None, c, sample_sealed)"
    by (rule sample_seal)
  show ?thesis using seal_extends_chain [OF _ _ s, of "[]"] s by (simp add: Verify_def LastHash_def NewChain_def)
qed

text \<open>
  C3. The head hash commits to the whole history: two chains of well-formed records that both verify
  and end in the same hash are the same chain, record by record, or exhibit two different
  encodings with the same digest. Whoever keeps the head hash notices every edit, insertion,
  deletion and reordering. The chain alone does not show a cut: every part of it from the start verifies.
\<close>

theorem head_hash_commits:
  assumes "digest_ok H" "Verify H rs = None" "Verify H ss = None"
    "\<forall>r\<in>set (rs @ ss). wf_record r" "head_hash rs = head_hash ss"
  shows "(rs = ss \<or> collision H (rs @ ss)) \<and> (\<forall>n. Verify H (take n rs) = None)"
proof
  have "\<forall>b. H b \<noteq> []" using assms(1) by (metis digest_ok_def list.size(3) zero_neq_numeral)
  then show "rs = ss \<or> collision H (rs @ ss)" using assms(2-5) by (intro head_determines) (simp_all add: Verify_None_iff)
  have "intact H (take n rs @ drop n rs)" for n using assms(2) by (simp add: Verify_None_iff)
  then show "\<forall>n. Verify H (take n rs) = None" unfolding Verify_None_iff using intact_take by blast
qed

theorem head_hash_commits_witness:
  "([sample_sealed] = [sample_sealed] \<or> collision Sum256 ([sample_sealed] @ [sample_sealed]))
   \<and> (\<forall>n. Verify Sum256 (take n [sample_sealed]) = None)"
  by (rule head_hash_commits) (use sample_sealed_facts in \<open>simp_all add: Verify_None_iff\<close>)

text \<open>
  C4. Reading back a record's JSON encoding gives the record: every field, the time to the
  nanosecond with its zone, the attributes and the observation byte for byte.
\<close>

theorem record_roundtrip:
  assumes "wf_record r" "marshal_record r = Inr b"
  shows "unmarshal_record b = Inr r"
  using assms by (rule unmarshal_marshal)

theorem record_roundtrip_witness:
  "\<exists>b. marshal_record sample_sealed = Inr b \<and> unmarshal_record b = Inr sample_sealed"
proof -
  obtain b where "marshal_record sample_sealed = Inr b" by (rule sample_marshals)
  then show ?thesis using record_roundtrip [OF sample_sealed_facts(3)] by blast
qed

text \<open>
  C5. A record whose error text is not valid UTF-8 can be sealed and written, but what is read back from the
  line is another record: the bytes that were hashed (with the escaped replacement character) and the bytes
  a check hashes (with the character itself) differ, so the check passes only if these two collide.
\<close>

theorem invalid_utf8_breaks_chain:
  assumes "wf_record (r\<lparr>Error := []\<rparr>)" "\<not> valid_utf8 (Error r)" "valid_utf8 (lastHash c)"
    "Seal H d c r = (None, c', r1)" "marshal_record r1 = Inr b"
  shows "\<exists>r2 x y. unmarshal_record b = Inr r2 \<and> marshal_record (r1\<lparr>Hash := []\<rparr>) = Inr x \<and> Hash r1 = hex_encode (H x)
    \<and> marshal_record (r2\<lparr>Hash := []\<rparr>) = Inr y \<and> x \<noteq> y \<and> (computeHash H r2 = Inr (Hash r2) \<longleftrightarrow> H x = H y)"
proof -
  obtain r2 x y where "unmarshal_record b = Inr r2" "marshal_record (r1\<lparr>Hash := []\<rparr>) = Inr x"
    "marshal_record (r2\<lparr>Hash := []\<rparr>) = Inr y" "x \<noteq> y" "computeHash H r2 = Inr (Hash r2) \<longleftrightarrow> H x = H y"
    by (rule invalid_utf8_not_verifiable [OF assms])
  moreover from this(2) have "Hash r1 = hex_encode (H x)"
    using assms(4) by (cases rule: Seal_cases [of r H d c]) (auto simp: computeHash_def)
  ultimately show ?thesis by blast
qed

theorem invalid_utf8_witness:
  "\<exists>b r2. marshal_record (snd (snd (Seal Sum256 sample_draw NewChain (sample_record\<lparr>Error := [byte 255]\<rparr>)))) = Inr b
    \<and> unmarshal_record b = Inr r2"
proof -
  let ?r = "sample_record\<lparr>Error := [byte 255]\<rparr>"
  obtain c r1 where s: "Seal Sum256 sample_draw NewChain ?r = (None, c, r1)" by (rule sample_seal_any)
  obtain b where b: "marshal_record r1 = Inr b" using s by (rule sealed_encodes)
  have "\<not> valid_utf8 (Error ?r)" by code_simp
  moreover have "wf_record (?r\<lparr>Error := []\<rparr>)" using sample_wf by (simp add: wf_record_def)
  ultimately show ?thesis using invalid_utf8_breaks_chain [OF _ _ _ s b] s b by (auto simp: NewChain_def)
qed

section \<open>The store\<close>

text \<open>
  C6. Opening a file that holds an intact chain gives a store that holds exactly those records, ready
  to continue the chain at its last hash; a file that is not there is an empty chain. No other
  file changes. A file whose records decode but do not form an intact chain is refused, with the error
  of the verification, and nothing is written.
\<close>

theorem open_store:
  assumes "calm w" "os_ok w"
  shows "(stored_at w p rs \<and> intact H rs \<longrightarrow> (\<exists>s w'. OpenFileStore H p w = (Inr s, w') \<and> store_ok H s w' rs \<and> All s w' = (Inr rs, w')
    \<and> store_Verify H s w' = (None, w') \<and> Count s = length rs \<and> spath s = p
    \<and> (\<forall>q. q \<noteq> p \<longrightarrow> file_at w' q = file_at w q)))
    \<and> (readRecords p w = (Inr rs, w) \<and> \<not> intact H rs \<longrightarrow>
      (\<exists>e. OpenFileStore H p w = (Inl (Errorf ''verify existing store %s: %w'' [Str p] (Some e)), w) \<and> Verify H rs = Some e))"
proof (intro conjI impI; elim conjE)
  assume "stored_at w p rs" "intact H rs"
  note opened = OpenFileStore_intact [OF assms this]
  obtain s w' where "OpenFileStore H p w = (Inr s, w')" "calm w'" "store_ok H s w' rs" "spath s = p"
    "\<forall>q. q \<noteq> p \<longrightarrow> file_at w' q = file_at w q"
    using opened by blast
  moreover from this have "Count s = length rs" by (simp add: Count_def store_ok_def)
  ultimately show "\<exists>s w'. OpenFileStore H p w = (Inr s, w') \<and> store_ok H s w' rs \<and> All s w' = (Inr rs, w')
    \<and> store_Verify H s w' = (None, w') \<and> Count s = length rs \<and> spath s = p
    \<and> (\<forall>q. q \<noteq> p \<longrightarrow> file_at w' q = file_at w q)"
    using store_ok_All store_ok_Verify by blast
next
  assume "readRecords p w = (Inr rs, w)" "\<not> intact H rs"
  with assms(1) show "\<exists>e. OpenFileStore H p w = (Inl (Errorf ''verify existing store %s: %w'' [Str p] (Some e)), w)
      \<and> Verify H rs = Some e"
    by (rule OpenFileStore_refuses)
qed

theorem open_store_witness:
  "(\<exists>s w'. OpenFileStore Sum256 ''e.jsonl'' sample_world1 = (Inr s, w') \<and> Count s = 1)
   \<and> (\<exists>e. fst (OpenFileStore Sum256 ''e.jsonl'' (sample_world\<lparr>inodes := (\<lambda>i. text_of [sample_sealed, sample_sealed])\<rparr>)) = Inl e)"
proof
  have "stored_at sample_world1 ''e.jsonl'' [sample_sealed]"
    using sample_sealed_facts by (simp add: stored_at_def file_at_def sample_world1_def sample_world_def)
  with open_store [of sample_world1 "''e.jsonl''" "[sample_sealed]" Sum256] sample_sealed_facts(1)
  show "\<exists>s w'. OpenFileStore Sum256 ''e.jsonl'' sample_world1 = (Inr s, w') \<and> Count s = 1" by force
  let ?w = "sample_world\<lparr>inodes := (\<lambda>i. text_of [sample_sealed, sample_sealed])\<rparr>"
  have "readRecords ''e.jsonl'' ?w = (Inr [sample_sealed, sample_sealed], ?w)"
    using sample_sealed_facts by (intro readRecords_ok) (simp_all add: file_at_def sample_world_def calm_def)
  moreover have "\<not> intact Sum256 ([sample_sealed] @ [sample_sealed])"
    using sample_sealed_facts(1) sample_hash intact_append [of Sum256 "[]" sample_sealed]
      intact_append [of Sum256 "[sample_sealed]" sample_sealed] by (auto simp: head_hash_def)
  moreover have "calm ?w" "os_ok ?w" by (simp_all add: sample_world_def os_ok_def calm_def)
  ultimately show "\<exists>e. fst (OpenFileStore Sum256 ''e.jsonl'' ?w) = Inl e"
    using open_store [of ?w "''e.jsonl''" "[sample_sealed, sample_sealed]" Sum256] by auto
qed

text \<open>
  C7. Append implements \<open>add to the end of the list\<close>: with a working file system and a record that
  fits a line it succeeds, the store then holds the old records and the new one as sealed, all of
  it can be read back and verifies, and every other file is as it was.
\<close>

theorem append_refines:
  assumes "calm w" "entropy_ok w" "store_ok H s w rs" "digest_ok H" "room r"
  shows "\<exists>r' s' w'. Append H r s w = (None, r', s', w') \<and> store_ok H s' w' (rs @ [r']) \<and> stored_as r r'
    \<and> All s' w' = (Inr (rs @ [r']), w') \<and> store_Verify H s' w' = (None, w') \<and> Count s' = Suc (Count s)
    \<and> (\<forall>i. i \<noteq> sfile s \<longrightarrow> inodes w' i = inodes w i)"
proof -
  obtain r' s' w' where a: "Append H r s w = (None, r', s', w')" "store_ok H s' w' (rs @ [r'])"
    "stored_as r r'" "calm w'" "\<forall>i. i \<noteq> sfile s \<longrightarrow> inodes w' i = inodes w i"
    using Append_store_ok [OF assms] by metis
  then have "Count s' = Suc (Count s)" using assms(3) by (simp add: Count_def store_ok_def)
  with a show ?thesis using store_ok_All [OF a(4,2)] store_ok_Verify [OF a(4,2)] by blast
qed

theorem append_refines_witness:
  "\<exists>r' s' w'. Append Sum256 sample_record sample_store sample_world = (None, r', s', w')
    \<and> All s' w' = (Inr [r'], w')"
  using append_refines [OF _ _ sample_store_ok digest_ok_Sum256 sample_room] by force

text \<open>
  C8. Under every schedule of faults, with writes that stop anywhere, no written byte is lost: opening and
  appending leave every file under its name, at most with more at its end; a rotation leaves the store's file under its
  name or under the archive's, and every other file where it was. The one file it can replace is one that has the
  archive's name already. Nor does any open file lose its beginning.
\<close>

theorem store_only_grows:
  assumes "os_ok w"
  shows "survives w (snd (OpenFileStore H p w)) q q \<and> survives w (snd (snd (snd (Append H r s w)))) q q
   \<and> (survives w (snd (snd (MaybeRotate H age now s w))) (spath s) (spath s)
      \<or> survives w (snd (snd (MaybeRotate H age now s w))) (spath s) (archive_path (spath s) now))
   \<and> (q \<in> {spath s, archive_path (spath s) now} \<or> survives w (snd (snd (MaybeRotate H age now s w))) q q)
   \<and> keeps w (snd (OpenFileStore H p w)) \<and> keeps w (snd (snd (snd (Append H r s w))))
   \<and> keeps w (snd (snd (MaybeRotate H age now s w)))"
proof -
  obtain x w1 where o1: "OpenFileStore H p w = (x, w1)" by fastforce
  obtain e r' s' w2 where a: "Append H r s w = (e, r', s', w2)" by (metis prod.collapse)
  obtain y s'' w3 where m: "MaybeRotate H age now s w = (y, s'', w3)" by (metis prod.collapse)
  show ?thesis
    using OpenFileStore_survives [OF assms o1] Append_survives [OF assms a] MaybeRotate_survives [OF assms m]
      keeps_OpenFileStore [OF o1] keeps_Append [OF a] keeps_MaybeRotate [OF m]
    unfolding o1 a m snd_conv by blast
qed

theorem store_grows_witness:
  "\<exists>t. file_at (snd (snd (snd (Append Sum256 sample_record sample_store1 sample_world1)))) ''e.jsonl'' = Some (text_of [sample_sealed] @ t)"
proof -
  have "file_at sample_world1 ''e.jsonl'' = Some (text_of [sample_sealed])"
    using sample_store1_ok by (simp add: store_ok_def sample_store1_fields file_at_def)
  with store_only_grows [OF sample_world1_facts(2), of Sum256 "[]" "''e.jsonl''" sample_record sample_store1] show ?thesis
    by (simp add: survives_def)
qed

text \<open>
  C9. Rotation of a store whose oldest record is old enough: the whole chain is kept, byte for byte, in
  the archive, and the store starts a new intact chain with one record, which names the archive,
  the head hash and the number of records of the old chain.
\<close>

theorem rotation_archives:
  assumes "calm w" "entropy_ok w" "store_ok H s w rs" "digest_ok H"
    "rs \<noteq> []" "\<not> is_zero (firstAt s)" "maxAge \<le> time_sub now (firstAt s)"
    "room (rotation_record (head_hash rs) (length rs) (archive_path (spath s) now) now)"
  shows "\<exists>g s' w'. MaybeRotate H maxAge now s w = (Inr (archive_path (spath s) now), s', w')
    \<and> store_ok H s' w' [g] \<and> file_at w' (archive_path (spath s) now) = Some (text_of rs)
    \<and> stored_as (rotation_record (head_hash rs) (length rs) (archive_path (spath s) now) now) g
    \<and> Observation g = render (rotation_tree (head_hash rs) (length rs) (archive_path (spath s) now))
    \<and> (\<forall>q. q \<noteq> spath s \<longrightarrow> q \<noteq> archive_path (spath s) now \<longrightarrow> file_at w' q = file_at w q)"
proof -
  obtain g s' w' where "MaybeRotate H maxAge now s w = (Inr (archive_path (spath s) now), s', w')"
    "store_ok H s' w' [g]"
    "stored_as (rotation_record (head_hash rs) (length rs) (archive_path (spath s) now) now) g"
    "file_at w' (archive_path (spath s) now) = Some (text_of rs)"
    "\<forall>q. q \<noteq> spath s \<longrightarrow> q \<noteq> archive_path (spath s) now \<longrightarrow> file_at w' q = file_at w q"
    using MaybeRotate_old [OF assms(1-7)] assms(8) by metis
  moreover from this(3) have "Observation g = render (rotation_tree (head_hash rs) (length rs) (archive_path (spath s) now))"
    by (auto simp: stored_as_def rotation_record_def simp del: render.simps)
  ultimately show ?thesis by blast
qed

theorem rotation_witness:
  "\<exists>s' w'. MaybeRotate Sum256 (24 * hour) sample_later sample_store1 sample_world1
     = (Inr ''e-20260107-000000Z.jsonl'', s', w')"
proof -
  have "archive_path (spath sample_store1) sample_later = ''e-20260107-000000Z.jsonl''"
    unfolding sample_store1_fields by code_simp
  with sample_old show ?thesis
    using rotation_archives [OF _ _ sample_store1_ok digest_ok_Sum256, of "24 * hour" sample_later] sample_rotation_room
    by (simp add: head_hash_def) blast
qed

text \<open>
  C10. After one write that failed without writing anything, the next append is accepted (no error), but
  the file it leaves no longer verifies and the store never opens again: the chain in memory had
  moved on to the record that was lost.
\<close>

theorem failed_write_breaks_store:
  assumes "store_ok H s w rs" "entropy_ok w" "digest_ok H" "faults w = [Fault 0 e]" "room r1" "room r2"
  shows "\<exists>x r1' s1 w1 r2' s2 w2. Append H r1 s w = (Some x, r1', s1, w1) \<and> inodes w1 = inodes w
    \<and> Append H r2 s1 w1 = (None, r2', s2, w2) \<and> All s2 w2 = (Inr (rs @ [r2']), w2)
    \<and> (Hash r1' \<noteq> head_hash rs \<longrightarrow> Verify H (rs @ [r2']) \<noteq> None
         \<and> (\<exists>e. fst (OpenFileStore H (spath s) w2) = Inl e))"
  using assms by (rule failed_write_diverges)

theorem failed_write_witness:
  "\<exists>x r1' s1 w1. Append Sum256 sample_record sample_store
     (sample_world\<lparr>faults := [Fault 0 (External ''no space left on device'')]\<rparr>) = (Some x, r1', s1, w1)"
  using failed_write_breaks_store [OF sample_store_faults sample_entropy_faults digest_ok_Sum256 _ sample_room sample_room]
  by force

text \<open>
  C11. A rotation whose rename fails leaves the file as it was but the store without a file to write to:
  every append after it fails, for good: whatever the calls on the store are, rotations that are tried again
  included, and whatever state of the file system each of them finds.
\<close>

theorem failed_rotation_wedges:
  assumes "store_ok H s w rs" "faults w = [Fine, Fault n e]" "rs \<noteq> []" "\<not> is_zero (firstAt s)"
    "maxAge \<le> time_sub now (firstAt s)"
  shows "\<exists>x s1 w1. MaybeRotate H maxAge now s w = (Inl x, s1, w1) \<and> file_at w1 (spath s) = Some (text_of rs)
    \<and> (\<forall>calls. None \<notin> set (append_errors H calls s1))"
  using assms by (rule failed_rename_wedges)

theorem failed_rotation_witness:
  "\<exists>x s1 w1. MaybeRotate Sum256 (24 * hour) sample_later sample_store1
     (sample_world1\<lparr>faults := [Fine, Fault 0 (External ''permission denied'')]\<rparr>) = (Inl x, s1, w1)"
proof -
  have "store_ok Sum256 sample_store1 (sample_world1\<lparr>faults := [Fine, Fault 0 (External ''permission denied'')]\<rparr>) [sample_sealed]"
    using sample_store1_ok by (simp add: store_ok_def os_ok_def)
  from failed_rotation_wedges [OF this _ _ sample_old] show ?thesis by force
qed

text \<open>
  C12. A file whose last record lost its newline (a torn write) is opened without complaint; the next
  append is written onto the same line, and from then on the file cannot be read at all.
\<close>

theorem unterminated_line_breaks_store:
  assumes "calm w" "os_ok w" "entropy_ok w" "digest_ok H" "storable r" "\<forall>x\<in>set rs. storable x"
    "intact H (rs @ [r])" "marshal_record r = Inr b" "file_at w p = Some (text_of rs @ b)" "room q"
  shows "\<exists>s w1 q' s' w2 e. OpenFileStore H p w = (Inr s, w1) \<and> Append H q s w1 = (None, q', s', w2)
    \<and> fst (All s' w2) = Inl e \<and> fst (OpenFileStore H p w2) = Inl e"
  using assms by (rule open_last_line)

theorem unterminated_witness:
  "\<exists>b s w1 q' s' w2. marshal_record sample_sealed = Inr b
    \<and> OpenFileStore Sum256 ''e.jsonl'' (sample_world\<lparr>inodes := (\<lambda>i. b)\<rparr>) = (Inr s, w1)
    \<and> Append Sum256 sample_record s w1 = (None, q', s', w2)"
proof -
  obtain b where b: "marshal_record sample_sealed = Inr b" by (rule sample_marshals)
  let ?w = "sample_world\<lparr>inodes := (\<lambda>i. b)\<rparr>"
  have "calm ?w" "os_ok ?w" "entropy_ok ?w" "file_at ?w ''e.jsonl'' = Some (text_of [] @ b)"
    by (simp_all add: sample_world_def calm_def os_ok_def entropy_ok_def file_at_def)
  from unterminated_line_breaks_store [OF this(1-3) digest_ok_Sum256 sample_sealed_facts(2) _ _ b this(4) sample_room]
  show ?thesis using b sample_sealed_facts(1) by force
qed

section \<open>Control mapping\<close>

text \<open>
  C13. Apply gives a record the identifiers of the controls of all matching rules, each once and in
  order, whatever the order of the rules, and changes nothing else of it.
\<close>

theorem apply_computes_mapped_controls:
  "ControlIDs (Apply m r) = sorted_list_of_set (\<Union>ru\<in>{ru\<in>set (rules m). rcollector ru = CollectorID r
        \<and> (rtargetType ru = [] \<or> rtargetType ru = TType (Target r))}. set (rcontrols ru))
   \<and> (Apply m r)\<lparr>ControlIDs := ControlIDs r\<rparr> = r \<and> Apply m (Apply m r) = Apply m r"
proof -
  have frame: "(Apply m r)\<lparr>ControlIDs := ControlIDs r\<rparr> = r" by (simp add: Apply_def)
  have "mapped_ids m (Apply m r) = mapped_ids m r" by (simp add: mapped_ids_def rule_matches_def)
  then have "Apply m (Apply m r) = Apply m r" by (simp add: Apply_eq)
  with frame show ?thesis by (simp add: Apply_ids mapped_ids_def rule_matches_def)
qed

text \<open>
  C14. A mapping passes validation exactly when it has a name, its control identifiers are non-empty and
  distinct and every rule names a collector and known controls; then every identifier Apply puts on
  any record leads to a control of the catalog.
\<close>

theorem validated_mapping:
  "case validate m of Inl e \<Rightarrow> \<not> wf_mapping m
   | Inr m' \<Rightarrow> wf_mapping m \<and> (\<forall>r. \<forall>k\<in>set (ControlIDs (Apply m' r)).
       \<exists>c\<in>set (controls m). Control m' k = Some c \<and> cid c = k)"
proof (cases "validate m")
  case (Inl e)
  then show ?thesis using validate_ok [of m] by simp
next
  case (Inr m')
  have "\<exists>c\<in>set (controls m). Control m' k = Some c \<and> cid c = k" if k: "k \<in> set (ControlIDs (Apply m' r))" for r k
  proof -
    obtain c where "Control m' k = Some c" "cid c = k" using Apply_in_catalog [OF Inr k] by blast
    then show ?thesis using validate_result(4) [OF Inr, of k] by (auto simp: find_Some_iff)
  qed
  then show ?thesis using Inr validate_ok [of m] by auto
qed

theorem validated_mapping_witness:
  "\<exists>m'. validate dora = Inr m' \<and> (\<exists>c\<in>set (controls dora). Control m' ''dora-9.2'' = Some c)"
proof -
  obtain m' where v: "validate dora = Inr m'" using dora_valid validate_ok by blast
  have "rules m' = rules dora" using v by (rule validate_result)
  then have "''dora-9.2'' \<in> set (ControlIDs (Apply m' sample_record))"
    using sample_apply(1) by (simp add: Apply_def)
  with v validated_mapping [of dora] show ?thesis by fastforce
qed

section \<open>Registry and scheduler\<close>

text \<open>
  C15. The registry accepts a collector exactly when its identifier is new, finds every registered
  collector by its identifier, and lists them in strictly increasing order of identifiers.
\<close>

theorem registry_behaviour:
  assumes "registry_ok g"
  shows "case Register c g of
      (Some e, g') \<Rightarrow> registry_Get g (col_ID c) \<noteq> None \<and> g' = g
    | (None, g') \<Rightarrow> registry_Get g (col_ID c) = None \<and> registry_ok g'
        \<and> set (registry_All g') = insert c (set (registry_All g))
        \<and> registry_Get g' = (registry_Get g)(col_ID c \<mapsto> c)
        \<and> sorted_wrt (<) (map col_ID (registry_All g'))"
proof (cases "Register c g")
  case (Pair x g')
  have new: "x \<noteq> None \<longleftrightarrow> registry_Get g (col_ID c) \<noteq> None"
    using Register_Get(2) [OF assms, of c] Pair by simp
  show ?thesis
  proof (cases x)
    case None
    have "registry_ok g'" using Register_ok [OF assms, of c] Pair by simp
    moreover note registry_All_order(2) [OF this]
    moreover have "registry_Get g' = (registry_Get g)(col_ID c \<mapsto> c)"
      using Register_Get(1) [OF assms, of c g'] Pair None by (simp add: fun_eq_iff)
    ultimately show ?thesis
      using Register_Get(1) [OF assms, of c g'] Pair None new by simp
  next
    case (Some e)
    then have "g' = g" using Pair by (auto simp: Register_def split: if_splits)
    with Some Pair new show ?thesis by simp
  qed
qed

theorem registry_witness:
  "\<exists>g'. Register sample_observer NewRegistry = (None, g') \<and> registry_Get g' ''tlsscan'' = Some sample_observer"
proof -
  obtain g' where r: "Register sample_observer NewRegistry = (None, g')"
    by (simp add: Register_def NewRegistry_def)
  from registry_behaviour [OF NewRegistry_ok, of sample_observer] r show ?thesis by (simp add: sample_observer_def)
qed

text \<open>
  C16. A cycle on a store that works, whose records fit (valid UTF-8, a time that has an RFC 3339 text, less than a
  line; the rotation's record too, where one is due), returns no error, whichever collectors fail: the store then holds what it
  held, or the rotation record alone, followed by the records of the cycle in the order of the collectors, each
  stamped, mapped and sealed, with one failure record in place of a collector that failed.
\<close>

theorem run_once_records_cycle:
  assumes "file_holds H st rs" "Store s = file_store_ops H"
    "RotateAfter s \<le> 0 \<or> room (file_rotation rs (Clock s n) st)"
    "cycle_records (Clock s) (Mapping s) env (registry_All (Registry s)) (if 0 < RotateAfter s then Suc n else n) = (ps, n')"
    "\<forall>r\<in>set ps. room r"
  shows "(\<exists>kept added st'. RunOnce s env st n = (None, st', n') \<and> file_holds H st' (kept @ added) \<and> list_all2 stored_as ps added
      \<and> (kept = rs \<or> 0 < RotateAfter s \<and> (\<exists>g. kept = [g] \<and> stored_as (file_rotation rs (Clock s n) st) g)))
    \<and> (\<exists>pss. ps = concat pss \<and> list_all2 (collector_adds (Mapping s) env) (registry_All (Registry s)) pss)"
proof (rule conjI)
  have "0 < RotateAfter s \<Longrightarrow> room (file_rotation rs (Clock s n) st)" using assms(3) by simp
  from frotating.RunOnce_any [OF assms(1,2) this assms(4,5)]
  show "\<exists>kept added st'. RunOnce s env st n = (None, st', n') \<and> file_holds H st' (kept @ added) \<and> list_all2 stored_as ps added
      \<and> (kept = rs \<or> 0 < RotateAfter s \<and> (\<exists>g. kept = [g] \<and> stored_as (file_rotation rs (Clock s n) st) g))" .
qed (rule cycle_records_adds [OF assms(4)])

theorem run_once_witness:
  "\<exists>st' a b. RunOnce (sample_scheduler 0) 7 (sample_store, sample_world) 0 = (None, st', 1)
    \<and> file_holds Sum256 st' [a, b] \<and> stored_as (Apply dora sample_failure) a \<and> stored_as (Apply dora sample_record) b"
proof -
  let ?s = "sample_scheduler 0" and ?ps = "[Apply dora sample_failure, Apply dora sample_record]"
  have "(\<exists>kept added st'. RunOnce ?s 7 (sample_store, sample_world) 0 = (None, st', Suc 0)
    \<and> file_holds Sum256 st' (kept @ added) \<and> list_all2 stored_as ?ps added
    \<and> (kept = [] \<or> 0 < RotateAfter ?s \<and> (\<exists>g. kept = [g] \<and> stored_as (file_rotation [] (Clock ?s 0) (sample_store, sample_world)) g)))
    \<and> (\<exists>pss. ?ps = concat pss \<and> list_all2 (collector_adds (Mapping ?s) 7) (registry_All (Registry ?s)) pss)"
    by (rule run_once_records_cycle)
      (simp_all add: file_holds_def sample_scheduler_def sample_cycle sample_cycle_room)
  then show ?thesis by (auto simp: list_all2_Cons1 sample_scheduler_def)
qed



section \<open>Configuration and keys\<close>

text \<open>
  C18. Exactly the configurations whose interval is at least a minute and whose rotation age is at least a
  day (or which leave them out) are accepted; what is accepted keeps these bounds and has a store
  path and an export directory, and parsing it again would change nothing.
\<close>

theorem parsed_config_bounds:
  "case ParseConfig dec b of
     Inr c \<Rightarrow> (\<exists>c0. dec b = Inr c0 \<and> c = applyDefaults c0) \<and> 60 * second \<le> cf_Interval c
       \<and> 24 * hour \<le> cf_StoreRotateAfter c \<and> cf_StorePath c \<noteq> [] \<and> cf_ExportDir c \<noteq> []
       \<and> applyDefaults c = c \<and> config_validate c = None
   | Inl e \<Rightarrow> \<nexists>c0. dec b = Inr c0 \<and> (cf_Interval c0 = 0 \<or> 60 * second \<le> cf_Interval c0)
       \<and> (cf_StoreRotateAfter c0 = 0 \<or> 24 * hour \<le> cf_StoreRotateAfter c0)"
proof (cases "ParseConfig dec b")
  case (Inl e)
  have "config_validate (applyDefaults c0) = None"
    if "cf_Interval c0 = 0 \<or> 60 * second \<le> cf_Interval c0"
      "cf_StoreRotateAfter c0 = 0 \<or> 24 * hour \<le> cf_StoreRotateAfter c0" for c0 :: "'a config"
    using that by (auto simp: config_validate_def applyDefaults_def minute_def Let_def)
  with Inl show ?thesis by (fastforce simp: ParseConfig_def Let_def)
next
  case (Inr c)
  have ok: "config_ok c" using Inr by (rule ParseConfig_ok)
  then have "applyDefaults c = c" by (rule applyDefaults_ok)
  with ok validate_ok_iff [of c] Inr show ?thesis
    by (auto simp: config_ok_def minute_def ParseConfig_def Let_def bindr_eq_Inr split: option.splits)
qed

text \<open>
  C19. The signing key is made on the first run and stays: wherever the key file is kept as the first
  run left it, every later run gets the same key and writes nothing.
\<close>

theorem signing_key_persists:
  assumes "calm w" "os_ok w" "names w p = None" "p \<noteq> []" "key_lib_ok L"
    "kl_GenerateKey L (entropy w (drawn w)) = Inr k" "kl_MarshalPKCS8 L k = Inr der"
  shows "\<exists>w'. loadOrCreateKey L p w = (Inr (Some k), w') \<and> calm w'
    \<and> (\<forall>w2. calm w2 \<longrightarrow> file_at w2 p = file_at w' p \<longrightarrow> loadOrCreateKey L p w2 = (Inr (Some k), w2))"
  using assms by (rule loadOrCreateKey_stable)

theorem signing_key_witness:
  "\<exists>w'. loadOrCreateKey sample_keys ''key.pem'' sample_world = (Inr (Some (replicate 16 (byte 0))), w')
    \<and> loadOrCreateKey sample_keys ''key.pem'' w' = (Inr (Some (replicate 16 (byte 0))), w')"
proof -
  have "names sample_world ''key.pem'' = None" "entropy sample_world (drawn sample_world) = replicate 16 (byte 0)"
    by (simp_all add: sample_world_def)
  from signing_key_persists [OF _ _ this(1) _ sample_keys_ok, of "replicate 16 (byte 0)" "replicate 16 (byte 0)"] this(2)
  show ?thesis by (auto simp: sample_keys_def)
qed

section \<open>Bundles\<close>

text \<open>
  C20. An export is what its reader takes it for: from a store that holds an intact chain it writes a new
  bundle that passes verification, signature included, and from which the time, the framework and the records come
  back. The records are the exported ones field by field, except that each observation has the white space the
  indented file gives it (\<open>reindented\<close>); they have the same encodings, so the same hashes. The store is as it was. Needed are a bundle
  directory with no such files, a time that has an RFC 3339 text in a zone of whole minutes, and observations no deeper than a reader takes.
\<close>

theorem export_verifies_and_reads_back:
  assumes "calm w" "store_ok H s w rs" "key_lib_ok L" "walks_ok W" "exportable e rs now"
    "fresh_bundle w (bundle_dir dir now)"
  shows "\<exists>w'. Export H L W e now dir s w = (Inr (bundle_dir dir now), w') \<and> calm w' \<and> store_ok H s w' rs
    \<and> bundle_Verify H L (bundle_dir dir now) w' = (None, w')
    \<and> bundle_Read H (bundle_dir dir now) w' = (Inr \<lparr>hd_Tool = ''evidenced'', hd_Framework = frameworkName e,
         hd_GeneratedAt = now, hd_RecordCount = int (length rs), hd_Records = map (reindented 3) rs\<rparr>, w')
    \<and> map marshal_record (map (reindented 3) rs) = map marshal_record rs"
  using Export_verifies [OF assms] unfolding read_header_def .

theorem export_witness:
  "\<exists>w'. Export Sum256 sample_keys sample_walks sample_exporter sample_later ''out'' sample_store1 sample_world1
      = (Inr ''out/evidence-20260107-000000Z'', w')
    \<and> bundle_Verify Sum256 sample_keys ''out/evidence-20260107-000000Z'' w' = (None, w')"
proof -
  have "exportable sample_exporter [sample_sealed] sample_later"
    by (rule sample_exportable) (simp_all add: sample_shallow)
  from export_verifies_and_reads_back [OF _ sample_store1_ok sample_keys_ok sample_walks_ok this sample_fresh(2)]
  show ?thesis by (auto simp: sample_bundle_dir)
qed

text \<open>
  C21. A store whose records do not form an intact chain is never exported: the call returns the error of
  the verification and no file has changed.
\<close>

theorem tampered_store_not_exported:
  assumes "All s w = (Inr rs, w1)" "\<not> intact H rs"
  shows "(\<exists>err. Verify H rs = Some err
      \<and> fst (Export H L W e now dir s w) = Inl (Errorf ''refusing to export: %w'' [] (Some err)))
    \<and> (\<forall>q. file_at (snd (Export H L W e now dir s w)) q = file_at w q)"
proof -
  obtain err where err: "Verify H rs = Some err" using assms(2) Verify_None_iff by fastforce
  with Export_refuses [OF assms(1) err, of L W e now dir] Export_refuses_untouched [OF assms(1), of H L W e now dir]
  show ?thesis by simp
qed

theorem export_refuses_witness:
  "\<exists>x. fst (Export Sum256 sample_keys sample_walks sample_exporter sample_later ''out'' sample_store
     (sample_world\<lparr>inodes := (\<lambda>i. text_of [sample_sealed, sample_sealed])\<rparr>)) = Inl x"
proof -
  let ?w = "sample_world\<lparr>inodes := (\<lambda>i. text_of [sample_sealed, sample_sealed])\<rparr>"
  have "readRecords ''e.jsonl'' ?w = (Inr [sample_sealed, sample_sealed], ?w)"
    using sample_sealed_facts by (intro readRecords_ok) (simp_all add: file_at_def sample_world_def calm_def)
  then have "All sample_store ?w = (Inr [sample_sealed, sample_sealed], ?w)"
    by (simp add: All_def sample_store_def)
  moreover have "\<not> intact Sum256 ([sample_sealed] @ [sample_sealed])"
    using sample_sealed_facts(1) sample_hash intact_append [of Sum256 "[]" sample_sealed]
      intact_append [of Sum256 "[sample_sealed]" sample_sealed] by (auto simp: head_hash_def)
  ultimately show ?thesis
    using tampered_store_not_exported [of sample_store ?w "[sample_sealed, sample_sealed]"] by fastforce
qed

text \<open>
  C22. Under one manifest a listed file has one content: if two states of a bundle directory hold the same
  manifest and both pass verification, every listed file is there in both, with the same bytes, or
  the digest has a collision.
\<close>

theorem manifest_pins_contents:
  assumes "calm w" "calm w'" "fst (bundle_Verify H L dir w) = None" "fst (bundle_Verify H L dir w') = None"
    "manifest_at w dir = Some m" "manifest_at w' dir = Some m" "(n, want) \<in> set (manifest_files m)"
  shows "\<exists>b c. file_at w (filepath_Join dir (filepath_Base n)) = Some b
    \<and> file_at w' (filepath_Join dir (filepath_Base n)) = Some c \<and> (b = c \<or> b \<noteq> c \<and> H b = H c)"
proof -
  have v: "bundle_valid H L dir w m" "bundle_valid H L dir w' m"
    using assms(3-6) bundle_Verify_iff(2) [OF assms(1), of H L dir] bundle_Verify_iff(2) [OF assms(2), of H L dir]
    by (auto simp: bundle_valid_def)
  then obtain b c where "file_at w (filepath_Join dir (filepath_Base n)) = Some b"
    "file_at w' (filepath_Join dir (filepath_Base n)) = Some c"
    using assms(7) by (fastforce simp: bundle_valid_def)
  with bundle_content_unique [OF v assms(7)] show ?thesis by blast
qed

theorem bundle_pins_witness:
  "\<exists>b c. file_at (one_file sample_manifest) (filepath_Join ''d'' ''a'') = Some b
    \<and> file_at (one_file sample_manifest) (filepath_Join ''d'' ''a'') = Some c \<and> (b = c \<or> b \<noteq> c \<and> ([] :: bytes) = [])"
proof -
  let ?w = "one_file sample_manifest" and ?m = "zero_manifest\<lparr>mf_Files := Some [(''a'', [])]\<rparr>"
  have m: "manifest_at ?w ''d'' = Some ?m"
    by (simp add: manifest_at_def sample_manifest_read)
  have "fst (bundle_Verify (\<lambda>b. []) sample_keys ''d'' ?w) = None"
    using m by (subst bundle_Verify_iff(2), simp, intro exI [of _ ?m])
      (simp add: bundle_valid_def manifest_files_def hex_sum_def, simp add: zero_manifest_def)
  moreover have "(''a'', []) \<in> set (manifest_files ?m)" by (simp add: manifest_files_def)
  moreover have "filepath_Base ''a'' = ''a''" by code_simp
  ultimately show ?thesis
    using manifest_pins_contents [of ?w ?w "\<lambda>b. []" sample_keys "''d''" ?m "''a''" "[]"] m by simp
qed

section \<open>The report\<close>

text \<open>
  C23. Nothing is hidden in the report: a record whose collection failed has its line among the failures,
  and every control a record counts towards has its section, over exactly the records mapped to
  that control.
\<close>

theorem report_covers_records:
  assumes "r \<in> set rs"
  shows "(Outcome r = OutcomeFailed \<longrightarrow> sublist (failure_line r) (renderReport W e rs now))
    \<and> (\<forall>k\<in>set (ControlIDs r). \<exists>ss. sublist (control_section W e (k, ss)) (renderReport W e rs now)
        \<and> set ss = {x \<in> set rs. k \<in> set (ControlIDs x)})"
  using renderReport_failures [OF assms, of W e now] renderReport_controls [OF assms, of _ W e now]
  by (simp add: sublist_def)

theorem report_witness:
  "sublist (failure_line (Apply dora sample_failure)) (renderReport sample_walks sample_exporter [Apply dora sample_failure] sample_later)
   \<and> (\<exists>ss. sublist (control_section sample_walks sample_exporter (''dora-6.1'', ss))
       (renderReport sample_walks sample_exporter [Apply dora sample_failure] sample_later))"
proof -
  have "Outcome (Apply dora sample_failure) = OutcomeFailed" "''dora-6.1'' \<in> set (ControlIDs (Apply dora sample_failure))"
    by (simp_all add: sample_apply) (simp add: Apply_def sample_failure_def failure_record_def)
  then show ?thesis
    using report_covers_records [of "Apply dora sample_failure" "[Apply dora sample_failure]"] by fastforce
qed

text \<open>
  C24. The records listed under a control: at most the limit, one for each target and the newest of it,
  the newest first; a target that is left out is no newer than any that is listed. This holds for
  every order in which Go may walk the map.
\<close>

theorem latest_records_listed:
  assumes "walks_ok W"
  shows "length (latestPerTarget W rs limit) \<le> limit \<and> set (latestPerTarget W rs limit) \<subseteq> set rs
    \<and> distinct (map target_key (latestPerTarget W rs limit))
    \<and> sorted_wrt (\<lambda>a b. inst (CollectedAt b) \<le> inst (CollectedAt a)) (latestPerTarget W rs limit)
    \<and> (\<forall>r\<in>set (latestPerTarget W rs limit). \<forall>x\<in>set rs. target_key x = target_key r \<longrightarrow> inst (CollectedAt x) \<le> inst (CollectedAt r))
    \<and> (\<forall>x\<in>set rs. target_key x \<notin> target_key ` set (latestPerTarget W rs limit) \<longrightarrow>
         length (latestPerTarget W rs limit) = limit
         \<and> (\<forall>r\<in>set (latestPerTarget W rs limit). inst (CollectedAt x) \<le> inst (CollectedAt r)))"
  using latestPerTarget_facts [OF assms] by blast

theorem latest_witness:
  "latestPerTarget sample_walks [sample_record, sample_record\<lparr>CollectedAt := sample_later\<rparr>] 10
     = [sample_record\<lparr>CollectedAt := sample_later\<rparr>]
   \<and> distinct (map target_key (latestPerTarget sample_walks [sample_record, sample_failure] 1))"
  using latest_records_listed [OF sample_walks_ok, of "[sample_record, sample_failure]" 1]
  by (auto simp: latestPerTarget_def sample_walks_def target_key_def after_def sample_record_def sample_time_def sample_later_def)

section \<open>Collectors\<close>

text \<open>
  C25. The contract of the four collectors, as every factory makes them: each record carries the
  collector's name, is either observed, with an observation of well-formed JSON and no error, or failed, with an error
  and no observation, and the DORA mapping gives it at least one control. The access they declare is
  to read from Kubernetes or to open an outbound connection, nothing else.
\<close>

theorem collectors_keep_contract:
  assumes "(k, f) \<in> set (kube_factories P @ builtin P)" "f cc = Inr c" "col_Collect c env = Inr rs" "r \<in> set rs"
  shows "CollectorID r = k \<and> ControlIDs (Apply dora r) \<noteq> []
    \<and> (if Outcome r = OutcomeObserved then Error r = [] \<and> Observation r \<noteq> [] \<and> obs_ok (Observation r)
       else Outcome r = OutcomeFailed \<and> Error r \<noteq> [] \<and> Observation r = [])
    \<and> set (map arAccess (col_RequiredAccess c)) \<subseteq> {''get,list,watch'', ''outbound TCP connect''}"
  using standard_records [OF assms] standard_access [OF assms(1,2)]
  by (auto simp: OutcomeObserved_def OutcomeFailed_def)

theorem collectors_witness:
  "\<exists>c rs. (snd (hd (builtin sample_platform))) \<lparr>cl_Enabled = True, cl_Settings = Some ()\<rparr> = Inr c
    \<and> col_Collect c sample_env = Inr rs \<and> (\<forall>r\<in>set rs. CollectorID r = ''tlsscan'')"
proof -
  define f where "f = snd (hd (builtin sample_platform))"
  let ?cc = "\<lparr>cl_Enabled = True, cl_Settings = Some ()\<rparr>"
  have "SplitHostPort ''a:443'' = Inr (''a'', ''443'')" by code_simp
  then obtain c where c: "f ?cc = Inr c" "c = lift_collector en_tls (tls_collector \<lparr>tc_Endpoints = [''a:443''], tc_Timeout = 10 * second\<rparr>)"
    by (simp add: f_def builtin_def sample_platform_def DecodeSettings_def tls_New_def)
  then obtain rs where rs: "col_Collect c sample_env = Inr rs"
    by (simp add: lift_collector_def tls_collector_def tls_Collect_def)
  have "(''tlsscan'', f) \<in> set (kube_factories sample_platform @ builtin sample_platform)"
    by (simp add: f_def builtin_def)
  from collectors_keep_contract [OF this c(1) rs] c(1) rs show ?thesis unfolding f_def by blast
qed

text \<open>
  C26. The scanner never aborts: with the endpoints New accepted, every run gives one record for each of
  them, in their order, whatever the network does; a connection that fails gives a failed record
  with the error. All of them, the failed ones too, count towards dora-9.2 alone.
\<close>

theorem tls_scan_answers_every_endpoint:
  assumes "tls_New cfg0 = Inr cfg"
  shows "\<exists>rs. tls_Collect cfg env = Inr rs \<and> map (TName \<circ> Target) rs = tc_Endpoints cfg0
    \<and> (\<forall>r\<in>set rs. ControlIDs (Apply dora r) = [''dora-9.2''])
    \<and> (\<forall>n. \<forall>e\<in>set (tc_Endpoints cfg0). \<exists>host port. SplitHostPort e = Inr (host, port) \<and>
         (\<forall>x. te_dial env (Suc n) (tc_Timeout cfg) host e = Inl x \<longrightarrow>
            Outcome (fst (tls_scan cfg env e n)) = OutcomeFailed
            \<and> Error (fst (tls_scan cfg env e n)) = ''handshake with '' @ e @ '': '' @ error_text x))"
proof -
  obtain rs where rs: "tls_Collect cfg env = Inr rs" "map (TName \<circ> Target) rs = tc_Endpoints cfg"
    using tls_Collect_names by blast
  have "ControlIDs (Apply dora r) = [''dora-9.2'']" if "r \<in> set rs" for r
    using tls_Collect_records [OF rs(1) that] by (rule tls_controls)
  moreover have "\<exists>host port. SplitHostPort e = Inr (host, port) \<and>
         (\<forall>x. te_dial env (Suc n) (tc_Timeout cfg) host e = Inl x \<longrightarrow>
            Outcome (fst (tls_scan cfg env e n)) = OutcomeFailed
            \<and> Error (fst (tls_scan cfg env e n)) = ''handshake with '' @ e @ '': '' @ error_text x)"
    if e: "e \<in> set (tc_Endpoints cfg0)" for n e
  proof -
    obtain host port where "SplitHostPort e = Inr (host, port)"
      using tls_New_ok(4) [OF assms] tls_New_ok(1) [OF assms] e by (metis surj_pair)
    with tls_scan_failed [OF this] show ?thesis by blast
  qed
  ultimately show ?thesis using rs tls_New_ok(1) [OF assms] by auto
qed

theorem tls_scan_witness:
  "\<exists>rs. tls_Collect \<lparr>tc_Endpoints = [''a:443''], tc_Timeout = 5\<rparr> sample_tls = Inr rs \<and> map (TName \<circ> Target) rs = [''a:443'']"
proof -
  have "SplitHostPort ''a:443'' = Inr (''a'', ''443'')" by code_simp
  then have "tls_New \<lparr>tc_Endpoints = [''a:443''], tc_Timeout = 5\<rparr> = Inr \<lparr>tc_Endpoints = [''a:443''], tc_Timeout = 5\<rparr>"
    by (simp add: tls_New_def)
  from tls_scan_answers_every_endpoint [OF this] show ?thesis by fastforce
qed

text \<open>
  C27. The analysis agrees with the authorizer: a cluster role with API groups in its rules is marked as
  reading secrets exactly when it allows get, list or watch on secrets in some group, and a run
  records every role that does, with that observation.
\<close>

theorem secret_readers_recorded:
  assumes "\<forall>pr\<in>set (role_Rules cr). APIGroups pr \<noteq> []"
  shows "(SecretsRead (analyzeRole cr) \<longleftrightarrow>
      (\<exists>verb\<in>{''get'', ''list'', ''watch''}. \<exists>grp. role_allows cr verb grp ''secrets''))
    \<and> (\<forall>rs roles. SecretsRead (analyzeRole cr) \<and> rbac_Collect env = Inr rs \<and> re_roles env = Inr roles \<and> cr \<in> set roles \<longrightarrow>
      (\<exists>r\<in>set rs. TType (Target r) = TargetTypeClusterRole \<and> TName (Target r) = role_Name cr
        \<and> Outcome r = OutcomeObserved \<and> Observation r = render (role_json (analyzeRole cr))))"
proof -
  have "SecretsRead (analyzeRole cr) \<longleftrightarrow>
      (\<exists>verb\<in>{''get'', ''list'', ''watch''}. \<exists>grp. role_allows cr verb grp ''secrets'')"
    using reader_exact [OF _ assms] secrets_reader(1) by blast
  then show ?thesis using secret_reader_recorded by meson
qed

theorem secret_readers_witness:
  "SecretsRead (analyzeRole sample_role) \<and> role_allows sample_role ''get'' [] ''secrets''
   \<and> (\<exists>rs. rbac_Collect sample_rbac = Inr rs \<and> (\<exists>r\<in>set rs. TName (Target r) = ''reader''))"
proof -
  have groups: "\<forall>pr\<in>set (role_Rules sample_role). APIGroups pr \<noteq> []" by (simp add: sample_role_def)
  have get: "role_allows sample_role ''get'' [] ''secrets''" by (simp add: sample_role_def role_allows_def allows_def)
  then have s: "SecretsRead (analyzeRole sample_role)" using secret_readers_recorded [OF groups] by blast
  obtain rs where "rbac_Collect sample_rbac = Inr rs"
    by (simp add: rbac_Collect_def sample_rbac_def split_beta)
  moreover have "re_roles sample_rbac = Inr [sample_role]" "role_Name sample_role = ''reader''"
    by (simp_all add: sample_rbac_def sample_role_def)
  ultimately show ?thesis
    using secret_readers_recorded [OF groups, of sample_rbac] get s by (metis list.set_intros(1))
qed

text \<open>
  C28. What provenance observes: a workload is pinned exactly when every container's image names a sha256
  digest, its images are those of its containers in order, and signature verification is reported
  exactly when some webhook's name, in lower case, contains the name of a known engine.
\<close>

theorem provenance_observes:
  "(AllDigestPinned (workload_obs kind wl) \<longleftrightarrow> (\<forall>ct\<in>set (wl_Containers wl). sublist ''@sha256:'' (ct_Image ct)))
   \<and> wo_Images (workload_obs kind wl) = map image_of (wl_Containers wl)
   \<and> (SignatureVerificationDetected (admission_obs low hs) \<longleftrightarrow>
        (\<exists>h\<in>set hs. \<exists>e\<in>set signatureEngines. sublist e (ToLower low h)))
   \<and> set (DetectedEngines (admission_obs low hs)) = {e \<in> set signatureEngines. \<exists>h\<in>set hs. sublist e (ToLower low h)}"
  using workload_obs_facts [of kind wl] admission_obs_facts [of low hs] by blast

theorem provenance_witness:
  "SignatureVerificationDetected (admission_obs id [''Kyverno-policies''])"
proof -
  have "sublist ''kyverno'' (ToLower id ''Kyverno-policies'')" unfolding contains_text_sublist [symmetric] by code_simp
  then show ?thesis using provenance_observes [of _ _ id "[''Kyverno-policies'']"] by (auto simp: signatureEngines_def)
qed

section \<open>The engine\<close>

text \<open>
  C29. What a shell builds from a configuration, with the collectors of a cluster or, when there is no cluster, without:
  the registry holds exactly the enabled collectors, in the order of their names, each of which a factory knows; the cycle writes
  to the file store with the configured rotation age, and scheduler and exporter share the DORA mapping. An enabled collector that
  no factory knows stops the build with an error before any file is looked at.
\<close>

theorem built_engine:
  assumes "ResolveKubeFactories clientset dyn P kubeconfig incluster = Inr fs \<or> KubeFactories clientset dyn P rest = Inr fs"
  shows "(case Build B cfg fs w of
     (Inr (e, s), w') \<Rightarrow>
       map col_ID (registry_All (Registry (eg_Scheduler e))) = sorted_list_of_set (set (enabled_names (cf_Collectors cfg)))
       \<and> set (enabled_names (cf_Collectors cfg)) \<subseteq> {''certlifecycle'', ''provenance'', ''rbacposture'', ''tlsscan''}
       \<and> eg_Config e = cfg \<and> Store (eg_Scheduler e) = file_store_ops (lb_digest B)
       \<and> RotateAfter (eg_Scheduler e) = cf_StoreRotateAfter cfg \<and> ex_Mapping (eg_Exporter e) = Mapping (eg_Scheduler e)
       \<and> (\<exists>m. Mapping (eg_Scheduler e) = Some m \<and> framework m = ''DORA'' \<and> rules m = dora_rules)
   | (Inl x, w') \<Rightarrow> True)
   \<and> ((\<exists>(k, cc)\<in>set (cf_Collectors cfg). cl_Enabled cc \<and> k \<notin> fst ` set (fs @ builtin (lb_platform B)))
        \<longrightarrow> (\<exists>x. Build B cfg fs w = (Inl x, w)))"
proof
  note fs = shell_names [OF assms]
  have known: "fst ` set (fs @ builtin (lb_platform B)) \<subseteq> {''certlifecycle'', ''provenance'', ''rbacposture'', ''tlsscan''}"
    using assms shell_factories [of clientset dyn P] by (fastforce simp: kube_factories_def builtin_def)
  obtain y w' where b: "Build B cfg fs w = (y, w')" by fastforce
  show "case Build B cfg fs w of
     (Inr (e, s), w') \<Rightarrow>
       map col_ID (registry_All (Registry (eg_Scheduler e))) = sorted_list_of_set (set (enabled_names (cf_Collectors cfg)))
       \<and> set (enabled_names (cf_Collectors cfg)) \<subseteq> {''certlifecycle'', ''provenance'', ''rbacposture'', ''tlsscan''}
       \<and> eg_Config e = cfg \<and> Store (eg_Scheduler e) = file_store_ops (lb_digest B)
       \<and> RotateAfter (eg_Scheduler e) = cf_StoreRotateAfter cfg \<and> ex_Mapping (eg_Exporter e) = Mapping (eg_Scheduler e)
       \<and> (\<exists>m. Mapping (eg_Scheduler e) = Some m \<and> framework m = ''DORA'' \<and> rules m = dora_rules)
   | (Inl x, w') \<Rightarrow> True"
  proof (cases y)
    case (Inr es)
    then obtain e s where i: "Build B cfg fs w = (Inr (e, s), w')" using b by (cases es) auto
    show ?thesis
      unfolding i using Build_registry [OF i fs] Build_scheduler [OF i] subset_trans [OF Build_known [OF i] known] by simp
  qed (simp add: b)
  show "(\<exists>(k, cc)\<in>set (cf_Collectors cfg). cl_Enabled cc \<and> k \<notin> fst ` set (fs @ builtin (lb_platform B)))
        \<longrightarrow> (\<exists>x. Build B cfg fs w = (Inl x, w))"
    using Build_unknown [of _ _ cfg fs B w] by (fastforce simp only: map_of_eq_None_iff)
qed

theorem build_witness:
  "\<exists>e s w'. Build sample_libs sample_config (kube_factories sample_platform) sample_world1 = (Inr (e, s), w')
    \<and> map col_ID (registry_All (Registry (eg_Scheduler e))) = [''rbacposture'', ''tlsscan'']"
proof -
  obtain e s w' where b: "Build sample_libs sample_config (kube_factories sample_platform) sample_world1 = (Inr (e, s), w')"
    by (rule sample_build)
  have k: "KubeFactories (\<lambda>_. Inr ()) (\<lambda>_. Inr ()) sample_platform () = Inr (kube_factories sample_platform)"
    by (simp add: KubeFactories_def)
  have "sorted_list_of_set (set (enabled_names (cf_Collectors sample_config))) = [''rbacposture'', ''tlsscan'']"
    by (simp add: enabled_names_def sample_config_def) code_simp?
  with built_engine [OF disjI2 [OF k], where B = sample_libs and cfg = sample_config and w = sample_world1] b show ?thesis by auto
qed

text \<open>
  C30. End to end: on a store that holds an intact chain, a cycle with rotation succeeds, the export after
  it succeeds, and the bundle verifies and gives back, in order, what the store kept (all it had, or
  the rotation record alone) and exactly the records of the cycle, each stamped, mapped and sealed; only the white space of
  their observations is that of the indented file, and their encodings are the stored ones. Needed: every record and the rotation's
  fit a line and are not nested to the reader's limit, no file of the bundle's names is in its directory or is the
  archive, and the time of the export has an RFC 3339 text in a zone of whole minutes.
\<close>

theorem cycle_and_export:
  assumes "Store sch = file_store_ops H" "RotateAfter sch > 0" "key_lib_ok L" "walks_ok W"
    "file_holds H (s, w) rs" "\<forall>r\<in>set rs. shallow r" "room (file_rotation rs (Clock sch n) (s, w))"
    "cycle_records (Clock sch) (Mapping sch) env (registry_All (Registry sch)) (Suc n) = (ps, n')"
    "\<forall>r\<in>set ps. room r \<and> shallow r" "format_time now \<noteq> None" "60 dvd offset now" "valid_utf8 (frameworkName e)"
    "fresh_bundle w (bundle_dir dir now)"
    "\<forall>k\<in>set bundle_names. filepath_Join (bundle_dir dir now) k \<noteq> archive_path (spath s) (Clock sch n)"
    "length rs + length ps < 2 ^ 62"
  shows "\<exists>kept added s' w' w''. RunOnce sch env (s, w) n = (None, (s', w'), n')
    \<and> Export H L W e now dir s' w' = (Inr (bundle_dir dir now), w'')
    \<and> bundle_Verify H L (bundle_dir dir now) w'' = (None, w'')
    \<and> bundle_Read H (bundle_dir dir now) w'' = (Inr (read_header e (kept @ added) now), w'')
    \<and> map marshal_record (map (reindented 3) (kept @ added)) = map marshal_record (kept @ added)
    \<and> (kept = rs \<or> (\<exists>g. kept = [g] \<and> stored_as (file_rotation rs (Clock sch n) (s, w)) g))
    \<and> list_all2 stored_as ps added \<and> Count s' = length (kept @ added)"
  using assms by (rule engine_cycle)

theorem engine_cycle_witness:
  "\<exists>s' w' w''. RunOnce (sample_scheduler (24 * hour)) 7 (sample_store, sample_world) 0 = (None, (s', w'), Suc (Suc 0))
    \<and> Export Sum256 sample_keys sample_walks sample_exporter sample_later ''out'' s' w' = (Inr ''out/evidence-20260107-000000Z'', w'')
    \<and> bundle_Verify Sum256 sample_keys ''out/evidence-20260107-000000Z'' w'' = (None, w'')"
proof -
  define sch where "sch = sample_scheduler (24 * hour)"
  have sch: "Store sch = file_store_ops Sum256" "RotateAfter sch > 0" "Clock sch = sample_clock"
    "Mapping sch = Some dora" "Registry sch = sample_registry"
    by (simp_all add: sch_def sample_scheduler_def)
  have "file_holds Sum256 (sample_store, sample_world) []" by (simp add: file_holds_def)
  moreover have "room (file_rotation [] (Clock sch 0) (sample_store, sample_world))"
    unfolding sch(3) by (rule sample_empty_rotation)
  moreover have "cycle_records (Clock sch) (Mapping sch) 7 (registry_All (Registry sch)) (Suc 0)
      = ([Apply dora sample_failure, Apply dora sample_record], Suc (Suc 0))"
    unfolding sch(3-5) by (rule sample_cycle)
  moreover have "\<forall>r\<in>set [Apply dora sample_failure, Apply dora sample_record]. room r \<and> shallow r"
    using sample_cycle_room sample_shallow by (simp add: shallow_def)
  moreover have "format_time sample_later \<noteq> None" "60 dvd offset sample_later" by code_simp+
  moreover have "valid_utf8 (frameworkName sample_exporter)" by (simp add: sample_framework plain_valid code_def)
  moreover have "\<forall>k\<in>set bundle_names. filepath_Join (bundle_dir ''out'' sample_later) k \<noteq> archive_path (spath sample_store) (Clock sch 0)"
    using sample_bundle_paths(2) by (simp add: sch(3) sample_clock_def sample_store_def)
  ultimately have "\<exists>kept added s' w' w''. RunOnce sch 7 (sample_store, sample_world) 0 = (None, (s', w'), Suc (Suc 0))
    \<and> Export Sum256 sample_keys sample_walks sample_exporter sample_later ''out'' s' w' = (Inr (bundle_dir ''out'' sample_later), w'')
    \<and> bundle_Verify Sum256 sample_keys (bundle_dir ''out'' sample_later) w'' = (None, w'')
    \<and> bundle_Read Sum256 (bundle_dir ''out'' sample_later) w'' = (Inr (read_header sample_exporter (kept @ added) sample_later), w'')
    \<and> map marshal_record (map (reindented 3) (kept @ added)) = map marshal_record (kept @ added)
    \<and> (kept = [] \<or> (\<exists>g. kept = [g] \<and> stored_as (file_rotation [] (Clock sch 0) (sample_store, sample_world)) g))
    \<and> list_all2 stored_as [Apply dora sample_failure, Apply dora sample_record] added \<and> Count s' = length (kept @ added)"
    by (intro cycle_and_export sch(1,2) sample_keys_ok sample_walks_ok sample_fresh(1)) simp_all
  then show ?thesis unfolding sch_def sample_bundle_dir by blast
qed

section \<open>The shells\<close>

text \<open>
  C31. The verify command succeeds on exactly the stores whose records form an intact chain, and then
  prints the number of records.
\<close>

theorem verify_command:
  assumes "calm w" "os_ok w" "parse_flags config_flags [] args = Inr (vs, rest)"
    "fst (LoadConfig dec (string_flag ''config'' ''evidenced.yaml'' vs) w) = Inr cfg"
    "stored_at w (cf_StorePath cfg) rs"
  shows "(fst (cli_Verify B dec args w) = None \<longleftrightarrow> intact (lb_digest B) rs)
    \<and> (intact (lb_digest B) rs \<longrightarrow> fst (snd (cli_Verify B dec args w)) =
         Fprintf (''store %s: %d records, chain intact'' @ lf) [Str (cf_StorePath cfg), Num (int (length rs))])"
  using cli_Verify_iff [OF assms] by blast

theorem cli_verify_witness:
  "fst (cli_Verify sample_libs (\<lambda>b. Inr sample_config) [] (one_file (text_of [sample_sealed]))) = None"
proof -
  have "stored_at (one_file (text_of [sample_sealed])) (cf_StorePath sample_config) [sample_sealed]"
    using sample_sealed_facts
    by (simp add: stored_at_def)
  moreover have "LoadConfig (\<lambda>b. Inr sample_config) p (one_file (text_of [sample_sealed])) =
      (Inr sample_config, one_file (text_of [sample_sealed]))" for p
    by (rule sample_load) (rule sample_config_ok)
  moreover have "lb_digest sample_libs = Sum256" by (simp add: sample_libs_def)
  ultimately show ?thesis
    using verify_command [of "one_file (text_of [sample_sealed])" "[]" "[]" "[]" "\<lambda>b. Inr sample_config" sample_config
        "[sample_sealed]" sample_libs] sample_sealed_facts(1)
    by simp
qed

text \<open>
  C32. The push command sends at most one request, and only with an upload in the configuration it read and a bundle
  whose files are valid: the manifest lists nothing that is missing or has another checksum, and a signature is right. The
  request goes to the configured URL, which is https or a loopback address, with a token that is not empty, and carries the
  archive of the three files exactly as they are in that directory. So it is under every schedule of faults.
\<close>

theorem push_sends_verified_bundles:
  assumes "cli_Push B dec args w = (err, out, rqs, w')" "rq \<in> set rqs"
  shows "rqs = [rq] \<and> (\<exists>vs dir b cfg m. parse_flags config_flags [] args = Inr (vs, [dir])
    \<and> file_at w (string_flag ''config'' ''evidenced.yaml'' vs) = Some b \<and> ParseConfig dec b = Inr cfg \<and> Push_Enabled (cf_Push cfg)
    \<and> bundle_valid (lb_digest B) (lb_keys B) dir w m
    \<and> rq_Endpoint rq = TrimSuffix (pu_URL (cf_Push cfg)) ''/'' @ ''/api/v1/bundles''
    \<and> (\<exists>u. np_Parse (lb_net B) (pu_URL (cf_Push cfg)) = Inr u \<and> u_Host u \<noteq> []
         \<and> (u_Scheme u = ''https'' \<or> isLoopback (lb_net B) (u_Hostname u)))
    \<and> (\<exists>tok. tok \<noteq> [] \<and> rq_Authorization rq = ''Bearer '' @ tok)
    \<and> (\<exists>fs. map fst fs = [''evidence.json'', ''report.md'', ''manifest.json'']
         \<and> (\<forall>(n, c)\<in>set fs. file_at w (filepath_Join dir n) = Some c) \<and> np_TarGz (lb_net B) fs = Inr (rq_Body rq)))"
proof -
  obtain vs dir b cfg p m fs where s: "parse_flags config_flags [] args = Inr (vs, [dir])"
    "file_at w (string_flag ''config'' ''evidenced.yaml'' vs) = Some b" "ParseConfig dec b = Inr cfg" "Push_Enabled (cf_Push cfg)"
    "bundle_valid (lb_digest B) (lb_keys B) dir w m" "pp_Config p = cf_Push cfg" "check_push (lb_net B) (cf_Push cfg) = None"
    "rqs = [rq]" "rq_Endpoint rq = push_endpoint p" "\<exists>tok. tok \<noteq> [] \<and> rq_Authorization rq = ''Bearer '' @ tok"
    "map fst fs = bundleFiles" "\<forall>(n, b)\<in>set fs. file_at w (filepath_Join dir n) = Some b" "np_TarGz (lb_net B) fs = Inr (rq_Body rq)"
    by (rule cli_Push_files [OF assms])
  obtain u where "np_Parse (lb_net B) (pu_URL (cf_Push cfg)) = Inr u" "u_Host u \<noteq> []"
    "u_Scheme u = ''https'' \<or> isLoopback (lb_net B) (u_Hostname u)" using check_push_ok [OF s(7)] .
  then have url: "\<exists>u. np_Parse (lb_net B) (pu_URL (cf_Push cfg)) = Inr u \<and> u_Host u \<noteq> []
      \<and> (u_Scheme u = ''https'' \<or> isLoopback (lb_net B) (u_Hostname u))" by blast
  have endpoint: "rq_Endpoint rq = TrimSuffix (pu_URL (cf_Push cfg)) ''/'' @ ''/api/v1/bundles''"
    using s(6,9) by (simp add: push_endpoint_def)
  have files: "\<exists>fs. map fst fs = [''evidence.json'', ''report.md'', ''manifest.json'']
      \<and> (\<forall>(n, c)\<in>set fs. file_at w (filepath_Join dir n) = Some c) \<and> np_TarGz (lb_net B) fs = Inr (rq_Body rq)"
    by (rule exI [of _ fs], intro conjI) (rule s(11) [unfolded bundleFiles_def] s(12,13))+
  show ?thesis
    by (rule conjI [OF s(8)], rule exI [of _ vs], rule exI [of _ dir], rule exI [of _ b], rule exI [of _ cfg], rule exI [of _ m])
      (rule conjI s(1-5,10) endpoint url files)+
qed

theorem push_witness:
  "\<exists>out rq w'. cli_Push sample_libs (\<lambda>b. Inr sample_push_config) [''b''] (one_file ''{}'') = (None, out, [rq], w')
    \<and> (\<exists>tok. tok \<noteq> [] \<and> rq_Authorization rq = ''Bearer '' @ tok)"
proof -
  obtain out rq where p: "cli_Push sample_libs (\<lambda>b. Inr sample_push_config) [''b''] (one_file ''{}'') = (None, out, [rq], one_file ''{}'')"
    by (rule sample_push)
  have "rq \<in> set [rq]" by simp
  from push_sends_verified_bundles [OF p this] have "\<exists>tok. tok \<noteq> [] \<and> rq_Authorization rq = ''Bearer '' @ tok" by blast
  with p show ?thesis by blast
qed

text \<open>
  C33. The daemon ends at the first signal, whatever comes before or after it: without an error, or, at a
  tick before it, with the error of a cycle whose collection or export failed; an upload that
  fails never ends it. It sends at most one request a tick, to the configured portal, and none without one.
\<close>

theorem daemon_ends_at_signal:
  "\<exists>err st' new. daemon_loop B e (Serving st n sent) (evs @ Signalled # rest) = Stopped err st' (sent @ new)
    \<and> daemon_loop B e (Serving st n sent) (evs @ [Signalled]) = Stopped err st' (sent @ new)
    \<and> length new \<le> length evs \<and> set new \<subseteq> {rq. \<exists>p. eg_Pusher e = Some p \<and> rq_Endpoint rq = push_endpoint p}
    \<and> (case err of None \<Rightarrow> True | Some x \<Rightarrow> \<exists>env. Ticked env \<in> set evs \<and> cycle_fails B e env x)"
  using daemon_loop_end [of B e st n sent evs rest] unfolding subset_iff mem_Collect_eq Ball_def .

section \<open>The operator\<close>

text \<open>
  C34. The schedule of a policy never stops and never runs hot: in every state the manager can bring the
  reconciler to, reconciling a policy that exists asks to be called again after at least a minute,
  whatever failed, and its status is patched as the last action; the cache stays sound.
\<close>

theorem reconcile_comes_back:
  assumes "reconciled B yaml fs r" "Reconcile B yaml fs env owned name (Found p) r = (q, err, acts, rqs, r')"
  shows "(\<exists>d. q = RequeueAfter d \<and> 60 * second \<le> d) \<and> err = None \<and> reconciled B yaml fs r'
    \<and> (\<exists>st. acts \<noteq> [] \<and> last acts = PatchStatus (po_Name p) st \<and> st_ObservedGeneration st = po_Generation p)
    \<and> (\<forall>k c. map_of (rc_Engines r') k = Some c \<longrightarrow> 60 * second \<le> cf_Interval (eg_Config (ca_Engine c)))"
proof -
  note ok = reconciled_cache_ok [OF assms(1)]
  have r': "reconciled B yaml fs r'" using reconciled.again [OF assms] .
  moreover have "\<exists>d. q = RequeueAfter d \<and> 60 * second \<le> d \<and> err = None"
    using Reconcile_requeues(2) [OF ok assms(2) refl] by (simp add: minute_def)
  moreover have "60 * second \<le> cf_Interval (eg_Config (ca_Engine c))" if "map_of (rc_Engines r') k = Some c" for k c
    using reconciled_cache_ok [OF r'] map_of_SomeD [OF that] by (auto simp: cache_ok_def minute_def)
  ultimately show ?thesis using Reconcile_patches [OF assms(2)] by blast
qed

theorem reconcile_witness:
  "\<exists>q err acts rqs r'. Reconcile sample_libs (\<lambda>b. Inr NoNode) [] sample_env True ''p'' (Found sample_policy) (new_reconciler sample_world)
     = (q, err, acts, rqs, r') \<and> (\<exists>d. q = RequeueAfter d)"
proof -
  obtain q err acts rqs r' where r: "Reconcile sample_libs (\<lambda>b. Inr NoNode) [] sample_env True ''p'' (Found sample_policy) (new_reconciler sample_world)
     = (q, err, acts, rqs, r')" by (metis prod.collapse)
  from reconcile_comes_back [OF reconciled.start r] r show ?thesis by blast
qed

text \<open>
  C35. A reconcile from end to end, in every state of the operator in which the store of the policy's engine holds an
  intact chain, without an upload and with a positive rotation age: a report is created and the status patched without an
  error; both name the directory of a bundle that verifies and reads back as what the store kept followed by the records of the
  cycle (only the white space of their observations is the file's), and both give the number of those records. Needed: the
  records and the rotation's fit a line and are not nested to the reader's limit, no file of the bundle's names is in its directory
  or is the archive, and the time of the export has an RFC 3339 text in a zone of whole minutes.
\<close>

theorem reconcile_reports_cycle:
  assumes "reconciled B yaml fs r" "engineFor B yaml fs p r = (Inr c, r1)"
    "eg_Pusher (ca_Engine c) = None" "cf_StoreRotateAfter (eg_Config (ca_Engine c)) > 0"
    "key_lib_ok (lb_keys B)" "walks_ok (lb_walks B)"
    "file_holds (lb_digest B) (ca_Store c, rc_World r1) rs" "\<forall>r\<in>set rs. shallow r"
    "room (file_rotation rs (lb_clock B (rc_Ticks r1)) (ca_Store c, rc_World r1))"
    "cycle_records (lb_clock B) (Mapping (eg_Scheduler (ca_Engine c))) env
        (registry_All (Registry (eg_Scheduler (ca_Engine c)))) (Suc (rc_Ticks r1)) = (ps, n)" "\<forall>r\<in>set ps. room r \<and> shallow r"
    "format_time (lb_clock B n) \<noteq> None" "60 dvd offset (lb_clock B n)"
    "dir = bundle_dir (cf_ExportDir (eg_Config (ca_Engine c))) (lb_clock B n)" "fresh_bundle (rc_World r1) dir"
    "\<forall>k\<in>set bundle_names. filepath_Join dir k \<noteq> archive_path (spath (ca_Store c)) (lb_clock B (rc_Ticks r1))"
    "length rs + length ps < 2 ^ 62"
  shows "\<exists>rep st r' kept added. Reconcile B yaml fs env True name (Found p) r =
      (RequeueAfter (cf_Interval (eg_Config (ca_Engine c))), None, [CreateReport rep, PatchStatus (po_Name p) st], [], r')
    \<and> er_BundlePath rep = dir \<and> er_RecordCount rep = int (length (kept @ added)) \<and> er_Framework rep = ''DORA''
    \<and> st_LastBundle st = dir \<and> st_Records st = int (length (kept @ added)) \<and> st_LastError st = []
    \<and> bundle_Verify (lb_digest B) (lb_keys B) dir (rc_World r') = (None, rc_World r')
    \<and> bundle_Read (lb_digest B) dir (rc_World r') = (Inr \<lparr>hd_Tool = ''evidenced'', hd_Framework = ''DORA'',
         hd_GeneratedAt = lb_clock B n, hd_RecordCount = int (length (kept @ added)),
         hd_Records = map (reindented 3) (kept @ added)\<rparr>, rc_World r')
    \<and> map marshal_record (map (reindented 3) (kept @ added)) = map marshal_record (kept @ added)
    \<and> (kept = rs \<or> (\<exists>g. kept = [g] \<and> stored_as (file_rotation rs (lb_clock B (rc_Ticks r1)) (ca_Store c, rc_World r1)) g))
    \<and> list_all2 stored_as ps added"
  using assms by (rule Reconcile_cycle)

theorem reconcile_cycle_witness:
  "\<exists>rep st r' d. Reconcile sample_libs (\<lambda>b. Inr NoNode) [] sample_env True ''p'' (Found sample_local_policy)
      (new_reconciler sample_world) = (RequeueAfter d, None, [CreateReport rep, PatchStatus ''p'' st], [], r')
    \<and> st_LastError st = [] \<and> er_BundlePath rep = bundle_dir ''out'' sample_time"
proof -
  obtain c r1 where e: "engineFor sample_libs (\<lambda>b. Inr NoNode) [] sample_local_policy (new_reconciler sample_world) = (Inr c, r1)"
    "rc_World r1 = sample_world" "rc_Ticks r1 = 0" "store_ok Sum256 (ca_Store c) sample_world []" "spath (ca_Store c) = ''e.jsonl''"
    "eg_Pusher (ca_Engine c) = None" "cf_StoreRotateAfter (eg_Config (ca_Engine c)) > 0"
    "cf_ExportDir (eg_Config (ca_Engine c)) = ''out''" "registry_All (Registry (eg_Scheduler (ca_Engine c))) = []"
    by (rule sample_local_engine)
  have B: "lb_digest sample_libs = Sum256" "lb_keys sample_libs = sample_keys" "lb_walks sample_libs = sample_walks"
    "lb_clock sample_libs = sample_clock" by (simp_all add: sample_libs_def)
  have 1: "file_holds (lb_digest sample_libs) (ca_Store c, rc_World r1) []"
    using e(4) by (simp add: file_holds_def B e(2))
  have 2: "room (file_rotation [] (lb_clock sample_libs (rc_Ticks r1)) (ca_Store c, rc_World r1))"
    using sample_empty_rotation by (simp add: file_rotation_def e(3,5) B sample_store_def)
  have 3: "cycle_records (lb_clock sample_libs) (Mapping (eg_Scheduler (ca_Engine c))) sample_env
      (registry_All (Registry (eg_Scheduler (ca_Engine c)))) (Suc (rc_Ticks r1)) = ([], Suc 0)" by (simp add: e(3,9))
  have 4: "format_time (lb_clock sample_libs (Suc 0)) \<noteq> None" "60 dvd offset (lb_clock sample_libs (Suc 0))"
    unfolding B sample_clock_def by code_simp+
  have 5: "fresh_bundle (rc_World r1) (bundle_dir ''out'' sample_time)"
    "\<forall>k\<in>set bundle_names. filepath_Join (bundle_dir ''out'' sample_time) k \<noteq> archive_path (spath (ca_Store c)) (lb_clock sample_libs (rc_Ticks r1))"
    using sample_fresh_now by (simp_all add: e(2,3,5) B sample_clock_def)
  have 6: "bundle_dir ''out'' sample_time = bundle_dir (cf_ExportDir (eg_Config (ca_Engine c))) (lb_clock sample_libs (Suc 0))"
    by (simp add: e(8) B sample_clock_def)
  have 7: "po_Name sample_local_policy = ''p''" by (simp add: sample_local_policy_def sample_policy_def)
  note R = reconcile_reports_cycle [OF reconciled.start e(1,6,7) _ _ 1 _ 2 3 _ 4 6 5, where name = "''p''", unfolded B 7]
  show ?thesis using R sample_keys_ok sample_walks_ok by fastforce
qed

text \<open>
  C36. Two policies that leave the store to the default get two engines over one file: the appends of both
  report success, and the file then holds a forked chain that does not verify and does not open.
\<close>

theorem default_policies_fork_chain:
  assumes "reconciled B yaml fs r" "calm (rc_World r)" "os_ok (rc_World r)" "entropy_ok (rc_World r)" "digest_ok (lb_digest B)"
    "stored_at (rc_World r) ''/var/lib/evidenced/evidence.jsonl'' rs" "intact (lb_digest B) rs"
    "map_of (rc_Engines r) (po_Name p) = None" "plain_policy p"
    "map_of (rc_Engines r) (po_Name q) = None" "plain_policy q" "po_Name q \<noteq> po_Name p"
    "engineFor B yaml fs p r = (Inr a, r1)" "engineFor B yaml fs q r1 = (Inr b, r2)" "room x" "room y"
  shows "\<exists>x' s w1 y' t w2. Append (lb_digest B) x (ca_Store a) (rc_World r2) = (None, x', s, w1)
    \<and> Append (lb_digest B) y (ca_Store b) w1 = (None, y', t, w2) \<and> All s w2 = (Inr (rs @ [x', y']), w2)
    \<and> (Hash x' \<noteq> head_hash rs \<longrightarrow> Verify (lb_digest B) (rs @ [x', y']) \<noteq> None
         \<and> (\<exists>e. fst (OpenFileStore (lb_digest B) ''/var/lib/evidenced/evidence.jsonl'' w2) = Inl e))"
proof -
  note s = plain_policies_share [OF assms(2-4) assms(6) [folded default_store_def] assms(7-12) reconciled_cache_ok [OF assms(1)] assms(13,14)]
  have "spath (ca_Store a) = spath (ca_Store b)" by (simp add: s(5,6))
  from two_stores_diverge [OF s(1,2) assms(5) s(3,4) this assms(15,16)] show ?thesis
    unfolding s(5) default_store_def .
qed

theorem default_policies_witness:
  "\<exists>a b r1 r2 x' s w1 y' t w2. engineFor sample_libs (\<lambda>b. Inr NoNode) [] sample_policy (new_reconciler sample_world) = (Inr a, r1)
    \<and> engineFor sample_libs (\<lambda>b. Inr NoNode) [] (sample_policy\<lparr>po_Name := ''q''\<rparr>) r1 = (Inr b, r2)
    \<and> Append Sum256 sample_record (ca_Store a) (rc_World r2) = (None, x', s, w1)
    \<and> Append Sum256 sample_record (ca_Store b) w1 = (None, y', t, w2)"
proof -
  let ?r = "new_reconciler sample_world :: (unit, string) reconciler" and ?q = "sample_policy\<lparr>po_Name := ''q''\<rparr>"
  have pl: "plain_policy sample_policy" "plain_policy ?q" by (simp_all add: plain_policy_def sample_policy_def)
  have w: "calm (rc_World ?r)" "os_ok (rc_World ?r)" "entropy_ok (rc_World ?r)" "stored_at (rc_World ?r) default_store []"
    by (simp_all add: new_reconciler_def stored_at_def file_at_def) (simp_all add: sample_world_def default_store_def)
  have e: "map_of (rc_Engines ?r) k = None" for k by (simp add: new_reconciler_def)
  obtain a r1 where a: "engineFor sample_libs (\<lambda>b. Inr NoNode) [] sample_policy ?r = (Inr a, r1)" "calm (rc_World r1)" "os_ok (rc_World r1)"
    "stored_at (rc_World r1) default_store []" "rc_Engines r1 = put (po_Name sample_policy) a (rc_Engines ?r)"
    using engineFor_default [OF w(1,2,4) _ e pl(1), of sample_libs "\<lambda>b. Inr NoNode" "[]"] by (auto simp: sample_policy_def)
  have "map_of (rc_Engines r1) (po_Name ?q) = None" by (simp add: a(5) sample_policy_def new_reconciler_def)
  from engineFor_default [OF a(2-4) _ this pl(2), of sample_libs "\<lambda>b. Inr NoNode" "[]"]
  obtain b r2 where b: "engineFor sample_libs (\<lambda>b. Inr NoNode) [] ?q r1 = (Inr b, r2)" by (auto simp: sample_policy_def)
  have d: "lb_digest sample_libs = Sum256" by (simp add: sample_libs_def)
  have n: "po_Name ?q \<noteq> po_Name sample_policy" by (simp add: sample_policy_def)
  from default_policies_fork_chain [OF reconciled.start w(1-3) _ w(4) [unfolded default_store_def] _ e pl(1) e pl(2) n a(1) b sample_room sample_room]
  show ?thesis using a(1) b digest_ok_Sum256 unfolding d by fastforce
qed

section \<open>The operator in memory and in time\<close>

text \<open>
  C37. The hand-written deep copies are deep: whatever object is copied (a policy, a report, a list of
  them), the copy denotes the same, shares no cell with the original, and no cell that was there is
  written; so no later write to either one's cells is seen through the other.
\<close>

theorem deep_copy_isolated:
  assumes "api_machinery M V" "heap_ok h" "view_object V ob h = Some v" "DeepCopyObject M ob h = (ob', h')"
  shows "view_object V ob' h' = Some v \<and> view_object V ob h' = Some v
    \<and> foot_object V ob h' \<inter> foot_object V ob' h' = {} \<and> (\<forall>a<Next h. Cells h' a = Cells h a)
    \<and> (\<forall>h''. agree (- foot_object V ob h) h' h'' \<longrightarrow> view_object V ob' h'' = Some v)
    \<and> (\<forall>h''. agree (- foot_object V ob' h') h' h'' \<longrightarrow> view_object V ob h'' = Some v)"
proof -
  note C = api_machinery.Object_copier [OF assms(1)]
  show ?thesis
    using copier.copies [OF C assms(2-4)] copier.original_kept [OF C assms(2-4)] copier.apart [OF C assms(2-4)]
      copier.copy_isolated [OF C assms(2-4)] copier.original_isolated [OF C assms(2-4)]
    unfolding grown_def by blast
qed

theorem deep_copy_witness:
  "\<exists>b h'. DeepCopyObject lib_machinery (PolicyObject (Some 6)) sample_mem = (PolicyObject (Some b), h')
    \<and> view_object lib_views (PolicyObject (Some b)) h' = Some (PolicyVal sample_policy_val)
    \<and> foot_object lib_views (PolicyObject (Some 6)) h' \<inter> foot_object lib_views (PolicyObject (Some b)) h' = {}"
proof -
  have v: "view_object lib_views (PolicyObject (Some 6)) sample_mem = Some (PolicyVal sample_policy_val)"
    using sample_mem_view by (simp add: view_object_def)
  obtain ob h' where c: "DeepCopyObject lib_machinery (PolicyObject (Some 6)) sample_mem = (ob, h')" by fastforce
  moreover from c obtain b where "ob = PolicyObject (Some b)"
    by (auto simp: DeepCopyObject_def Policy_DeepCopyObject_def Policy_DeepCopy_def split: prod.splits)
  ultimately show ?thesis using deep_copy_isolated [OF lib_api_machinery sample_mem_ok v c] by blast
qed

text \<open>
  C38. A status patch is computed from what it should be: after the policy's status is changed in place, the
  base still denotes the policy as it was read, and the policy denotes it with exactly the status
  that the by-value patch of the reconciler carries; nothing else in memory is written.
\<close>

theorem status_patch_base:
  assumes "api_machinery M V" "heap_ok h" "view_at (view_policy V) policy_in p h = Some v"
    "q = policy_of name generation v" "patchStatus M f p h = (base, h')"
    "f = set_failure e (po_Generation q) \<and> act = failure_patch q e
     \<or> f = set_success pe (po_Generation q) now k dir \<and> act = success_patch q pe now k dir"
  shows "\<exists>b st. base = Some b \<and> view_at (view_policy V) policy_in b h' = Some v
    \<and> view_at (view_policy V) policy_in p h' = Some (v\<lparr>pv_Status := st\<rparr>) \<and> act = PatchStatus (po_Name q) st
    \<and> (\<forall>a<Next h. a \<noteq> p \<longrightarrow> Cells h' a = Cells h a)"
  using assms(6)
proof (elim disjE conjE)
  assume f: "f = set_failure e (po_Generation q)" and a: "act = failure_patch q e"
  from api_machinery.patchStatus_views [OF assms(1-3) mutates_failure assms(5) [unfolded f]] a show ?thesis
    by (auto simp: failure_patch_def assms(4) policy_of_def)
next
  assume f: "f = set_success pe (po_Generation q) now k dir" and a: "act = success_patch q pe now k dir"
  from api_machinery.patchStatus_views [OF assms(1-3) mutates_success assms(5) [unfolded f]] a show ?thesis
    by (auto simp: success_patch_def assms(4) policy_of_def)
qed

theorem status_patch_witness:
  "\<exists>b h'. patchStatus lib_machinery (set_failure (External ''boom'') 2) 6 sample_mem = (Some b, h')
    \<and> view_at (view_policy lib_views) policy_in b h' = Some sample_policy_val"
proof -
  obtain base h' where r: "patchStatus lib_machinery (set_failure (External ''boom'') 2) 6 sample_mem = (base, h')" by fastforce
  let ?q = "policy_of fst (\<lambda>x. fst (snd x)) sample_policy_val"
  have "set_failure (External ''boom'') 2 = set_failure (External ''boom'') (po_Generation ?q)
    \<and> failure_patch ?q (External ''boom'') = failure_patch ?q (External ''boom'')"
    by (simp add: policy_of_def sample_policy_val_def)
  from status_patch_base [OF lib_api_machinery sample_mem_ok sample_mem_view refl r disjI1 [OF this]] r show ?thesis by blast
qed

text \<open>
  C39. The interval of a policy is not a hot loop: once the operator runs, with the controller it registered at its start, however long
  the manager goes on and whatever fails in the cycles, the number of reconciles of policies is at most one per change made
  from outside, plus one a minute for each; the reconciler's own status patches start none, because their updates do not pass the
  controller's predicate. A reconcile whose policy could not be read runs no cycle and is not counted; the library calls it again.
\<close>

theorem operator_rate:
  assumes "operator_Run C clientset dyn P w args = Served m e" "keeps_controller C controller_of" "controller_of m = Some ctr"
    "generation_changed (sem GenerationChangedPredicate)" "patches_status srv" "manages B yaml sem srv ctr since s"
  shows "runs (mn_Chains s) \<le> length (filter ch_Outside (mn_Chains s)) * (1 + nat ((mn_Now s - since) div (60 * second)))
    \<and> (\<forall>c\<in>set (mn_Chains s). ch_Outside c)"
  using served_rate [OF assms] unfolding minute_def .

theorem operator_rate_witness:
  "\<exists>s. sample_manages s \<and> runs (mn_Chains s) = 2
    \<and> 2 \<le> length (filter ch_Outside (mn_Chains s)) * (1 + nat ((mn_Now s - 0) div (60 * second)))"
proof -
  have "snd (['':9090'', ''healthz'', ''readyz''], Some sample_controller) = Some sample_controller" by simp
  then have rate: "runs (mn_Chains s) \<le> length (filter ch_Outside (mn_Chains s)) * (1 + nat ((mn_Now s - 0) div (60 * second)))
      \<and> (\<forall>c\<in>set (mn_Chains s). ch_Outside c)" if "sample_manages s" for s
    using that by (rule operator_rate [where sem = sample_pass and srv = sample_server, OF sample_served sample_keeps_controller _ sample_laws])
  have two: "runs (mn_Chains (sample_managed (minute + second) 2 (minute + second + minute))) = 2"
    by (simp add: runs_def sample_managed_def)
  show ?thesis using rate sample_two_runs two by metis
qed

text \<open>
  C40. Continuity across segments: after a rotation the archive reads back as the old chain and the new file as one record, whose
  observation fits the old chain's head hash and length and those of no other; and an intact chain of well-formed
  records with that head hash is the archived one, or shows two different encodings with the same digest. So whoever holds
  the two files can tell that the one continues the other.
\<close>

theorem rotation_commits_to_archive:
  assumes "calm w" "entropy_ok w" "store_ok H s w rs" "digest_ok H" "MaybeRotate H maxAge now s w = (Inr a, s', w')" "a \<noteq> []"
    "room (rotation_record (head_hash rs) (length rs) a now)" "Verify H ss = None" "\<forall>r\<in>set ss. wf_record r"
  shows "\<exists>g. All s' w' = (Inr [g], w') \<and> readRecords a w' = (Inr rs, w')
    \<and> (Observation g = render (rotation_tree (head_hash ss) (length ss) a) \<longleftrightarrow> head_hash ss = head_hash rs \<and> length ss = length rs)
    \<and> (head_hash ss = head_hash rs \<longrightarrow> ss = rs \<or> collision H (rs @ ss))"
  using assms by (intro rotation_commits) (simp_all add: Verify_None_iff)

theorem rotation_commits_witness:
  "\<exists>s' w' g. MaybeRotate Sum256 (24 * hour) sample_later sample_store1 sample_world1 = (Inr ''e-20260107-000000Z.jsonl'', s', w')
    \<and> All s' w' = (Inr [g], w') \<and> readRecords ''e-20260107-000000Z.jsonl'' w' = (Inr [sample_sealed], w')"
proof -
  have a: "archive_path (spath sample_store1) sample_later = ''e-20260107-000000Z.jsonl''"
    unfolding sample_store1_fields by code_simp
  have r: "room (rotation_record (head_hash [sample_sealed]) (length [sample_sealed]) ''e-20260107-000000Z.jsonl'' sample_later)"
    using sample_rotation_room by (simp add: head_hash_def)
  obtain s' w' where m: "MaybeRotate Sum256 (24 * hour) sample_later sample_store1 sample_world1 = (Inr ''e-20260107-000000Z.jsonl'', s', w')"
    by (rule MaybeRotate_old [OF _ _ sample_store1_ok digest_ok_Sum256 _ sample_old r [folded a]]) (simp_all add: a)
  have "Verify Sum256 [sample_sealed] = None" "\<forall>r\<in>set [sample_sealed]. wf_record r"
    using sample_sealed_facts by (simp_all add: Verify_None_iff)
  from rotation_commits_to_archive [OF _ _ sample_store1_ok digest_ok_Sum256 m _ r this] m show ?thesis by auto
qed

end
